(* ===== verification/Prelude.thy ===== *)
theory Prelude
  imports Main "HOL-Library.Word" "HOL-Library.Finite_Map" "HOL-Library.Monad_Syntax"
begin

text \<open>
  What the components share: names for Go's machine types, Go's arbitrary precision
  division, rounding division, and generic facts on finite maps and lists.

  A Go panic is \<open>None\<close> of an \<open>option\<close> (so a panic anywhere in a computation is a panic of
  the whole, by \<open>Option.bind\<close>); a Go \<open>error\<close> result is \<open>Inl\<close> of a sum.
\<close>

section \<open>Machine types\<close>

type_synonym byte = "8 word"
type_synonym u64 = "64 word"

text \<open>Go's \<open>int64\<close>: the same 64 bits, read with \<^const>\<open>sint\<close>; \<open>+\<close> and \<open>-\<close> wrap.\<close>

type_synonym i64 = "64 word"

text \<open>go-ethereum's \<open>common.Address\<close> is a \<open>[20]byte\<close>, \<open>common.Hash\<close> a \<open>[32]byte\<close>.\<close>

type_synonym address = "160 word"
type_synonym hash = "256 word"

text \<open>An error value: the text it prints. A call that may fail returns \<open>err + 'a\<close>.\<close>

type_synonym err = string

named_theorems round_simps \<open>equations that turn the code's divisions into rounding division\<close>
named_theorems panic_free \<open>a routine that may panic in general does return here\<close>
named_theorems inv_intros \<open>operations preserve the invariant of their component\<close>

lemma unat_inj: "inj_on unat (A :: 'a::len word set)"
  by (simp add: inj_on_def word_unat_eq_iff)

section \<open>Arbitrary precision integers\<close>

text \<open>
  \<open>big.Int.Div\<close> is Euclidean division: the remainder is never negative. For a positive
  divisor this is Isabelle's \<open>div\<close>. A zero divisor panics; every caller that can pass
  zero checks it first, and the model's callers return \<open>None\<close> there.
\<close>

definition big_div :: "int \<Rightarrow> int \<Rightarrow> int" where
  "big_div x y = (if 0 < y then x div y else - (x div (- y)))"

lemma big_div_pos [simp]: "0 < y \<Longrightarrow> big_div x y = x div y"
  by (simp add: big_div_def)

lemma big_div_euclid:
  assumes "y \<noteq> 0"
  shows "0 \<le> x - big_div x y * y \<and> x - big_div x y * y < \<bar>y\<bar>"
proof (cases "0 < y")
  case True
  then show ?thesis by (simp add: minus_div_mult_eq_mod)
next
  case False
  with assms have "0 < - y" by simp
  then have "0 \<le> x - (x div (- y)) * (- y) \<and> x - (x div (- y)) * (- y) < - y"
    by (simp only: minus_div_mult_eq_mod pos_mod_sign pos_mod_bound simp_thms)
  with False show ?thesis by (simp add: big_div_def)
qed

section \<open>Division rounded to the nearest integer\<close>

text \<open>The value the fixed point code aims at: \<open>x / d\<close> rounded half up.\<close>

definition round_div :: "int \<Rightarrow> int \<Rightarrow> int" where
  "round_div x d = (x + d div 2) div d"

lemma round_div_error:
  assumes "0 < d"
  shows "\<bar>2 * (x - round_div x d * d)\<bar> \<le> d"
proof -
  define h where "h = d div 2"
  define m where "m = (x + h) mod d"
  define p where "p = (x + h) div d * d"
  have "p + m = x + h" unfolding p_def m_def by (rule div_mult_mod_eq)
  moreover have "0 \<le> m" and "m < d" using assms by (simp_all add: m_def)
  moreover have "2 * h \<le> d" and "d \<le> 2 * h + 1" unfolding h_def by auto
  ultimately have "2 * (x - p) \<le> d \<and> - d \<le> 2 * (x - p)" by presburger
  then show ?thesis by (simp add: abs_le_iff round_div_def p_def h_def)
qed

lemma round_div_unique:
  assumes "0 < d" and "\<bar>2 * (x - q * d)\<bar> < d"
  shows "round_div x d = q"
proof -
  define h where "h = d div 2"
  define r where "r = x + h - q * d"
  have "2 * h \<le> d" and "d \<le> 2 * h + 1" unfolding h_def by auto
  moreover from assms(2) have "2 * (x - q * d) < d" and "- d < 2 * (x - q * d)"
    by (simp_all add: abs_less_iff)
  ultimately have "0 \<le> r \<and> r < d" unfolding r_def by auto
  then have "r div d = 0" by (simp add: div_pos_pos_trivial)
  moreover have "x + h = r + q * d" by (simp add: r_def)
  ultimately show ?thesis using assms(1)
    by (simp add: round_div_def flip: h_def)
qed

lemma round_div_mult [simp]: "0 < d \<Longrightarrow> round_div (q * d) d = q"
  by (rule round_div_unique) auto

lemma round_div_zero [simp]: "0 < d \<Longrightarrow> round_div 0 d = 0"
  using round_div_mult [of d 0] by simp

lemma round_div_mono: "0 < d \<Longrightarrow> x \<le> y \<Longrightarrow> round_div x d \<le> round_div y d"
  by (simp add: round_div_def zdiv_mono1)

lemma round_div_nonneg: "0 < d \<Longrightarrow> 0 \<le> x \<Longrightarrow> 0 \<le> round_div x d"
  using round_div_mono [of d 0 x] by simp

lemma round_div_le: "0 < d \<Longrightarrow> x \<le> q * d \<Longrightarrow> round_div x d \<le> q"
  using round_div_mono [of d x "q * d"] by simp

lemma round_div_ge: "0 < d \<Longrightarrow> q * d \<le> x \<Longrightarrow> q \<le> round_div x d"
  using round_div_mono [of d "q * d" x] by simp

lemma round_div_less:
  assumes "0 < d" and "x + d div 2 < q * d"
  shows "round_div x d < q"
proof (rule ccontr)
  assume "\<not> round_div x d < q"
  then have "q * d \<le> round_div x d * d" using assms(1) by (intro mult_right_mono) simp_all
  also have "\<dots> \<le> x + d div 2"
    using assms(1) minus_mod_eq_div_mult [of "x + d div 2" d] by (simp add: round_div_def flip: minus_mod_eq_div_mult)
  finally show False using assms(2) by simp
qed

text \<open>A larger divisor never gives a larger quotient, in spite of the rounding.\<close>

lemma round_div_antimono:
  assumes "0 \<le> x" and "0 < d" and "d \<le> d'"
  shows "round_div x d' \<le> round_div x d"
proof (cases "round_div x d' \<le> 0")
  case True
  moreover have "0 \<le> round_div x d" using assms by (intro round_div_nonneg)
  ultimately show ?thesis by linarith
next
  case False
  define q where "q = round_div x d'"
  have q: "0 \<le> q - 1" using False by (simp add: q_def)
  have "q * d' \<le> x + d' div 2"
    using assms by (simp add: q_def round_div_def) (metis div_mult_mod_eq le_add_same_cancel1 order_less_le_trans pos_mod_sign)
  moreover have "(q - 1) * d \<le> (q - 1) * d'" using q assms(3) by (intro mult_left_mono)
  moreover have "d - d div 2 \<le> d' - d' div 2" using assms(3) by presburger
  ultimately have "q * d \<le> x + d div 2" by (simp add: algebra_simps)
  then have "q * d div d \<le> (x + d div 2) div d" using assms(2) by (intro zdiv_mono1)
  with assms(2) show ?thesis by (simp add: q_def round_div_def)
qed

section \<open>Finite maps\<close>

text \<open>\<open>len(m)\<close> of a Go map.\<close>

definition fmsize :: "('k, 'v) fmap \<Rightarrow> nat" where
  "fmsize m = fcard (fmdom m)"

lemma fmsize_empty [simp]: "fmsize fmempty = 0"
  by (simp add: fmsize_def)

lemma fmsize_upd: "fmsize (fmupd k v m) = (if fmlookup m k = None then Suc (fmsize m) else fmsize m)"
proof (cases "k |\<in>| fmdom m")
  case True
  then have "finsert k (fmdom m) = fmdom m" by (rule finsert_absorb)
  with True show ?thesis by (simp add: fmsize_def fmlookup_dom_iff)
next
  case False
  then show ?thesis by (simp add: fmsize_def fcard_finsert_disjoint fmdom_notD)
qed

end
