(* ===== verification/WadRay.thy ===== *)
theory WadRay
  imports Prelude
begin

text \<open>
  \<open>internal/common/math/wadray.go\<close>: fixed point arithmetic with 18 decimals (Wad) and 27
  decimals (Ray) over \<open>big.Int\<close>, and the two interest formulas built on it. \<open>*big.Int\<close> is
  \<^typ>\<open>int\<close>; a division by zero panics, which is \<^const>\<open>None\<close>.
\<close>

definition WAD :: int where
  "WAD = 10 ^ 18"

definition RAY :: int where
  "RAY = 10 ^ 27"

definition HalfWAD :: int where
  "HalfWAD = big_div WAD 2"

definition HalfRAY :: int where
  "HalfRAY = big_div RAY 2"

definition SECONDS_PER_YEAR :: int where
  "SECONDS_PER_YEAR = 365 * 24 * 3600"

definition wadMul :: "int \<Rightarrow> int \<Rightarrow> int" where
  "wadMul a b = big_div (a * b + HalfWAD) WAD"

definition wadDiv :: "int \<Rightarrow> int \<Rightarrow> int option" where
  "wadDiv a b = (if b = 0 then None
     else let halfB = big_div b 2 in Some (big_div (a * WAD + halfB) b))"

definition rayMul :: "int \<Rightarrow> int \<Rightarrow> int" where
  "rayMul a b = big_div (a * b + HalfRAY) RAY"

definition rayDiv :: "int \<Rightarrow> int \<Rightarrow> int option" where
  "rayDiv a b = (if b = 0 then None
     else let halfB = big_div b 2 in Some (big_div (a * RAY + halfB) b))"

definition wadToRay :: "int \<Rightarrow> int" where
  "wadToRay a = a * 10 ^ 9"

definition rayToWad :: "int \<Rightarrow> int" where
  "rayToWad a = (let factor = 10 ^ 9; halfFactor = big_div factor 2
     in big_div (a + halfFactor) factor)"

definition calculateLinearInterest :: "int \<Rightarrow> u64 \<Rightarrow> int" where
  "calculateLinearInterest rate timeDelta =
     (if timeDelta = 0 then RAY
      else big_div (rate * uint timeDelta) SECONDS_PER_YEAR + RAY)"

definition calculateCompoundedInterest :: "int \<Rightarrow> u64 \<Rightarrow> int" where
  "calculateCompoundedInterest rate timeDelta =
     (if timeDelta = 0 then RAY
      else let td = uint timeDelta;
               term1 = big_div (rate * td) SECONDS_PER_YEAR;
               rateSq = rayMul rate rate;
               tdMinus1 = td - 1;
               spySq = SECONDS_PER_YEAR * SECONDS_PER_YEAR;
               term2 = big_div (big_div (rateSq * td * tdMinus1) spySq) 2;
               rateCubed = rayMul rateSq rate;
               tdMinus2 = td - 2;
               spyCubed = spySq * SECONDS_PER_YEAR;
               term3 = big_div (big_div (rateCubed * td * tdMinus1 * tdMinus2) spyCubed) 6
           in RAY + term1 + term2 + term3)"

section \<open>The routines round to the nearest unit\<close>

lemma RAY_pos [simp]: "0 < RAY" and WAD_pos [simp]: "0 < WAD"
  and SPY_pos [simp]: "0 < SECONDS_PER_YEAR"
  by (simp_all add: RAY_def WAD_def SECONDS_PER_YEAR_def)

lemma RAY_nonneg [simp]: "0 \<le> RAY" and RAY_nonzero [simp]: "RAY \<noteq> 0"
  using RAY_pos by linarith+

lemma wadMul_round [round_simps]: "wadMul a b = round_div (a * b) WAD"
  by (simp add: wadMul_def round_div_def HalfWAD_def)

lemma rayMul_round [round_simps]: "rayMul a b = round_div (a * b) RAY"
  by (simp add: rayMul_def round_div_def HalfRAY_def)

lemma rayToWad_round [round_simps]: "rayToWad a = round_div a (10 ^ 9)"
  by (simp add: rayToWad_def round_div_def Let_def)

lemma wadDiv_round [round_simps]: "0 < b \<Longrightarrow> wadDiv a b = Some (round_div (a * WAD) b)"
  by (simp add: wadDiv_def round_div_def)

lemma rayDiv_round [round_simps]: "0 < b \<Longrightarrow> rayDiv a b = Some (round_div (a * RAY) b)"
  by (simp add: rayDiv_def round_div_def)

lemma rayDiv_panics_iff: "rayDiv a b = None \<longleftrightarrow> b = 0"
  by (simp add: rayDiv_def Let_def)

lemma rayDiv_returns [panic_free]: "b \<noteq> 0 \<Longrightarrow> \<exists>q. rayDiv a b = Some q"
  by (simp add: rayDiv_def Let_def)

lemma rayMul_mono: "0 \<le> b \<Longrightarrow> 0 \<le> a \<Longrightarrow> a \<le> a' \<Longrightarrow> b \<le> b' \<Longrightarrow> rayMul a b \<le> rayMul a' b'"
  by (simp add: rayMul_round round_div_mono mult_mono)

lemma rayMul_nonneg: "0 \<le> a \<Longrightarrow> 0 \<le> b \<Longrightarrow> 0 \<le> rayMul a b"
  by (simp add: rayMul_round round_div_nonneg)

lemma rayMul_one [simp]: "rayMul a RAY = a" "rayMul RAY a = a"
  by (simp_all add: rayMul_round mult.commute [of RAY])

lemma rayMul_zero [simp]: "rayMul 0 b = 0" "rayMul a 0 = 0"
  by (simp_all add: rayMul_round)

lemma rayMul_le_left: "0 \<le> a \<Longrightarrow> 0 \<le> b \<Longrightarrow> b \<le> RAY \<Longrightarrow> rayMul a b \<le> a"
  using rayMul_mono [of b a a RAY] by simp

lemma rayMul_ge_left: "0 \<le> a \<Longrightarrow> RAY \<le> b \<Longrightarrow> a \<le> rayMul a b"
  using rayMul_mono [of RAY a a b] by simp

lemma wadToRay_sign [simp]: "wadToRay a = 0 \<longleftrightarrow> a = 0" "0 < wadToRay a \<longleftrightarrow> 0 < a"
    "0 \<le> wadToRay a \<longleftrightarrow> 0 \<le> a" "wadToRay a \<le> wadToRay b \<longleftrightarrow> a \<le> b"
  by (auto simp: wadToRay_def)

text \<open>Multiplying two Ray values returns the product rounded to the nearest Ray unit:
  the result times RAY is within half a RAY of the exact product.\<close>

theorem rayMul_nearest: "\<bar>2 * (a * b - rayMul a b * RAY)\<bar> \<le> RAY"
  using round_div_error [OF RAY_pos, of "a * b"] by (simp only: rayMul_round)

text \<open>Dividing by a factor and multiplying by it again gives back the original amount
  exactly, for every positive Ray factor that is at most one.\<close>

theorem rayDiv_rayMul_cancel:
  assumes "0 < b" and "b \<le> RAY"
  shows "\<exists>q. rayDiv a b = Some q \<and> rayMul q b = a"
proof (cases "b = RAY")
  case True
  then show ?thesis by (simp add: rayDiv_round)
next
  case False
  let ?q = "round_div (a * RAY) b"
  have "\<bar>2 * (a * RAY - ?q * b)\<bar> \<le> b" using assms(1) by (rule round_div_error)
  also have "b < RAY" using False assms(2) by simp
  finally have "\<bar>2 * (a * RAY - ?q * b)\<bar> < RAY" .
  then have "\<bar>2 * (?q * b - a * RAY)\<bar> < RAY"
    by (simp add: abs_less_iff)
  then have "rayMul ?q b = a" by (simp add: rayMul_round round_div_unique)
  with assms(1) show ?thesis by (simp add: rayDiv_round)
qed

theorem rayDiv_rayMul_cancel_witness:
  "\<exists>q. rayDiv 7 3 = Some q \<and> rayMul q 3 = 7"
  by (rule rayDiv_rayMul_cancel) (simp_all add: RAY_def)

text \<open>Converting a Wad value to Ray and back loses nothing, and converting a Ray value to
  Wad rounds half up (it does not truncate, whatever its comment says).\<close>

theorem rayToWad_wadToRay:
  "rayToWad (wadToRay a) = a \<and> rayToWad (wadToRay a + 500000000) = a + 1
     \<and> rayToWad (wadToRay a + 499999999) = a"
  by (simp add: wadToRay_def rayToWad_def)

section \<open>Interest\<close>

lemma linearInterest_ge_RAY: "0 \<le> rate \<Longrightarrow> RAY \<le> calculateLinearInterest rate t"
  by (simp add: calculateLinearInterest_def pos_imp_zdiv_nonneg_iff)

lemma linearInterest_mono:
  assumes "0 \<le> rate" and "t \<le> t'"
  shows "calculateLinearInterest rate t \<le> calculateLinearInterest rate t'"
proof -
  have "rate * uint t \<le> rate * uint t'"
    using assms by (simp add: mult_left_mono word_le_def)
  then have "rate * uint t div SECONDS_PER_YEAR \<le> rate * uint t' div SECONDS_PER_YEAR"
    by (simp add: zdiv_mono1)
  then show ?thesis
    using linearInterest_ge_RAY [OF assms(1)] assms(2)
    by (auto simp: calculateLinearInterest_def)
qed

lemma linearInterest_mono_rate:
  assumes "rate \<le> rate'"
  shows "calculateLinearInterest rate t \<le> calculateLinearInterest rate' t"
proof -
  have "rate * uint t \<le> rate' * uint t" using assms by (simp add: mult_right_mono)
  then show ?thesis by (simp add: calculateLinearInterest_def zdiv_mono1)
qed

lemma linearInterest_one_year: "calculateLinearInterest rate 31536000 = RAY + rate"
  by (simp add: calculateLinearInterest_def SECONDS_PER_YEAR_def)

lemma uint_ge_1: "t \<noteq> 0 \<Longrightarrow> 1 \<le> uint t" for t :: u64
  using uint_0_iff [of t] uint_ge_0 [of t] by linarith

lemma big_div_nonneg: "0 \<le> x \<Longrightarrow> 0 < d \<Longrightarrow> 0 \<le> big_div x d"
  by (simp add: pos_imp_zdiv_nonneg_iff)

text \<open>Compounding never yields less than linear interest over the same period, and the two
  agree exactly while no second has elapsed or just one has.\<close>

theorem compounded_ge_linear:
  assumes "0 \<le> rate"
  shows "calculateLinearInterest rate t \<le> calculateCompoundedInterest rate t
    \<and> (t \<le> 1 \<longrightarrow> calculateCompoundedInterest rate t = calculateLinearInterest rate t)"
proof (cases "t = 0")
  case True
  then show ?thesis by (simp add: calculateCompoundedInterest_def calculateLinearInterest_def)
next
  case False
  define td where "td = uint t"
  define sq where "sq = rayMul rate rate"
  define cu where "cu = rayMul sq rate"
  define S where "S = SECONDS_PER_YEAR"
  have td: "1 \<le> td" using False by (simp add: td_def uint_ge_1)
  have S: "0 < S" by (simp add: S_def)
  have sq: "0 \<le> sq" using assms by (simp add: sq_def rayMul_nonneg)
  then have cu: "0 \<le> cu" using assms by (simp add: cu_def rayMul_nonneg)
  have "0 \<le> sq * td * (td - 1)" using sq td by simp
  then have t2: "0 \<le> big_div (big_div (sq * td * (td - 1)) (S * S)) 2"
    using S by (intro big_div_nonneg) simp_all
  have "0 \<le> (td - 1) * (td - 2)" using td by (cases "td = 1") auto
  then have "0 \<le> cu * td * ((td - 1) * (td - 2))" using cu td by simp
  then have "0 \<le> cu * td * (td - 1) * (td - 2)" by (simp only: mult.assoc)
  then have t3: "0 \<le> big_div (big_div (cu * td * (td - 1) * (td - 2)) (S * S * S)) 6"
    using S by (intro big_div_nonneg) simp_all
  have comp: "calculateCompoundedInterest rate t = RAY + big_div (rate * td) S
      + big_div (big_div (sq * td * (td - 1)) (S * S)) 2
      + big_div (big_div (cu * td * (td - 1) * (td - 2)) (S * S * S)) 6"
    using False unfolding calculateCompoundedInterest_def Let_def td_def sq_def cu_def S_def
    by (simp only: if_False)
  have lin: "calculateLinearInterest rate t = big_div (rate * td) S + RAY"
    using False by (simp add: calculateLinearInterest_def td_def S_def)
  have "t \<le> 1 \<Longrightarrow> td = 1"
    using td unfolding td_def word_le_def by simp
  then show ?thesis using t2 t3 comp lin S by auto
qed

theorem compounded_ge_linear_witness:
  "calculateLinearInterest (5 * 10 ^ 25) 31536000 \<le> calculateCompoundedInterest (5 * 10 ^ 25) 31536000
     \<and> calculateCompoundedInterest (5 * 10 ^ 25) 31536000 = 1051270833291714231396538600"
proof -
  have "calculateCompoundedInterest (5 * 10 ^ 25) 31536000 = 1051270833291714231396538600"
    by code_simp
  then show ?thesis using compounded_ge_linear [of "5 * 10 ^ 25" 31536000] by simp
qed

end
