(* ===== verification/GoFloat.thy ===== *)
theory GoFloat
  imports Prelude Complex_Main "HOL-Library.Log_Nat"
begin

text \<open>
  What the code uses of Go's \<open>math/big.Float\<close> and \<open>float64\<close>, over exact rationals: rounding
  to a number of significant bits (ties to even), the conversion to a \<open>float64\<close> with its
  subnormals and infinities, its multiplication and its comparisons. Only the sign of a
  zero is left out, which no comparison can see.
\<close>

section \<open>Powers of two and binary logarithm\<close>

definition pow2 :: "int \<Rightarrow> rat" where
  "pow2 e = (if 0 \<le> e then 2 ^ nat e else 1 / 2 ^ nat (- e))"

definition ilog2 :: "rat \<Rightarrow> int" where
  "ilog2 x = (let (n, d) = quotient_of x; e = bitlen n - bitlen d
     in if pow2 e \<le> x then e else e - 1)"

definition round_half_even :: "rat \<Rightarrow> int" where
  "round_half_even x = (let f = \<lfloor>x\<rfloor>; r = x - of_int f
     in if r < 1 / 2 then f else if 1 / 2 < r then f + 1 else if even f then f else f + 1)"

text \<open>The multiple of \<open>2\<^sup>e\<close> nearest to \<open>x\<close>.\<close>

definition round_to :: "int \<Rightarrow> rat \<Rightarrow> rat" where
  "round_to e x = of_int (round_half_even (x / pow2 e)) * pow2 e"

section \<open>big.Float\<close>

text \<open>A \<open>big.Float\<close> of precision \<open>p\<close> holds \<open>p\<close> significant bits.\<close>

definition bigfloat_round :: "nat \<Rightarrow> rat \<Rightarrow> rat" where
  "bigfloat_round p x = (if x = 0 then 0 else round_to (ilog2 \<bar>x\<bar> - int p + 1) x)"

text \<open>\<open>new(big.Float).SetInt(x)\<close> takes the precision \<open>max(64, x.BitLen())\<close>, so it is exact;
  \<open>Quo\<close> and \<open>Sub\<close> into a fresh \<open>big.Float\<close> use the larger precision of their operands.\<close>

definition int_prec :: "int \<Rightarrow> nat" where
  "int_prec x = max 64 (nat (bitlen \<bar>x\<bar>))"

definition bigfloat_quo_ints :: "int \<Rightarrow> int \<Rightarrow> rat" where
  "bigfloat_quo_ints x y =
     bigfloat_round (max (int_prec x) (int_prec y)) (of_int x / of_int y)"

section \<open>float64\<close>

datatype float64 = Finite rat | PosInf | NegInf | NaN

definition f64_of_rat :: "rat \<Rightarrow> float64" where
  "f64_of_rat x = (if x = 0 then Finite 0
     else let r = round_to (max (ilog2 \<bar>x\<bar> - 52) (- 1074)) x
          in if pow2 1024 \<le> r then PosInf else if r \<le> - pow2 1024 then NegInf else Finite r)"

fun f64_mul :: "float64 \<Rightarrow> float64 \<Rightarrow> float64" where
  "f64_mul (Finite a) (Finite b) = f64_of_rat (a * b)"
| "f64_mul NaN _ = NaN"
| "f64_mul _ NaN = NaN"
| "f64_mul (Finite a) y = (if a = 0 then NaN else if (0 < a) = (y = PosInf) then PosInf else NegInf)"
| "f64_mul x (Finite b) = (if b = 0 then NaN else if (0 < b) = (x = PosInf) then PosInf else NegInf)"
| "f64_mul x y = (if x = y then PosInf else NegInf)"

fun f64_abs :: "float64 \<Rightarrow> float64" where
  "f64_abs (Finite a) = Finite \<bar>a\<bar>"
| "f64_abs NegInf = PosInf"
| "f64_abs x = x"

fun f64_le :: "float64 \<Rightarrow> float64 \<Rightarrow> bool" where
  "f64_le NaN _ = False"
| "f64_le _ NaN = False"
| "f64_le (Finite a) (Finite b) = (a \<le> b)"
| "f64_le NegInf _ = True"
| "f64_le _ PosInf = True"
| "f64_le _ _ = False"

definition f64_less :: "float64 \<Rightarrow> float64 \<Rightarrow> bool" where
  "f64_less x y = (f64_le x y \<and> \<not> f64_le y x)"

section \<open>Rounding is monotone and keeps what it can represent\<close>

lemma pow2_pos [simp]: "0 < pow2 e"
  by (simp add: pow2_def)

lemma pow2_nonneg [simp]: "0 \<le> pow2 e" and pow2_nonzero [simp]: "pow2 e \<noteq> 0"
  using pow2_pos [of e] by linarith+

lemma round_half_even_of_int [simp]: "round_half_even (of_int k) = k"
  by (simp add: round_half_even_def)

lemma round_half_even_bounds: "\<lfloor>x\<rfloor> \<le> round_half_even x \<and> round_half_even x \<le> \<lceil>x\<rceil>"
proof (cases "x = of_int \<lfloor>x\<rfloor>")
  case True
  then have "round_half_even x = \<lfloor>x\<rfloor>" by (metis round_half_even_of_int)
  then show ?thesis by (simp add: floor_le_ceiling)
next
  case False
  then have "\<lceil>x\<rceil> = \<lfloor>x\<rfloor> + 1" by (metis ceiling_altdef)
  then show ?thesis by (simp add: round_half_even_def Let_def)
qed

lemma round_half_even_mono:
  assumes "x \<le> y"
  shows "round_half_even x \<le> round_half_even y"
proof (cases "\<lfloor>x\<rfloor> = \<lfloor>y\<rfloor>")
  case True
  with assms show ?thesis by (auto simp: round_half_even_def Let_def)
next
  case False
  with assms have "\<lfloor>x\<rfloor> + 1 \<le> \<lfloor>y\<rfloor>" using floor_mono [OF assms] by linarith
  moreover have "\<lceil>x\<rceil> \<le> \<lfloor>x\<rfloor> + 1" by (simp add: ceiling_altdef)
  ultimately show ?thesis using round_half_even_bounds [of x] round_half_even_bounds [of y] by linarith
qed

lemma round_to_mono: "x \<le> y \<Longrightarrow> round_to e x \<le> round_to e y"
  by (simp add: round_to_def round_half_even_mono divide_right_mono)

lemma round_to_zero [simp]: "round_to e 0 = 0"
  using round_half_even_of_int [of 0] by (simp add: round_to_def)

lemma round_to_nonneg: "0 \<le> x \<Longrightarrow> 0 \<le> round_to e x"
  using round_to_mono [of 0 x e] by simp

lemma bigfloat_round_zero [simp]: "bigfloat_round p 0 = 0"
  by (simp add: bigfloat_round_def)

lemma bigfloat_round_nonneg: "0 \<le> x \<Longrightarrow> 0 \<le> bigfloat_round p x"
  by (simp add: bigfloat_round_def round_to_nonneg)

lemma f64_of_rat_zero [simp]: "f64_of_rat 0 = Finite 0"
  by (simp add: f64_of_rat_def)

fun f64_nonneg :: "float64 \<Rightarrow> bool" where
  "f64_nonneg (Finite a) = (0 \<le> a)"
| "f64_nonneg PosInf = True"
| "f64_nonneg _ = False"

lemma f64_of_rat_nonneg: "0 \<le> x \<Longrightarrow> f64_nonneg (f64_of_rat x)"
proof -
  assume "0 \<le> x"
  then have "0 \<le> round_to e x" for e by (rule round_to_nonneg)
  moreover have "\<not> round_to e x \<le> - pow2 1024" for e
    using calculation [of e] pow2_pos [of 1024] by linarith
  ultimately show ?thesis by (simp add: f64_of_rat_def Let_def)
qed

lemma f64_mul_pos_nonneg: "f64_nonneg x \<Longrightarrow> 0 < b \<Longrightarrow> f64_nonneg (f64_mul x (Finite b))"
  by (cases x) (simp_all add: f64_of_rat_nonneg)

section \<open>Integers are exact\<close>

lemma ilog2_of_int:
  assumes "0 < n"
  shows "ilog2 (of_int n) = bitlen n - 1"
proof -
  have q: "quotient_of (of_int n :: rat) = (n, 1)" by (simp add: quotient_of_int)
  have b: "2 ^ nat (bitlen n - 1) \<le> n" "1 \<le> bitlen n"
    using bitlen_bounds [of n] bitlen_le_iff_power [of n 0] assms by auto
  have "(of_int (2 ^ nat (bitlen n - 1)) :: rat) \<le> of_int n" using b(1) by (simp only: of_int_le_iff)
  then have "pow2 (bitlen n - 1) \<le> of_int n" using b(2) by (simp add: pow2_def)
  moreover have "bitlen 1 = (1::int)" by code_simp
  ultimately show ?thesis by (simp add: ilog2_def q Let_def)
qed

lemma round_to_of_int:
  assumes "e \<le> 0"
  shows "round_to e (of_int x) = of_int x"
proof -
  have p: "pow2 e = 1 / 2 ^ nat (- e)" using assms by (auto simp: pow2_def)
  have "of_int x / pow2 e = (of_int (x * 2 ^ nat (- e)) :: rat)" by (simp add: p)
  then have "round_to e (of_int x) = of_int (x * 2 ^ nat (- e)) * pow2 e" by (simp only: round_to_def round_half_even_of_int)
  then show ?thesis by (simp add: p)
qed

lemma bitlen_one [simp]: "bitlen 1 = 1"
  by code_simp

lemma bigfloat_round_of_int:
  assumes "bitlen \<bar>x\<bar> \<le> int p"
  shows "bigfloat_round p (of_int x) = of_int x"
proof (cases "x = 0")
  case False
  have "ilog2 \<bar>of_int x\<bar> = bitlen \<bar>x\<bar> - 1" using ilog2_of_int [of "\<bar>x\<bar>"] False by simp
  then show ?thesis using False assms by (simp add: bigfloat_round_def round_to_of_int)
qed simp

lemma int_prec_bitlen: "bitlen \<bar>x\<bar> \<le> int (max (int_prec x) (int_prec y))" "bitlen \<bar>x\<bar> \<le> int (max (int_prec y) (int_prec x))"
  using bitlen_nonneg [of "\<bar>x\<bar>"] by (simp_all add: int_prec_def)

lemma f64_of_int:
  assumes "bitlen \<bar>k\<bar> \<le> 53" and "\<bar>k\<bar> \<le> 2 ^ 53"
  shows "f64_of_rat (of_int k) = Finite (of_int k)"
proof (cases "k = 0")
  case False
  have i: "ilog2 \<bar>of_int k\<bar> = bitlen \<bar>k\<bar> - 1" using ilog2_of_int [of "\<bar>k\<bar>"] False by simp
  have "max (ilog2 \<bar>of_int k\<bar> - 52) (- 1074) \<le> 0" using assms(1) i by simp
  then have r: "round_to (max (ilog2 \<bar>of_int k\<bar> - 52) (- 1074)) (of_int k) = of_int k" by (rule round_to_of_int)
  have "\<bar>of_int k :: rat\<bar> \<le> of_int (2 ^ 53)" using assms(2) by (metis of_int_abs of_int_le_iff)
  also have "\<dots> < pow2 1024" by (simp add: pow2_def)
  finally have "\<bar>of_int k :: rat\<bar> < pow2 1024" .
  then show ?thesis using False by (simp add: f64_of_rat_def r Let_def abs_less_iff)
qed simp

section \<open>Monotonicity across exponents\<close>

text \<open>Both roundings take the exponent from the number's own magnitude. Such a rounding is monotone, and
  keeps every multiple of its unit.\<close>

lemma pow2_add: "pow2 (a + b) = pow2 a * pow2 b"
proof -
  have "pow2 e = power_int 2 e" for e
    by (cases "0 \<le> e") (simp_all add: pow2_def power_int_def power_one_over inverse_eq_divide)
  then show ?thesis by (simp add: power_int_add)
qed

lemma pow2_mono: "a \<le> b \<Longrightarrow> pow2 a \<le> pow2 b"
proof -
  assume "a \<le> b"
  then have "1 \<le> pow2 (b - a)" by (simp add: pow2_def)
  then have "pow2 a * 1 \<le> pow2 a * pow2 (b - a)" by (intro mult_left_mono) simp_all
  then show ?thesis by (simp add: pow2_add [symmetric])
qed

lemma round_to_multiple:
  assumes "e \<le> d"
  shows "round_to e (of_int m * pow2 d) = of_int m * pow2 d"
proof -
  have p: "pow2 d = of_int (2 ^ nat (d - e)) * pow2 e"
    using pow2_add [of "d - e" e] assms by (simp add: pow2_def [of "d - e"])
  have "of_int m * pow2 d / pow2 e = (of_int (m * 2 ^ nat (d - e)) :: rat)" by (simp add: p)
  then show ?thesis by (simp only: round_to_def round_half_even_of_int) (simp add: p)
qed

lemma ilog2_bounds:
  assumes "0 < x"
  shows "pow2 (ilog2 x) \<le> x" and "x < pow2 (ilog2 x + 1)"
proof -
  obtain n d where q: "quotient_of x = (n, d)" by fastforce
  have d: "0 < d" using quotient_of_denom_pos [OF q] .
  have x: "x = of_int n / of_int d" using quotient_of_div [OF q] .
  have n: "0 < n" using assms d by (simp add: x zero_less_divide_iff)
  have bits: "pow2 (bitlen k - 1) \<le> of_int k \<and> (of_int k :: rat) < pow2 (bitlen k)" if "0 < k" for k
  proof -
    have b: "2 ^ nat (bitlen k - 1) \<le> k" "k < 2 ^ nat (bitlen k)" "1 \<le> bitlen k"
      using bitlen_bounds [of k] bitlen_le_iff_power [of k 0] that by auto
    have "(of_int (2 ^ nat (bitlen k - 1)) :: rat) \<le> of_int k" "(of_int k :: rat) < of_int (2 ^ nat (bitlen k))"
      using b(1,2) by (simp_all only: of_int_le_iff of_int_less_iff)
    then show ?thesis using b(3) by (simp add: pow2_def)
  qed
  define e where "e = bitlen n - bitlen d"
  have up: "x < pow2 (e + 1)"
  proof -
    have "of_int n < pow2 (e + 1) * pow2 (bitlen d - 1)" using bits [OF n] by (simp add: pow2_add [symmetric] e_def)
    also have "\<dots> \<le> pow2 (e + 1) * of_int d" using bits [OF d] by (intro mult_left_mono) simp_all
    finally show ?thesis using d by (simp add: x divide_less_eq)
  qed
  have low: "pow2 (e - 1) \<le> x"
  proof -
    have "pow2 (e - 1) * of_int d \<le> pow2 (e - 1) * pow2 (bitlen d)" using bits [OF d] by (intro mult_left_mono) simp_all
    also have "\<dots> \<le> of_int n" using bits [OF n] by (simp add: pow2_add [symmetric] e_def)
    finally show ?thesis using d by (simp add: x le_divide_eq)
  qed
  have "ilog2 x = (if pow2 e \<le> x then e else e - 1)" by (simp add: ilog2_def q e_def Let_def)
  then show "pow2 (ilog2 x) \<le> x" "x < pow2 (ilog2 x + 1)" using up low by (auto simp: not_le)
qed

lemma ilog2_mono:
  assumes "0 < x" and "x \<le> y"
  shows "ilog2 x \<le> ilog2 y"
proof (rule ccontr)
  assume "\<not> ilog2 x \<le> ilog2 y"
  then have "pow2 (ilog2 y + 1) \<le> pow2 (ilog2 x)" by (intro pow2_mono) simp
  then show False using ilog2_bounds(2) [of y] ilog2_bounds(1) [of x] assms by linarith
qed

lemma round_own_mono:
  assumes "0 < x" and "x \<le> y" and "ex (ilog2 x) \<le> ilog2 x + 1" and "ex (ilog2 y) \<le> ilog2 y"
  shows "round_to (ex (ilog2 x)) x \<le> round_to (ex (ilog2 y)) y"
proof (cases "ilog2 x = ilog2 y")
  case True
  then show ?thesis using assms(2) by (simp add: round_to_mono)
next
  case False
  then have l: "ilog2 x + 1 \<le> ilog2 y" using ilog2_mono [OF assms(1,2)] by simp
  have "round_to (ex (ilog2 x)) x \<le> round_to (ex (ilog2 x)) (of_int 1 * pow2 (ilog2 x + 1))"
    using ilog2_bounds(2) [OF assms(1)] by (intro round_to_mono) simp
  also have "\<dots> = pow2 (ilog2 x + 1)" using round_to_multiple [OF assms(3), of 1] by simp
  also have "\<dots> \<le> pow2 (ilog2 y)" using l by (rule pow2_mono)
  also have "\<dots> = round_to (ex (ilog2 y)) (of_int 1 * pow2 (ilog2 y))" using round_to_multiple [OF assms(4), of 1] by simp
  also have "\<dots> \<le> round_to (ex (ilog2 y)) y"
    using ilog2_bounds(1) [of y] assms(1,2) by (intro round_to_mono) simp
  finally show ?thesis .
qed

lemma bigfloat_round_mono:
  assumes "0 < x" and "x \<le> y" and "1 \<le> p"
  shows "bigfloat_round p x \<le> bigfloat_round p y"
  using round_own_mono [OF assms(1,2), of "\<lambda>l. l - int p + 1"] assms by (simp add: bigfloat_round_def)

text \<open>A number with few enough bits is kept by every precision that has them.\<close>

lemma ilog2_less:
  assumes "0 < m" and "m < 2 ^ k"
  shows "ilog2 (of_int m * pow2 d) < d + int k"
proof -
  have x: "0 < of_int m * pow2 d" using assms(1) by simp
  have "(of_int m :: rat) < of_int (2 ^ k)" using assms(2) by (simp only: of_int_less_iff)
  then have "of_int m * pow2 d < pow2 (int k) * pow2 d" by (intro mult_strict_right_mono) (simp_all add: pow2_def)
  then have "of_int m * pow2 d < pow2 (d + int k)" by (simp add: pow2_add)
  then have "pow2 (ilog2 (of_int m * pow2 d)) < pow2 (d + int k)" using ilog2_bounds(1) [OF x] by linarith
  then show ?thesis using pow2_mono [of "d + int k" "ilog2 (of_int m * pow2 d)"] by (meson not_less)
qed

lemma bigfloat_round_exact:
  assumes "0 < m" and "m < 2 ^ p"
  shows "bigfloat_round p (of_int m * pow2 d) = of_int m * pow2 d"
proof -
  have "ilog2 (of_int m * pow2 d) - int p + 1 \<le> d" using ilog2_less [OF assms, of d] by simp
  then have "round_to (ilog2 (of_int m * pow2 d) - int p + 1) (of_int m * pow2 d) = of_int m * pow2 d"
    by (rule round_to_multiple)
  then show ?thesis using assms(1) by (simp add: bigfloat_round_def)
qed

lemma f64_le_trans: "f64_le x y \<Longrightarrow> f64_le y z \<Longrightarrow> f64_le x z"
  by (cases x; cases y; cases z) simp_all

text \<open>Rounding to a \<open>float64\<close> is monotone above the subnormals.\<close>

lemma f64_of_rat_mono:
  assumes "pow2 (- 1022) \<le> x" and "x \<le> y"
  shows "f64_le (f64_of_rat x) (f64_of_rat y)"
proof -
  define ex where "ex = (\<lambda>l. max (l - 52) (- 1074 :: int))"
  have x: "0 < x" using assms(1) pow2_pos [of "- 1022"] by linarith
  then have y: "0 < y" using assms(2) by linarith
  have l: "- 1074 \<le> ilog2 z" if "pow2 (- 1022) \<le> z" for z
  proof (rule ccontr)
    assume "\<not> - 1074 \<le> ilog2 z"
    then have "pow2 (ilog2 z + 1) \<le> pow2 (- 1022)" by (intro pow2_mono) simp
    moreover have "0 < z" using that pow2_pos [of "- 1022"] by linarith
    ultimately show False using ilog2_bounds(2) [of z] that by linarith
  qed
  have "ex (ilog2 x) \<le> ilog2 x + 1" "ex (ilog2 y) \<le> ilog2 y" using l [of x] l [of y] assms by (auto simp: ex_def)
  then have m: "round_to (ex (ilog2 x)) x \<le> round_to (ex (ilog2 y)) y" by (rule round_own_mono [OF x assms(2)])
  have n: "- pow2 1024 < round_to e z" if "0 < z" for e z
    using round_to_nonneg [of z e] that pow2_pos [of 1024] by linarith
  have d: "f64_of_rat z = (if pow2 1024 \<le> round_to (ex (ilog2 z)) z then PosInf else Finite (round_to (ex (ilog2 z)) z))"
    if "0 < z" for z
    using that n [OF that, of "ex (ilog2 z)"] by (auto simp: f64_of_rat_def Let_def ex_def not_le)
  show ?thesis using m by (simp add: d [OF x] d [OF y])
qed

lemma ilog2_unique:
  assumes "pow2 l \<le> x" and "x < pow2 (l + 1)"
  shows "ilog2 x = l"
proof -
  have x: "0 < x" using assms(1) pow2_pos [of l] by linarith
  have "\<not> ilog2 x + 1 \<le> l" using pow2_mono [of "ilog2 x + 1" l] ilog2_bounds(2) [OF x] assms(1) by linarith
  moreover have "\<not> l + 1 \<le> ilog2 x" using pow2_mono [of "l + 1" "ilog2 x"] ilog2_bounds(1) [OF x] assms(2) by linarith
  ultimately show ?thesis by linarith
qed

lemma round_half_even_near:
  assumes "\<bar>x - of_int k\<bar> < 1 / 2"
  shows "round_half_even x = k"
proof (cases "of_int k \<le> x")
  case True
  then have "\<lfloor>x\<rfloor> = k" using assms by (simp add: floor_eq_iff abs_less_iff)
  then show ?thesis using assms True by (simp add: round_half_even_def Let_def)
next
  case False
  then have "\<lfloor>x\<rfloor> = k - 1" using assms by (simp add: floor_eq_iff abs_less_iff)
  then show ?thesis using assms False by (simp add: round_half_even_def Let_def abs_less_iff)
qed

lemma f64_of_rat_at:
  assumes "pow2 l \<le> x" and "x < pow2 (l + 1)" and "- 1022 \<le> l" and "l < 1000"
    and "\<bar>x / pow2 (l - 52) - of_int m\<bar> < 1 / 2"
  shows "f64_of_rat x = Finite (of_int m * pow2 (l - 52))"
proof -
  have x: "0 < x" using assms(1) pow2_pos [of l] by linarith
  have e: "max (ilog2 x - 52) (- 1074) = l - 52" using ilog2_unique [OF assms(1,2)] assms(3) by simp
  have "round_to (l - 52) x \<le> round_to (l - 52) (of_int 1 * pow2 (l + 1))"
    using assms(2) by (intro round_to_mono) simp
  also have "\<dots> = pow2 (l + 1)" using round_to_multiple [of "l - 52" "l + 1" 1] by simp
  also have "\<dots> \<le> pow2 1000" using assms(4) by (intro pow2_mono) simp
  also have "\<dots> < pow2 1024" by (simp add: pow2_def)
  finally have "round_to (l - 52) x < pow2 1024" .
  moreover have "- pow2 1024 < round_to (l - 52) x"
    using round_to_nonneg [of x "l - 52"] x pow2_pos [of 1024] by linarith
  ultimately show ?thesis using x round_half_even_near [OF assms(5)] by (simp add: f64_of_rat_def e Let_def round_to_def not_le)
qed

end
