(* ===== verification/RateComputer.thy ===== *)
theory RateComputer
  imports WadRay GoFloat
begin

text \<open>
  \<open>internal/liquidation/ratecomputer/model.go\<close>: the local replica of the on-chain interest
  rates. The pools are a Go map from market ids to pool states; every method holds the
  computer's mutex, so it is one step of the model. A \<open>time.Time\<close> is used only through
  \<open>Unix()\<close>, so it is its \<open>int64\<close> seconds. \<open>*big.Int\<close> fields that the code never compares with
  nil are plain integers; \<open>HandleEvent\<close>'s deltas, which it does compare, are options.
\<close>

record interestRateModelParams =
  baseRate :: int
  slope1 :: int
  slope2 :: int
  optimalUtilization :: int

record poolState =
  marketID :: i64
  assetAddress :: address
  totalSupply :: int
  totalBorrow :: int
  liquidityIndex :: int
  borrowIndex :: int
  currentBorrowRate :: int
  currentSupplyRate :: int
  lastUpdateTimestamp :: i64
  rateModel :: interestRateModelParams

record rateComputer =
  pools :: "(i64, poolState) fmap"

definition newRateComputer :: rateComputer where
  "newRateComputer = \<lparr>pools = fmempty\<rparr>"

definition setPool :: "poolState \<Rightarrow> rateComputer \<Rightarrow> rateComputer" where
  "setPool state rc = rc\<lparr>pools := fmupd (marketID state) state (pools rc)\<rparr>"

definition getPool :: "rateComputer \<Rightarrow> i64 \<Rightarrow> poolState option" where
  "getPool rc mid = fmlookup (pools rc) mid"

definition calculateUtilizationRate :: "int \<Rightarrow> int \<Rightarrow> int option" where
  "calculateUtilizationRate supply borrow =
     (let tot = supply + borrow
      in if tot = 0 then Some 0 else rayDiv (wadToRay borrow) (wadToRay tot))"

definition calculateBorrowRate :: "int \<Rightarrow> interestRateModelParams \<Rightarrow> int option" where
  "calculateBorrowRate utilization params =
     (if utilization \<le> optimalUtilization params then
        (if optimalUtilization params = 0 then Some (baseRate params)
         else do {
           ratio \<leftarrow> rayDiv utilization (optimalUtilization params);
           let variableRate = rayMul ratio (slope1 params);
           Some (baseRate params + variableRate)
         })
      else do {
        let excessUtil = utilization - optimalUtilization params;
        let remaining0 = RAY - optimalUtilization params;
        let remaining = (if remaining0 = 0 then RAY else remaining0);
        excessRatio \<leftarrow> rayDiv excessUtil remaining;
        let excessRate = rayMul excessRatio (slope2 params);
        Some (baseRate params + slope1 params + excessRate)
      })"

definition calculateSupplyRate :: "int \<Rightarrow> int \<Rightarrow> int" where
  "calculateSupplyRate borrowRate utilization = rayMul borrowRate utilization"

definition extrapolateIndex :: "int \<Rightarrow> int \<Rightarrow> i64 \<Rightarrow> i64 \<Rightarrow> int" where
  "extrapolateIndex lastIndex ratePerSecond lastTimestamp now =
     (let timeDelta = now - lastTimestamp
      in if sint timeDelta \<le> 0 then lastIndex
         else let interestMultiplier = calculateLinearInterest ratePerSecond timeDelta
              in rayMul lastIndex interestMultiplier)"

definition currentBorrowIndex :: "rateComputer \<Rightarrow> i64 \<Rightarrow> i64 \<Rightarrow> int option" where
  "currentBorrowIndex rc mid now =
     (case fmlookup (pools rc) mid of
        None \<Rightarrow> None
      | Some pool \<Rightarrow> Some (extrapolateIndex (borrowIndex pool) (currentBorrowRate pool)
          (lastUpdateTimestamp pool) now))"

definition currentLiquidityIndex :: "rateComputer \<Rightarrow> i64 \<Rightarrow> i64 \<Rightarrow> int option" where
  "currentLiquidityIndex rc mid now =
     (case fmlookup (pools rc) mid of
        None \<Rightarrow> None
      | Some pool \<Rightarrow> Some (extrapolateIndex (liquidityIndex pool) (currentSupplyRate pool)
          (lastUpdateTimestamp pool) now))"

text \<open>The last lines of \<open>CalibratePool\<close> and of \<open>HandleEvent\<close>: the rates from the totals.\<close>

definition recalculateRates :: "poolState \<Rightarrow> poolState option" where
  "recalculateRates pool = do {
     utilization \<leftarrow> calculateUtilizationRate (totalSupply pool) (totalBorrow pool);
     rate \<leftarrow> calculateBorrowRate utilization (rateModel pool);
     Some (pool\<lparr>currentBorrowRate := rate,
                currentSupplyRate := calculateSupplyRate rate utilization\<rparr>)
   }"

text \<open>The deviation in percent that \<open>CalibratePool\<close> reports.\<close>

definition indexDeviation :: "int \<Rightarrow> int \<Rightarrow> float64" where
  "indexDeviation localIndex chainIndex =
     (if 0 < chainIndex
      then f64_mul (f64_of_rat (bigfloat_quo_ints \<bar>localIndex - chainIndex\<bar> chainIndex)) (Finite 100)
      else Finite 0)"

definition calibratePool ::
  "rateComputer \<Rightarrow> i64 \<Rightarrow> int \<Rightarrow> int \<Rightarrow> i64 \<Rightarrow> (float64 \<times> rateComputer) option" where
  "calibratePool rc mid chainBorrowIndex chainLiquidityIndex chainTimestamp =
     (case fmlookup (pools rc) mid of
        None \<Rightarrow> Some (Finite 0, rc)
      | Some pool \<Rightarrow> do {
          let localBorrowIndex = extrapolateIndex (borrowIndex pool) (currentBorrowRate pool)
                (lastUpdateTimestamp pool) chainTimestamp;
          let deviation = indexDeviation localBorrowIndex chainBorrowIndex;
          let pool1 = pool\<lparr>borrowIndex := chainBorrowIndex,
                liquidityIndex := chainLiquidityIndex,
                lastUpdateTimestamp := chainTimestamp\<rparr>;
          pool2 \<leftarrow> recalculateRates pool1;
          Some (deviation, rc\<lparr>pools := fmupd mid pool2 (pools rc)\<rparr>)
        })"

text \<open>A delta of \<open>HandleEvent\<close>: nil leaves the total alone, a sum below zero becomes zero.\<close>

definition applyDelta :: "int \<Rightarrow> int option \<Rightarrow> int" where
  "applyDelta tot delta =
     (case delta of None \<Rightarrow> tot
      | Some d \<Rightarrow> (let newTot = tot + d in if newTot < 0 then 0 else newTot))"

definition handleEvent ::
  "rateComputer \<Rightarrow> i64 \<Rightarrow> int option \<Rightarrow> int option \<Rightarrow> i64 \<Rightarrow> rateComputer option" where
  "handleEvent rc mid supplyDelta borrowDelta chainTimestamp =
     (case fmlookup (pools rc) mid of
        None \<Rightarrow> Some rc
      | Some pool \<Rightarrow> do {
          let now = chainTimestamp;
          let pool1 = pool\<lparr>
                borrowIndex := extrapolateIndex (borrowIndex pool) (currentBorrowRate pool)
                  (lastUpdateTimestamp pool) now,
                liquidityIndex := extrapolateIndex (liquidityIndex pool) (currentSupplyRate pool)
                  (lastUpdateTimestamp pool) now,
                lastUpdateTimestamp := chainTimestamp\<rparr>;
          let pool2 = pool1\<lparr>totalSupply := applyDelta (totalSupply pool1) supplyDelta\<rparr>;
          let pool3 = pool2\<lparr>totalBorrow := applyDelta (totalBorrow pool2) borrowDelta\<rparr>;
          pool4 \<leftarrow> recalculateRates pool3;
          Some (rc\<lparr>pools := fmupd mid pool4 (pools rc)\<rparr>)
        })"

section \<open>Utilisation and rates\<close>

lemma utilization_returns [panic_free]: "\<exists>u. calculateUtilizationRate s b = Some u"
  by (simp add: calculateUtilizationRate_def rayDiv_returns Let_def)

text \<open>The divisor of the excess branch, and the branch as one division.\<close>

definition excessRange :: "interestRateModelParams \<Rightarrow> int" where
  "excessRange p = (if RAY - optimalUtilization p = 0 then RAY else RAY - optimalUtilization p)"

lemma excessRange_nonzero: "excessRange p \<noteq> 0"
  by (simp add: excessRange_def)

lemma borrowRate_excess:
  "\<not> u \<le> optimalUtilization p \<Longrightarrow> calculateBorrowRate u p =
     Option.bind (rayDiv (u - optimalUtilization p) (excessRange p))
       (\<lambda>q. Some (baseRate p + slope1 p + rayMul q (slope2 p)))"
  by (simp only: calculateBorrowRate_def Let_def excessRange_def if_False)

lemma borrowRate_returns [panic_free]: "\<exists>r. calculateBorrowRate u p = Some r"
proof (cases "u \<le> optimalUtilization p")
  case True
  then show ?thesis
    using rayDiv_returns [of "optimalUtilization p" u]
    by (auto simp: calculateBorrowRate_def)
next
  case False
  obtain q where "rayDiv (u - optimalUtilization p) (excessRange p) = Some q"
    using rayDiv_returns [OF excessRange_nonzero] by blast
  with False show ?thesis by (simp add: borrowRate_excess)
qed

lemma recalculateRates_returns [panic_free]: "\<exists>p'. recalculateRates p = Some p'"
proof -
  obtain u where u: "calculateUtilizationRate (totalSupply p) (totalBorrow p) = Some u"
    using utilization_returns by blast
  obtain r where "calculateBorrowRate u (rateModel p) = Some r"
    using borrowRate_returns by blast
  with u show ?thesis by (simp add: recalculateRates_def)
qed

text \<open>For totals that are not negative the utilisation is the nearest Ray fraction to
  borrow / (supply + borrow), lies between zero and one, and computing it never panics.\<close>

theorem utilization_correct:
  assumes "0 \<le> s" and "0 \<le> b"
  shows "\<exists>u. calculateUtilizationRate s b = Some u \<and> 0 \<le> u \<and> u \<le> RAY
    \<and> \<bar>2 * (b * RAY - u * (s + b))\<bar> \<le> s + b"
proof (cases "s + b = 0")
  case True
  with assms have "s = 0" and "b = 0" by linarith+
  then show ?thesis by (simp add: calculateUtilizationRate_def)
next
  case False
  with assms have pos: "0 < s + b" by linarith
  define K :: int where "K = 10 ^ 9"
  define u where "u = round_div (b * K * RAY) ((s + b) * K)"
  have K: "0 < K" by (simp add: K_def)
  have dpos: "0 < (s + b) * K" using pos K by simp
  have eq: "calculateUtilizationRate s b = Some u"
    using False dpos unfolding calculateUtilizationRate_def wadToRay_def u_def K_def Let_def
    by (simp only: rayDiv_round if_False)
  have "0 \<le> u" unfolding u_def using assms K by (intro round_div_nonneg dpos) simp
  moreover have "u \<le> RAY" unfolding u_def
  proof (rule round_div_le [OF dpos])
    have "b * (K * RAY) \<le> (s + b) * (K * RAY)" using assms K by (intro mult_right_mono) simp_all
    then show "b * K * RAY \<le> RAY * ((s + b) * K)" by (simp only: ac_simps)
  qed
  moreover have "\<bar>2 * (b * RAY - u * (s + b))\<bar> \<le> s + b"
  proof -
    have "\<bar>2 * (b * K * RAY - u * ((s + b) * K))\<bar> \<le> (s + b) * K"
      unfolding u_def by (rule round_div_error [OF dpos])
    also have "2 * (b * K * RAY - u * ((s + b) * K)) = 2 * (b * RAY - u * (s + b)) * K"
      by (simp add: algebra_simps)
    finally have "\<bar>2 * (b * RAY - u * (s + b))\<bar> * K \<le> (s + b) * K"
      using K by (simp only: abs_mult abs_of_pos [of K])
    then show ?thesis using K by (rule mult_right_le_imp_le)
  qed
  ultimately show ?thesis using eq by blast
qed

theorem utilization_correct_witness:
  "\<exists>u. calculateUtilizationRate (800 * 10 ^ 18) (200 * 10 ^ 18) = Some u \<and> 0 \<le> u \<and> u \<le> RAY
    \<and> \<bar>2 * (200 * 10 ^ 18 * RAY - u * (800 * 10 ^ 18 + 200 * 10 ^ 18))\<bar> \<le> 800 * 10 ^ 18 + 200 * 10 ^ 18"
  by (rule utilization_correct) simp_all

text \<open>The parameters of a jump rate model in which the code's ratios stay between zero and one.\<close>

definition model_ok :: "interestRateModelParams \<Rightarrow> bool" where
  "model_ok p \<longleftrightarrow> 0 \<le> baseRate p \<and> 0 \<le> slope1 p \<and> 0 \<le> slope2 p
     \<and> 0 \<le> optimalUtilization p \<and> optimalUtilization p \<le> RAY"

lemma rayDiv_ratio:
  assumes "0 \<le> a" and "a \<le> b" and "0 < b"
  shows "\<exists>q. rayDiv a b = Some q \<and> 0 \<le> q \<and> q \<le> RAY"
proof -
  have "0 \<le> round_div (a * RAY) b" using assms by (intro round_div_nonneg) simp_all
  moreover have "round_div (a * RAY) b \<le> RAY"
    using assms by (intro round_div_le) (simp_all add: mult.commute)
  ultimately show ?thesis using assms by (simp add: rayDiv_round)
qed

lemma rayDiv_mono:
  "a \<le> a' \<Longrightarrow> 0 < b \<Longrightarrow> rayDiv a b = Some q \<Longrightarrow> rayDiv a' b = Some q' \<Longrightarrow> q \<le> q'"
  by (auto simp: rayDiv_round intro!: round_div_mono)

text \<open>Below the kink the rate stays between the base rate and the rate at the kink.\<close>

lemma borrowRate_low:
  assumes "model_ok p" and "0 \<le> u" and "u \<le> optimalUtilization p"
  shows "\<exists>r. calculateBorrowRate u p = Some r \<and> baseRate p \<le> r \<and> r \<le> baseRate p + slope1 p"
proof (cases "optimalUtilization p = 0")
  case True
  with assms show ?thesis by (simp add: calculateBorrowRate_def model_ok_def)
next
  case False
  with assms obtain q where q: "rayDiv u (optimalUtilization p) = Some q" "0 \<le> q" "q \<le> RAY"
    using rayDiv_ratio [of u "optimalUtilization p"] by auto
  have "0 \<le> rayMul q (slope1 p)" "rayMul q (slope1 p) \<le> slope1 p"
    using q assms(1) rayMul_mono [of "slope1 p" q RAY "slope1 p"]
    by (simp_all add: model_ok_def rayMul_nonneg)
  with assms(3) False q(1) show ?thesis by (simp add: calculateBorrowRate_def)
qed

lemma borrowRate_high:
  assumes "model_ok p" and "optimalUtilization p < u"
  shows "\<exists>r. calculateBorrowRate u p = Some r \<and> baseRate p + slope1 p \<le> r
    \<and> (u \<le> RAY \<longrightarrow> r \<le> baseRate p + slope1 p + slope2 p)"
proof -
  define d where "d = excessRange p"
  have d: "0 < d" using assms(1) by (auto simp: d_def excessRange_def model_ok_def)
  define q where "q = round_div ((u - optimalUtilization p) * RAY) d"
  have eq: "calculateBorrowRate u p = Some (baseRate p + slope1 p + rayMul q (slope2 p))"
    using assms(2) d by (simp add: borrowRate_excess rayDiv_round q_def flip: d_def)
  have q0: "0 \<le> q" unfolding q_def using assms(2) by (intro round_div_nonneg d) simp
  then have "0 \<le> rayMul q (slope2 p)" using assms(1) by (simp add: rayMul_nonneg model_ok_def)
  moreover have "rayMul q (slope2 p) \<le> slope2 p" if "u \<le> RAY"
  proof -
    have "u - optimalUtilization p \<le> d" using that assms(2) by (simp add: d_def excessRange_def)
    then have "q \<le> RAY" unfolding q_def
      using mult_right_mono [of "u - optimalUtilization p" d RAY]
      by (intro round_div_le d) (simp add: mult.commute)
    with q0 show ?thesis
      using rayMul_mono [of "slope2 p" q RAY "slope2 p"] assms(1) by (simp add: model_ok_def)
  qed
  ultimately show ?thesis using eq by simp
qed

lemma borrowRate_mono_low:
  assumes "model_ok p" and "0 \<le> u" and "u \<le> v" and "v \<le> optimalUtilization p"
    and "calculateBorrowRate u p = Some r" and "calculateBorrowRate v p = Some r'"
  shows "r \<le> r'"
proof (cases "optimalUtilization p = 0")
  case True
  with assms show ?thesis by (simp add: calculateBorrowRate_def)
next
  case False
  with assms(1) have pos: "0 < optimalUtilization p" by (simp add: model_ok_def)
  let ?q = "\<lambda>u. round_div (u * RAY) (optimalUtilization p)"
  have "0 \<le> ?q u" using assms(2) pos by (intro round_div_nonneg) simp_all
  moreover have "?q u \<le> ?q v" using assms(3) pos by (intro round_div_mono) simp_all
  ultimately have "rayMul (?q u) (slope1 p) \<le> rayMul (?q v) (slope1 p)"
    using assms(1) by (intro rayMul_mono) (simp_all add: model_ok_def)
  with assms False pos show ?thesis by (auto simp: calculateBorrowRate_def rayDiv_round)
qed

lemma borrowRate_mono_high:
  assumes "model_ok p" and "optimalUtilization p < u" and "u \<le> v"
    and "calculateBorrowRate u p = Some r" and "calculateBorrowRate v p = Some r'"
  shows "r \<le> r'"
proof -
  have pos: "0 < excessRange p" using assms(1) by (auto simp: excessRange_def model_ok_def)
  let ?q = "\<lambda>u. round_div ((u - optimalUtilization p) * RAY) (excessRange p)"
  have "0 \<le> ?q u" using assms(2) pos by (intro round_div_nonneg) simp_all
  moreover have "?q u \<le> ?q v" using assms(3) pos by (intro round_div_mono) simp_all
  ultimately have "rayMul (?q u) (slope2 p) \<le> rayMul (?q v) (slope2 p)"
    using assms(1) by (intro rayMul_mono) (simp_all add: model_ok_def)
  with assms pos show ?thesis by (auto simp: borrowRate_excess rayDiv_round)
qed

text \<open>The jump rate model is monotone over the whole range, kink included: a higher
  utilisation never gives a lower borrow rate, and the rate stays between the base rate and
  base + slope1 + slope2.\<close>

theorem borrowRate_monotone:
  assumes "model_ok p" and "0 \<le> u" and "u \<le> v" and "v \<le> RAY"
  shows "\<exists>r r'. calculateBorrowRate u p = Some r \<and> calculateBorrowRate v p = Some r'
    \<and> baseRate p \<le> r \<and> r \<le> r' \<and> r' \<le> baseRate p + slope1 p + slope2 p"
proof -
  have mo: "0 \<le> slope1 p" "0 \<le> slope2 p" using assms(1) by (simp_all add: model_ok_def)
  obtain r r' where r: "calculateBorrowRate u p = Some r" and r': "calculateBorrowRate v p = Some r'"
    using borrowRate_returns by blast
  consider "v \<le> optimalUtilization p" | "optimalUtilization p < u"
    | "u \<le> optimalUtilization p" "optimalUtilization p < v" by linarith
  then have "baseRate p \<le> r \<and> r \<le> r' \<and> r' \<le> baseRate p + slope1 p + slope2 p"
  proof cases
    case 1
    then show ?thesis
      using borrowRate_mono_low [OF assms(1-3) 1 r r'] borrowRate_low [OF assms(1,2)]
        borrowRate_low [OF assms(1), of v] assms(2,3) r r' mo by auto
  next
    case 2
    then show ?thesis
      using borrowRate_mono_high [OF assms(1) 2 assms(3) r r'] borrowRate_high [OF assms(1) 2]
        borrowRate_high [OF assms(1), of v] assms(3,4) r r' mo by auto
  next
    case 3
    then show ?thesis
      using borrowRate_low [OF assms(1,2)] borrowRate_high [OF assms(1) 3(2)] assms(4) r r' by auto
  qed
  with r r' show ?thesis by blast
qed

definition exampleModel :: interestRateModelParams where
  "exampleModel = \<lparr>baseRate = 2 * 10 ^ 25, slope1 = 4 * 10 ^ 25, slope2 = 75 * 10 ^ 25,
     optimalUtilization = 80 * 10 ^ 25\<rparr>"

lemma exampleModel_ok [simp]: "model_ok exampleModel"
  by (simp add: model_ok_def exampleModel_def RAY_def)

theorem borrowRate_monotone_witness:
  "\<exists>r r'. calculateBorrowRate (40 * 10 ^ 25) exampleModel = Some r
    \<and> calculateBorrowRate (90 * 10 ^ 25) exampleModel = Some r' \<and> baseRate exampleModel \<le> r \<and> r \<le> r'
    \<and> r' \<le> baseRate exampleModel + slope1 exampleModel + slope2 exampleModel"
  by (rule borrowRate_monotone) (simp_all add: RAY_def)

text \<open>The borrow rate at the kink is exactly base + slope1, and at full utilisation exactly
  base + slope1 + slope2, so the two branches of the model meet.\<close>

theorem borrowRate_at_kink:
  assumes "0 < optimalUtilization p" and "optimalUtilization p < RAY"
  shows "calculateBorrowRate (optimalUtilization p) p = Some (baseRate p + slope1 p)
    \<and> calculateBorrowRate RAY p = Some (baseRate p + slope1 p + slope2 p)"
proof -
  have "rayDiv a a = Some RAY" if "0 < a" for a
    using that round_div_mult [of a RAY] by (simp add: rayDiv_round mult.commute)
  moreover have "excessRange p = RAY - optimalUtilization p"
    using assms(2) by (simp add: excessRange_def)
  ultimately show ?thesis using assms
    by (simp add: borrowRate_excess) (simp add: calculateBorrowRate_def)
qed

theorem borrowRate_at_kink_witness:
  "calculateBorrowRate (80 * 10 ^ 25) exampleModel = Some (6 * 10 ^ 25)"
  using borrowRate_at_kink [of exampleModel] by (simp add: exampleModel_def RAY_def)

section \<open>Extrapolation\<close>

lemma extrapolateIndex_same: "sint (now - t) \<le> 0 \<Longrightarrow> extrapolateIndex idx rate t now = idx"
  by (simp add: extrapolateIndex_def)

lemma extrapolateIndex_now [simp]: "extrapolateIndex idx rate t t = idx"
  by (simp add: extrapolateIndex_def)

lemma extrapolateIndex_ge:
  "0 \<le> idx \<Longrightarrow> 0 \<le> rate \<Longrightarrow> idx \<le> extrapolateIndex idx rate t now"
  by (simp add: extrapolateIndex_def Let_def rayMul_ge_left linearInterest_ge_RAY)

lemma extrapolateIndex_nonneg:
  "0 \<le> idx \<Longrightarrow> 0 \<le> rate \<Longrightarrow> 0 \<le> extrapolateIndex idx rate t now"
  using extrapolateIndex_ge [of idx rate t now] by linarith

text \<open>An extrapolated index never falls below the stored one, does not move for a time that
  is not later, grows with the rate, and one year at rate r multiplies it by exactly 1 + r:
  the rate is annual, although the field and the parameter call it a per-second rate.\<close>

theorem extrapolateIndex_growth:
  assumes "0 \<le> idx" and "0 \<le> rate"
  shows "idx \<le> extrapolateIndex idx rate t now
    \<and> (sint (now - t) \<le> 0 \<longrightarrow> extrapolateIndex idx rate t now = idx)
    \<and> (rate \<le> rate' \<longrightarrow> extrapolateIndex idx rate t now \<le> extrapolateIndex idx rate' t now)
    \<and> extrapolateIndex idx rate t (t + 31536000) = rayMul idx (RAY + rate)"
proof -
  have "extrapolateIndex idx rate t now \<le> extrapolateIndex idx rate' t now" if "rate \<le> rate'"
  proof -
    have "0 \<le> calculateLinearInterest rate (now - t)"
      using linearInterest_ge_RAY [OF assms(2), of "now - t"] RAY_pos by linarith
    moreover have "calculateLinearInterest rate (now - t) \<le> calculateLinearInterest rate' (now - t)"
      using that by (rule linearInterest_mono_rate)
    ultimately show ?thesis using assms(1) by (simp add: extrapolateIndex_def Let_def rayMul_mono)
  qed
  moreover have "extrapolateIndex idx rate t (t + 31536000) = rayMul idx (RAY + rate)"
    by (simp add: extrapolateIndex_def linearInterest_one_year)
  ultimately show ?thesis using assms by (simp add: extrapolateIndex_ge extrapolateIndex_same)
qed

theorem extrapolateIndex_growth_witness:
  "RAY \<le> extrapolateIndex RAY (5 * 10 ^ 25) 1000 (1000 + 31536000)
    \<and> extrapolateIndex RAY (5 * 10 ^ 25) 1000 (1000 + 31536000) = RAY + 5 * 10 ^ 25"
  using extrapolateIndex_growth [of RAY "5 * 10 ^ 25" 1000 "1000 + 31536000" "5 * 10 ^ 25"] by simp

section \<open>The pools' invariant\<close>

text \<open>Totals, indices and rates are never negative and the model parameters are in range.\<close>

definition pool_base_ok :: "poolState \<Rightarrow> bool" where
  "pool_base_ok p \<longleftrightarrow> 0 \<le> totalSupply p \<and> 0 \<le> totalBorrow p \<and> 0 \<le> borrowIndex p
     \<and> 0 \<le> liquidityIndex p \<and> model_ok (rateModel p)"

definition pool_ok :: "poolState \<Rightarrow> bool" where
  "pool_ok p \<longleftrightarrow> pool_base_ok p \<and> 0 \<le> currentBorrowRate p \<and> 0 \<le> currentSupplyRate p"

definition rc_ok :: "rateComputer \<Rightarrow> bool" where
  "rc_ok rc \<longleftrightarrow> (\<forall>mid p. fmlookup (pools rc) mid = Some p \<longrightarrow> marketID p = mid \<and> pool_ok p)"

lemma rc_okD: "rc_ok rc \<Longrightarrow> fmlookup (pools rc) mid = Some p \<Longrightarrow> marketID p = mid \<and> pool_ok p"
  by (simp add: rc_ok_def)

lemma rc_ok_new [simp]: "rc_ok newRateComputer"
  by (simp add: rc_ok_def newRateComputer_def)

lemma rc_ok_upd:
  "rc_ok rc \<Longrightarrow> pool_ok p \<Longrightarrow> marketID p = mid \<Longrightarrow> rc_ok (rc\<lparr>pools := fmupd mid p (pools rc)\<rparr>)"
  by (simp add: rc_ok_def)

lemma setPool_ok [inv_intros]: "rc_ok rc \<Longrightarrow> pool_ok p \<Longrightarrow> rc_ok (setPool p rc)"
  by (simp add: setPool_def rc_ok_upd)

text \<open>What recomputing the rates keeps and what it establishes.\<close>

lemma recalculateRates_frame:
  "recalculateRates p = Some p' \<Longrightarrow> marketID p' = marketID p \<and> totalSupply p' = totalSupply p
     \<and> totalBorrow p' = totalBorrow p \<and> borrowIndex p' = borrowIndex p
     \<and> liquidityIndex p' = liquidityIndex p \<and> lastUpdateTimestamp p' = lastUpdateTimestamp p
     \<and> rateModel p' = rateModel p \<and> assetAddress p' = assetAddress p"
  by (auto simp: recalculateRates_def bind_eq_Some_conv)

lemma recalculateRates_idem: "recalculateRates p = Some p' \<Longrightarrow> recalculateRates p' = Some p'"
  by (auto simp: recalculateRates_def bind_eq_Some_conv)

lemma recalculateRates_ok:
  assumes "pool_base_ok p"
  shows "\<exists>p'. recalculateRates p = Some p' \<and> pool_ok p' \<and> currentSupplyRate p' \<le> currentBorrowRate p'"
proof -
  obtain u where u: "calculateUtilizationRate (totalSupply p) (totalBorrow p) = Some u"
    and ub: "0 \<le> u" "u \<le> RAY"
    using utilization_correct [of "totalSupply p" "totalBorrow p"] assms
    by (auto simp: pool_base_ok_def)
  have "model_ok (rateModel p)" using assms by (simp add: pool_base_ok_def)
  then obtain r where r: "calculateBorrowRate u (rateModel p) = Some r" and "baseRate (rateModel p) \<le> r"
    using borrowRate_monotone [of "rateModel p" u u] ub by auto
  then have "0 \<le> r" using \<open>model_ok (rateModel p)\<close> by (simp add: model_ok_def)
  then have "0 \<le> calculateSupplyRate r u" "calculateSupplyRate r u \<le> r"
    using ub by (simp_all add: calculateSupplyRate_def rayMul_nonneg rayMul_le_left)
  with u r \<open>0 \<le> r\<close> assms show ?thesis
    by (simp add: recalculateRates_def pool_ok_def pool_base_ok_def)
qed

lemma applyDelta_nonneg [simp]: "0 \<le> t \<Longrightarrow> 0 \<le> applyDelta t d"
  by (simp add: applyDelta_def Let_def split: option.split)

lemma applyDelta_max: "applyDelta t d = (case d of None \<Rightarrow> t | Some x \<Rightarrow> max 0 (t + x))"
  by (simp add: applyDelta_def Let_def max_def split: option.split)

text \<open>The pool of \<open>HandleEvent\<close> before the rates are recomputed.\<close>

definition eventPool :: "poolState \<Rightarrow> int option \<Rightarrow> int option \<Rightarrow> i64 \<Rightarrow> poolState" where
  "eventPool pool sd bd ts = pool\<lparr>
     borrowIndex := extrapolateIndex (borrowIndex pool) (currentBorrowRate pool) (lastUpdateTimestamp pool) ts,
     liquidityIndex := extrapolateIndex (liquidityIndex pool) (currentSupplyRate pool) (lastUpdateTimestamp pool) ts,
     lastUpdateTimestamp := ts,
     totalSupply := applyDelta (totalSupply pool) sd,
     totalBorrow := applyDelta (totalBorrow pool) bd\<rparr>"

lemma handleEvent_known:
  "fmlookup (pools rc) mid = Some pool \<Longrightarrow> handleEvent rc mid sd bd ts =
     map_option (\<lambda>p. rc\<lparr>pools := fmupd mid p (pools rc)\<rparr>) (recalculateRates (eventPool pool sd bd ts))"
  by (simp add: handleEvent_def eventPool_def map_conv_bind_option comp_def)

lemma handleEvent_unknown: "fmlookup (pools rc) mid = None \<Longrightarrow> handleEvent rc mid sd bd ts = Some rc"
  by (simp add: handleEvent_def)

lemma eventPool_base_ok: "pool_ok p \<Longrightarrow> pool_base_ok (eventPool p sd bd ts)"
  by (simp add: pool_ok_def pool_base_ok_def eventPool_def extrapolateIndex_nonneg)

lemma eventPool_marketID [simp]: "marketID (eventPool p sd bd ts) = marketID p"
  by (simp add: eventPool_def)

lemma handleEvent_ok [inv_intros]:
  assumes "rc_ok rc"
  shows "\<exists>rc'. handleEvent rc mid sd bd ts = Some rc' \<and> rc_ok rc'"
proof (cases "fmlookup (pools rc) mid")
  case None
  with assms show ?thesis by (simp add: handleEvent_unknown)
next
  case (Some pool)
  with assms have "marketID pool = mid" and "pool_base_ok (eventPool pool sd bd ts)"
    by (auto dest!: rc_okD intro: eventPool_base_ok)
  with recalculateRates_ok recalculateRates_frame show ?thesis using assms Some
    by (fastforce simp: handleEvent_known intro!: rc_ok_upd)
qed

definition calibratedPool :: "poolState \<Rightarrow> int \<Rightarrow> int \<Rightarrow> i64 \<Rightarrow> poolState" where
  "calibratedPool pool bi li ts =
     pool\<lparr>borrowIndex := bi, liquidityIndex := li, lastUpdateTimestamp := ts\<rparr>"

lemma calibratePool_known:
  "fmlookup (pools rc) mid = Some pool \<Longrightarrow> calibratePool rc mid bi li ts =
     map_option (\<lambda>p. (indexDeviation (extrapolateIndex (borrowIndex pool) (currentBorrowRate pool)
         (lastUpdateTimestamp pool) ts) bi, rc\<lparr>pools := fmupd mid p (pools rc)\<rparr>))
       (recalculateRates (calibratedPool pool bi li ts))"
  by (simp add: calibratePool_def calibratedPool_def map_conv_bind_option comp_def)

lemma indexDeviation_nonneg: "f64_nonneg (indexDeviation l c)"
  by (simp add: indexDeviation_def bigfloat_quo_ints_def f64_mul_pos_nonneg f64_of_rat_nonneg
      bigfloat_round_nonneg)

lemma indexDeviation_same: "indexDeviation c c = Finite 0"
  by (simp add: indexDeviation_def bigfloat_quo_ints_def)

lemma calibratePool_ok [inv_intros]:
  assumes "rc_ok rc" and "0 \<le> bi" and "0 \<le> li"
  shows "\<exists>dev rc'. calibratePool rc mid bi li ts = Some (dev, rc') \<and> f64_nonneg dev \<and> rc_ok rc'"
proof (cases "fmlookup (pools rc) mid")
  case None
  with assms show ?thesis by (simp add: calibratePool_def)
next
  case (Some pool)
  with assms have "marketID pool = mid" and base: "pool_base_ok (calibratedPool pool bi li ts)"
    by (auto dest!: rc_okD simp: calibratedPool_def pool_ok_def pool_base_ok_def)
  obtain p' where p': "recalculateRates (calibratedPool pool bi li ts) = Some p'" "pool_ok p'"
    using recalculateRates_ok [OF base] by blast
  then have "marketID p' = mid"
    using recalculateRates_frame [OF p'(1)] \<open>marketID pool = mid\<close> by (simp add: calibratedPool_def)
  with p' Some assms show ?thesis
    by (simp add: calibratePool_known indexDeviation_nonneg rc_ok_upd)
qed

text \<open>The computer's life: any sequence of its state changing operations.\<close>

datatype rcOp = SetPool poolState
  | HandleEvent i64 "int option" "int option" i64
  | CalibratePool i64 int int i64

fun rcStep :: "rateComputer \<Rightarrow> rcOp \<Rightarrow> rateComputer option" where
  "rcStep rc (SetPool p) = Some (setPool p rc)"
| "rcStep rc (HandleEvent mid sd bd ts) = handleEvent rc mid sd bd ts"
| "rcStep rc (CalibratePool mid bi li ts) = map_option snd (calibratePool rc mid bi li ts)"

fun rcRun :: "rateComputer \<Rightarrow> rcOp list \<Rightarrow> rateComputer option" where
  "rcRun rc [] = Some rc"
| "rcRun rc (x # xs) = (case rcStep rc x of None \<Rightarrow> None | Some rc' \<Rightarrow> rcRun rc' xs)"

text \<open>Pools are installed well formed and the chain's indices are not negative; the deltas of
  events are arbitrary.\<close>

fun rcOp_ok :: "rcOp \<Rightarrow> bool" where
  "rcOp_ok (SetPool p) = pool_ok p"
| "rcOp_ok (HandleEvent _ _ _ _) = True"
| "rcOp_ok (CalibratePool _ bi li _) = (0 \<le> bi \<and> 0 \<le> li)"

lemma rcStep_ok: "rc_ok rc \<Longrightarrow> rcOp_ok x \<Longrightarrow> \<exists>rc'. rcStep rc x = Some rc' \<and> rc_ok rc'"
  by (cases x) (use setPool_ok handleEvent_ok calibratePool_ok in fastforce)+

lemma rcRun_ok: "rc_ok rc \<Longrightarrow> \<forall>x\<in>set xs. rcOp_ok x \<Longrightarrow> \<exists>rc'. rcRun rc xs = Some rc' \<and> rc_ok rc'"
proof (induction xs arbitrary: rc)
  case Nil
  then show ?case by simp
next
  case (Cons x xs)
  then obtain rc1 where "rcStep rc x = Some rc1" "rc_ok rc1" using rcStep_ok by fastforce
  with Cons show ?case by simp
qed


definition examplePool :: poolState where
  "examplePool = \<lparr>marketID = 1, assetAddress = 7, totalSupply = 1000 * 10 ^ 18,
     totalBorrow = 500 * 10 ^ 18, liquidityIndex = 10 ^ 27, borrowIndex = 10 ^ 27,
     currentBorrowRate = 5 * 10 ^ 25, currentSupplyRate = 2 * 10 ^ 25,
     lastUpdateTimestamp = 1000, rateModel = exampleModel\<rparr>"

lemma examplePool_ok [simp]: "pool_ok examplePool"
  by (simp add: pool_ok_def pool_base_ok_def examplePool_def)


text \<open>C16: an event on a known pool accrues both indices up to the event (never downwards), adds
  the deltas with a floor at zero, recomputes the rates from the new totals with the supply
  rate at most the borrow rate, and touches no other pool; on an unknown pool it does nothing.\<close>

theorem handleEvent_correct:
  assumes ok: "rc_ok rc"
  shows "case fmlookup (pools rc) mid of
      None \<Rightarrow> handleEvent rc mid sd bd ts = Some rc
    | Some pool \<Rightarrow> \<exists>rc' p'. handleEvent rc mid sd bd ts = Some rc' \<and> fmlookup (pools rc') mid = Some p'
        \<and> totalSupply p' = (case sd of None \<Rightarrow> totalSupply pool | Some d \<Rightarrow> max 0 (totalSupply pool + d))
        \<and> totalBorrow p' = (case bd of None \<Rightarrow> totalBorrow pool | Some d \<Rightarrow> max 0 (totalBorrow pool + d))
        \<and> Some (borrowIndex p') = currentBorrowIndex rc mid ts \<and> borrowIndex pool \<le> borrowIndex p'
        \<and> Some (liquidityIndex p') = currentLiquidityIndex rc mid ts \<and> liquidityIndex pool \<le> liquidityIndex p'
        \<and> lastUpdateTimestamp p' = ts \<and> currentSupplyRate p' \<le> currentBorrowRate p'
        \<and> recalculateRates p' = Some p'
        \<and> (\<forall>m. m \<noteq> mid \<longrightarrow> fmlookup (pools rc') m = fmlookup (pools rc) m)"
proof (cases "fmlookup (pools rc) mid")
  case None
  then show ?thesis by (simp add: handleEvent_unknown)
next
  case (Some pool)
  have pok: "pool_ok pool" using ok Some by (auto dest: rc_okD)
  let ?e = "eventPool pool sd bd ts"
  obtain p' where p': "recalculateRates ?e = Some p'" "currentSupplyRate p' \<le> currentBorrowRate p'"
    using recalculateRates_ok [OF eventPool_base_ok [OF pok]] by blast
  note fr = recalculateRates_frame [OF p'(1)]
  have "recalculateRates p' = Some p'"
    using p'(1) by (rule recalculateRates_idem)
  moreover have "borrowIndex pool \<le> borrowIndex p'" "liquidityIndex pool \<le> liquidityIndex p'"
    using fr pok by (simp_all add: eventPool_def extrapolateIndex_ge pool_ok_def pool_base_ok_def)
  moreover have "handleEvent rc mid sd bd ts = Some (rc\<lparr>pools := fmupd mid p' (pools rc)\<rparr>)"
    using Some p'(1) by (simp add: handleEvent_known)
  moreover have "Some (borrowIndex p') = currentBorrowIndex rc mid ts"
      "Some (liquidityIndex p') = currentLiquidityIndex rc mid ts" "lastUpdateTimestamp p' = ts"
    using Some fr by (simp_all add: eventPool_def currentBorrowIndex_def currentLiquidityIndex_def)
  moreover have "totalSupply p' = applyDelta (totalSupply pool) sd"
      "totalBorrow p' = applyDelta (totalBorrow pool) bd"
    using fr by (simp_all add: eventPool_def)
  ultimately show ?thesis using p'(2) unfolding Some option.case applyDelta_max
    by (intro exI [of _ "rc\<lparr>pools := fmupd mid p' (pools rc)\<rparr>"] exI [of _ p'] conjI) simp_all
qed

theorem handleEvent_correct_witness:
  "case fmlookup (pools (setPool examplePool newRateComputer)) 2 of
      None \<Rightarrow> handleEvent (setPool examplePool newRateComputer) 2 (Some 5) None 2000
        = Some (setPool examplePool newRateComputer)
    | Some pool \<Rightarrow> False"
  using handleEvent_correct [of "setPool examplePool newRateComputer" 2 "Some 5" None 2000]
  by (simp add: setPool_ok) (simp add: setPool_def newRateComputer_def examplePool_def)

text \<open>Calibration overwrites both indices and the timestamp with the chain's values whatever
  the local ones were, recomputes the rates, keeps the totals and every other pool, and reports
  a deviation that is never negative and is zero where the local index already agreed.\<close>

theorem calibratePool_correct:
  assumes "rc_ok rc" and "fmlookup (pools rc) mid = Some pool" and "0 \<le> bi" and "0 \<le> li"
  shows "\<exists>dev rc' p'. calibratePool rc mid bi li ts = Some (dev, rc') \<and> fmlookup (pools rc') mid = Some p'
    \<and> borrowIndex p' = bi \<and> liquidityIndex p' = li \<and> lastUpdateTimestamp p' = ts
    \<and> totalSupply p' = totalSupply pool \<and> totalBorrow p' = totalBorrow pool
    \<and> recalculateRates p' = Some p'
    \<and> (currentBorrowIndex rc mid ts = Some bi \<longrightarrow> dev = Finite 0) \<and> f64_nonneg dev
    \<and> (\<forall>m. m \<noteq> mid \<longrightarrow> fmlookup (pools rc') m = fmlookup (pools rc) m)"
proof -
  have base: "pool_base_ok (calibratedPool pool bi li ts)" using assms
    by (auto dest!: rc_okD simp: calibratedPool_def pool_ok_def pool_base_ok_def)
  obtain p' where p': "recalculateRates (calibratedPool pool bi li ts) = Some p'"
    using recalculateRates_ok [OF base] by blast
  note fr = recalculateRates_frame [OF p']
  have "recalculateRates p' = Some p'"
    using p' by (rule recalculateRates_idem)
  moreover have "currentBorrowIndex rc mid ts = Some bi \<Longrightarrow> indexDeviation (extrapolateIndex
      (borrowIndex pool) (currentBorrowRate pool) (lastUpdateTimestamp pool) ts) bi = Finite 0"
    using assms(2) by (simp add: currentBorrowIndex_def indexDeviation_same)
  ultimately show ?thesis using fr p' unfolding calibratePool_known [OF assms(2)] p' option.map
    by (intro exI [of _ "rc\<lparr>pools := fmupd mid p' (pools rc)\<rparr>"] exI [of _ p'] exI conjI)
      (rule refl, simp_all add: calibratedPool_def indexDeviation_nonneg)
qed

theorem calibratePool_correct_witness:
  "\<exists>dev rc' p'. calibratePool (setPool examplePool newRateComputer) 1 (10 ^ 27 + 10 ^ 18) (10 ^ 27) 2000
      = Some (dev, rc') \<and> fmlookup (pools rc') 1 = Some p' \<and> borrowIndex p' = 10 ^ 27 + 10 ^ 18"
  using calibratePool_correct [of "setPool examplePool newRateComputer" 1 examplePool
      "10 ^ 27 + 10 ^ 18" "10 ^ 27" 2000]
  by (auto simp: setPool_ok) (auto simp: setPool_def newRateComputer_def examplePool_def)

text \<open>A late event (one whose timestamp is not after the pool's) leaves the borrow index as it
  is but moves the pool's clock back to its own timestamp, so the interest from there to the
  old clock, already in the index, is charged a second time.\<close>

theorem handleEvent_late_replays_interest:
  assumes "fmlookup (pools rc) mid = Some pool" and "sint (ts - lastUpdateTimestamp pool) \<le> 0"
  shows "\<exists>rc' p'. handleEvent rc mid sd bd ts = Some rc' \<and> fmlookup (pools rc') mid = Some p'
    \<and> borrowIndex p' = borrowIndex pool \<and> lastUpdateTimestamp p' = ts
    \<and> currentBorrowIndex rc mid (lastUpdateTimestamp pool) = Some (borrowIndex pool)
    \<and> currentBorrowIndex rc' mid (lastUpdateTimestamp pool)
        = Some (extrapolateIndex (borrowIndex pool) (currentBorrowRate p') ts (lastUpdateTimestamp pool))"
proof -
  obtain p' where p': "recalculateRates (eventPool pool sd bd ts) = Some p'"
    using recalculateRates_returns by blast
  from recalculateRates_frame [OF p'] p' assms show ?thesis
    by (simp add: handleEvent_known eventPool_def currentBorrowIndex_def extrapolateIndex_same)
qed

lemma replay_example:
  "case handleEvent (setPool examplePool newRateComputer) 1 None None 400 of
     Some rc' \<Rightarrow> (case currentBorrowIndex rc' 1 1000 of Some i \<Rightarrow> 10 ^ 27 < i | None \<Rightarrow> False)
   | None \<Rightarrow> False"
  by code_simp

theorem handleEvent_late_replays_interest_witness:
  "\<exists>rc' i. handleEvent (setPool examplePool newRateComputer) 1 None None 400 = Some rc'
    \<and> currentBorrowIndex (setPool examplePool newRateComputer) 1 1000 = Some (10 ^ 27)
    \<and> currentBorrowIndex rc' 1 1000 = Some i \<and> 10 ^ 27 < i"
proof -
  have "fmlookup (pools (setPool examplePool newRateComputer)) 1 = Some examplePool"
    by (simp add: setPool_def newRateComputer_def examplePool_def)
  from handleEvent_late_replays_interest [OF this, of 400 None None] replay_example
  show ?thesis by (auto simp: examplePool_def split: option.splits)
qed

end
