(* ===== verification/GoHeap.thy ===== *)
theory GoHeap
  imports Prelude "HOL-Library.Multiset"
begin

text \<open>
  Go's \<open>container/heap\<close>, as far as the position scanner uses it: \<open>Push\<close>, \<open>Fix\<close>, \<open>Remove\<close> and
  the \<open>up\<close> and \<open>down\<close> they share. As in Go, the algorithms see the heap only through the
  methods of \<open>heap.Interface\<close> (\<open>Len\<close>, \<open>Less\<close>, \<open>Swap\<close>, \<open>Push\<close>, \<open>Pop\<close>), here their
  arguments; the locales state what those methods promise and prove the algorithms correct
  once, for every implementation that keeps the promise.
\<close>

section \<open>The algorithms\<close>

fun heap_up ::
  "('s \<Rightarrow> nat \<Rightarrow> nat \<Rightarrow> bool) \<Rightarrow> (nat \<Rightarrow> nat \<Rightarrow> 's \<Rightarrow> 's) \<Rightarrow> nat \<Rightarrow> 's \<Rightarrow> 's" where
  "heap_up lt swap j s =
     (let i = (j - 1) div 2
      in if i = j \<or> \<not> lt s j i then s else heap_up lt swap i (swap i j s))"

function heap_down ::
  "('s \<Rightarrow> nat \<Rightarrow> nat \<Rightarrow> bool) \<Rightarrow> (nat \<Rightarrow> nat \<Rightarrow> 's \<Rightarrow> 's) \<Rightarrow> nat \<Rightarrow> nat \<Rightarrow> 's \<Rightarrow> nat \<times> 's" where
  "heap_down lt swap i n s =
     (let j1 = 2 * i + 1
      in if n \<le> j1 then (i, s)
         else let j2 = j1 + 1; j = (if j2 < n \<and> lt s j2 j1 then j2 else j1)
              in if \<not> lt s j i then (i, s)
                 else heap_down lt swap j n (swap i j s))"
  by pat_completeness auto
termination
  by (relation "measure (\<lambda>(lt, swap, i, n, s). n - i)") (auto split: if_splits)

declare heap_up.simps [simp del] heap_down.simps [simp del]

text \<open>\<open>down\<close> reports whether it moved the element: \<open>i > i0\<close> on its final index.\<close>

definition heap_fix ::
  "('s \<Rightarrow> nat) \<Rightarrow> ('s \<Rightarrow> nat \<Rightarrow> nat \<Rightarrow> bool) \<Rightarrow> (nat \<Rightarrow> nat \<Rightarrow> 's \<Rightarrow> 's) \<Rightarrow> nat \<Rightarrow> 's \<Rightarrow> 's" where
  "heap_fix len lt swap i s =
     (case heap_down lt swap i (len s) s of (k, s1) \<Rightarrow>
        if i < k then s1 else heap_up lt swap i s1)"

definition heap_push ::
  "('s \<Rightarrow> nat) \<Rightarrow> ('s \<Rightarrow> nat \<Rightarrow> nat \<Rightarrow> bool) \<Rightarrow> (nat \<Rightarrow> nat \<Rightarrow> 's \<Rightarrow> 's) \<Rightarrow> ('a \<Rightarrow> 's \<Rightarrow> 's) \<Rightarrow> 'a \<Rightarrow> 's \<Rightarrow> 's" where
  "heap_push len lt swap push x s =
     (let s1 = push x s in heap_up lt swap (len s1 - 1) s1)"

definition heap_remove ::
  "('s \<Rightarrow> nat) \<Rightarrow> ('s \<Rightarrow> nat \<Rightarrow> nat \<Rightarrow> bool) \<Rightarrow> (nat \<Rightarrow> nat \<Rightarrow> 's \<Rightarrow> 's) \<Rightarrow> ('s \<Rightarrow> 'a \<times> 's) \<Rightarrow> nat \<Rightarrow> 's \<Rightarrow> 'a \<times> 's" where
  "heap_remove len lt swap pop i s =
     (let n = len s - 1;
          s1 = (if n \<noteq> i
                then (case heap_down lt swap i n (swap i n s) of (k, s2) \<Rightarrow>
                        if i < k then s2 else heap_up lt swap i s2)
                else s)
      in pop s1)"

section \<open>Array heaps\<close>

definition par :: "nat \<Rightarrow> nat" where
  "par j = (j - 1) div 2"

lemma par_less: "0 < j \<Longrightarrow> par j < j"
  by (simp add: par_def)

lemma par_eq_iff: "0 < j \<Longrightarrow> par j = i \<longleftrightarrow> j = 2 * i + 1 \<or> j = 2 * i + 2"
  by (auto simp: par_def)

lemma par_fix_iff: "par j = j \<longleftrightarrow> j = 0"
  by (auto simp: par_def)

definition swap_nth :: "nat \<Rightarrow> nat \<Rightarrow> 'a list \<Rightarrow> 'a list" where
  "swap_nth i j xs = xs[i := xs ! j, j := xs ! i]"

lemma length_swap_nth [simp]: "length (swap_nth i j xs) = length xs"
  by (simp add: swap_nth_def)

lemma nth_swap_nth:
  "i < length xs \<Longrightarrow> j < length xs \<Longrightarrow> k < length xs \<Longrightarrow>
     swap_nth i j xs ! k = (if k = j then xs ! i else if k = i then xs ! j else xs ! k)"
  by (simp add: swap_nth_def nth_list_update)

lemma mset_swap_nth [simp]: "i < length xs \<Longrightarrow> j < length xs \<Longrightarrow> mset (swap_nth i j xs) = mset xs"
  by (simp add: swap_nth_def mset_swap)

lemma map_swap_nth: "i < length xs \<Longrightarrow> j < length xs \<Longrightarrow> map f (swap_nth i j xs) = swap_nth i j (map f xs)"
  by (simp add: swap_nth_def map_update)

text \<open>The first \<open>n\<close> entries form a heap; they do so but for the entry at \<open>i\<close>, which may be out
  of order with its parent and its children; its parent, or its children, are in order.\<close>

definition heap_upto :: "'k::linorder list \<Rightarrow> nat \<Rightarrow> bool" where
  "heap_upto xs n \<longleftrightarrow> (\<forall>j<n. 0 < j \<longrightarrow> xs ! par j \<le> xs ! j)"

definition heap_but :: "'k::linorder list \<Rightarrow> nat \<Rightarrow> nat \<Rightarrow> bool" where
  "heap_but xs n i \<longleftrightarrow>
     (\<forall>j<n. 0 < j \<longrightarrow> j \<noteq> i \<longrightarrow> par j \<noteq> i \<longrightarrow> xs ! par j \<le> xs ! j) \<and>
     (0 < i \<longrightarrow> (\<forall>j<n. 0 < j \<longrightarrow> par j = i \<longrightarrow> xs ! par i \<le> xs ! j))"

definition above_ok :: "'k::linorder list \<Rightarrow> nat \<Rightarrow> bool" where
  "above_ok xs i \<longleftrightarrow> (0 < i \<longrightarrow> xs ! par i \<le> xs ! i)"

definition below_ok :: "'k::linorder list \<Rightarrow> nat \<Rightarrow> nat \<Rightarrow> bool" where
  "below_ok xs n i \<longleftrightarrow> (\<forall>j<n. 0 < j \<longrightarrow> par j = i \<longrightarrow> xs ! i \<le> xs ! j)"

lemma heap_butI: "heap_upto xs n \<Longrightarrow> i < n \<Longrightarrow> heap_but xs n i"
  unfolding heap_upto_def heap_but_def
  by (metis order_trans)

lemma heap_but_restored: "heap_but xs n i \<Longrightarrow> above_ok xs i \<Longrightarrow> below_ok xs n i \<Longrightarrow> heap_upto xs n"
  unfolding heap_upto_def heap_but_def above_ok_def below_ok_def by metis

lemma heap_but_update:
  assumes "heap_but xs n i" and "i < n" and "n \<le> length xs"
    and "length ys = length xs" and "\<forall>j<n. j \<noteq> i \<longrightarrow> ys ! j = xs ! j"
  shows "heap_but ys n i"
proof -
  have "par j \<noteq> i \<Longrightarrow> j < n \<Longrightarrow> ys ! par j = xs ! par j" for j
    using assms(5) par_less [of j] by (cases "j = 0") (auto simp: par_def)
  moreover have "0 < i \<Longrightarrow> ys ! par i = xs ! par i"
    using assms(2,5) par_less [of i] by auto
  ultimately show ?thesis using assms(1,5) unfolding heap_but_def
    by (metis par_less less_irrefl)
qed

lemma heap_upto_le: "heap_upto xs n \<Longrightarrow> m \<le> n \<Longrightarrow> heap_upto xs m"
  by (simp add: heap_upto_def)

lemma heap_upto_root: "heap_upto xs n \<Longrightarrow> j < n \<Longrightarrow> xs ! 0 \<le> xs ! j"
proof (induction j rule: less_induct)
  case (less j)
  show ?case
  proof (cases "j = 0")
    case False
    then have "par j < j" by (simp add: par_less)
    with less have "xs ! 0 \<le> xs ! par j" by simp
    also have "\<dots> \<le> xs ! j" using False less.prems by (simp add: heap_upto_def)
    finally show ?thesis .
  qed simp
qed

lemma heap_but_append:
  assumes "heap_upto xs (length xs)"
  shows "heap_but (xs @ [x]) (Suc (length xs)) (length xs)"
proof -
  have "(xs @ [x]) ! par j \<le> (xs @ [x]) ! j"
    if "j < Suc (length xs)" "0 < j" "j \<noteq> length xs" for j
    using assms that par_less [OF that(2)] by (simp add: heap_upto_def nth_append)
  moreover have "par j \<noteq> length xs" if "j < Suc (length xs)" "0 < j" for j
    using par_less [OF that(2)] that(1) by simp
  ultimately show ?thesis by (simp add: heap_but_def)
qed

lemma below_ok_last: "below_ok xs (Suc n) n"
  unfolding below_ok_def by (metis not_less_eq par_less)

lemma heap_upto_butlast:
  assumes "heap_upto xs n" and "n < length xs"
  shows "heap_upto (butlast xs) n"
  unfolding heap_upto_def
proof (intro allI impI)
  fix j assume j: "j < n" "0 < j"
  then have "par j < n" using par_less [of j] by linarith
  then have "butlast xs ! par j = xs ! par j" "butlast xs ! j = xs ! j"
    using j assms(2) by (simp_all add: nth_butlast)
  with j assms(1) show "butlast xs ! par j \<le> butlast xs ! j" by (simp add: heap_upto_def)
qed

lemma mset_butlast: "xs \<noteq> [] \<Longrightarrow> mset (butlast xs) = mset xs - {#last xs#}"
  by (cases xs rule: rev_cases) auto

text \<open>One step of sifting, on the array.\<close>

lemma sift_down_step:
  assumes but: "heap_but xs n i" and ij: "par j = i" "0 < j" "j < n" and n: "n \<le> length xs"
    and small: "\<forall>m<n. 0 < m \<longrightarrow> par m = i \<longrightarrow> xs ! j \<le> xs ! m" and less: "xs ! j < xs ! i"
  shows "heap_but (swap_nth i j xs) n j \<and> above_ok (swap_nth i j xs) j"
proof -
  let ?ys = "swap_nth i j xs"
  have iltj: "i < j" using ij par_less by blast
  have nth: "k < n \<Longrightarrow> ?ys ! k = (if k = j then xs ! i else if k = i then xs ! j else xs ! k)" for k
    using ij n iltj by (intro nth_swap_nth) simp_all
  have parn: "k < n \<Longrightarrow> 0 < k \<Longrightarrow> par k < n" for k using par_less [of k] by linarith
  have "?ys ! par m \<le> ?ys ! m" if m: "m < n" "0 < m" "m \<noteq> j" "par m \<noteq> j" for m
  proof -
    have "xs ! par i \<le> xs ! j" if "0 < i" using but that ij by (simp add: heap_but_def)
    moreover have "xs ! par m \<le> xs ! m" if "m \<noteq> i" "par m \<noteq> i"
      using but m that by (simp add: heap_but_def)
    moreover have "par i \<noteq> i" if "0 < i" using that by (simp add: par_fix_iff)
    moreover have "par i \<noteq> j" if "0 < i" using par_less [OF that] iltj by simp
    ultimately show ?thesis
      using m parn [OF m(1,2)] small by (cases "m = i"; cases "par m = i") (simp_all add: nth)
  qed
  moreover have "?ys ! par j \<le> ?ys ! m" if "m < n" "0 < m" "par m = j" for m
  proof -
    have "m \<noteq> i" "m \<noteq> j" using that iltj par_less [OF that(2)] by auto
    moreover have "par m \<noteq> i" using that iltj by simp
    ultimately have "xs ! par m \<le> xs ! m" using but that(1,2) unfolding heap_but_def by blast
    with \<open>m \<noteq> i\<close> \<open>m \<noteq> j\<close> show ?thesis using that ij iltj by (simp add: nth)
  qed
  moreover have "?ys ! par j \<le> ?ys ! j" using ij iltj less by (simp add: nth)
  ultimately show ?thesis by (simp add: heap_but_def above_ok_def)
qed

lemma sift_up_step:
  assumes but: "heap_but xs n j" and below: "below_ok xs n j" and ij: "par j = i" "0 < j" "j < n"
    and n: "n \<le> length xs" and less: "xs ! j < xs ! i"
  shows "heap_but (swap_nth i j xs) n i \<and> below_ok (swap_nth i j xs) n i"
proof -
  let ?ys = "swap_nth i j xs"
  have iltj: "i < j" using ij par_less by blast
  have nth: "k < n \<Longrightarrow> ?ys ! k = (if k = j then xs ! i else if k = i then xs ! j else xs ! k)" for k
    using ij n iltj by (intro nth_swap_nth) simp_all
  have parn: "k < n \<Longrightarrow> 0 < k \<Longrightarrow> par k < n" for k using par_less [of k] by linarith
  have sib: "xs ! i \<le> xs ! m" if "m < n" "0 < m" "par m = i" "m \<noteq> j" for m
    using but that ij iltj unfolding heap_but_def by (metis nat_neq_iff)
  have pi: "xs ! par i \<le> xs ! i" if "0 < i"
    using but that ij iltj par_less [OF that] unfolding heap_but_def by (metis less_trans nat_neq_iff)
  have "?ys ! par m \<le> ?ys ! m" if m: "m < n" "0 < m" "m \<noteq> i" "par m \<noteq> i" for m
  proof -
    have "m \<noteq> j" using m ij by auto
    moreover have "par m = j \<Longrightarrow> xs ! i \<le> xs ! m" using but m ij by (auto simp: heap_but_def)
    moreover have "par m \<noteq> j \<Longrightarrow> xs ! par m \<le> xs ! m"
      using but m \<open>m \<noteq> j\<close> by (simp add: heap_but_def)
    ultimately show ?thesis using m parn [OF m(1,2)] by (cases "par m = j") (simp_all add: nth)
  qed
  moreover have "?ys ! par i \<le> ?ys ! m" if "0 < i" "m < n" "0 < m" "par m = i" for m
  proof -
    have "par i \<noteq> i" "par i \<noteq> j" using par_less [OF that(1)] iltj by auto
    moreover have "m \<noteq> i" using that(3,4) par_less [of m] by auto
    ultimately show ?thesis using that pi sib [OF that(2-4)] iltj ij par_less [OF that(1)]
      by (cases "m = j") (simp_all add: nth order_trans [OF pi])
  qed
  moreover have "?ys ! i \<le> ?ys ! m" if "m < n" "0 < m" "par m = i" for m
  proof -
    have "m \<noteq> i" using that(2,3) par_less [of m] by auto
    then show ?thesis using that sib [OF that] less iltj ij
      by (cases "m = j") (simp_all add: nth less_imp_le order_trans [OF less_imp_le [OF less]])
  qed
  ultimately show ?thesis by (simp add: heap_but_def below_ok_def)
qed

section \<open>The interface and what its algorithms guarantee\<close>

text \<open>
  \<open>sort.Interface\<close> as the sifting sees it: a length, a comparison of two positions and a swap.
  \<open>items\<close> lists the elements and \<open>rest\<close> is the part of the state that the heap methods leave
  alone, from which \<open>key\<close> reads the priority of an element. Under the provider's invariant a
  swap exchanges two elements and nothing else.
\<close>

locale heap_interface =
  fixes len :: "'s \<Rightarrow> nat"
    and lt :: "'s \<Rightarrow> nat \<Rightarrow> nat \<Rightarrow> bool"
    and swap :: "nat \<Rightarrow> nat \<Rightarrow> 's \<Rightarrow> 's"
    and items :: "'s \<Rightarrow> 'a list"
    and rest :: "'s \<Rightarrow> 'r" and key :: "'r \<Rightarrow> 'a \<Rightarrow> 'k::linorder"
    and invar :: "'s \<Rightarrow> bool"
  assumes len_items: "invar s \<Longrightarrow> len s = length (items s)"
    and lt_key: "invar s \<Longrightarrow> i < length (items s) \<Longrightarrow> j < length (items s) \<Longrightarrow>
      lt s i j \<longleftrightarrow> key (rest s) (items s ! i) < key (rest s) (items s ! j)"
    and swap_items: "invar s \<Longrightarrow> i < length (items s) \<Longrightarrow> j < length (items s) \<Longrightarrow>
      items (swap i j s) = swap_nth i j (items s)"
    and swap_rest: "invar s \<Longrightarrow> i < length (items s) \<Longrightarrow> j < length (items s) \<Longrightarrow>
      rest (swap i j s) = rest s"
    and swap_invar: "invar s \<Longrightarrow> i < length (items s) \<Longrightarrow> j < length (items s) \<Longrightarrow>
      invar (swap i j s)"
begin

definition keys :: "'s \<Rightarrow> 'k list" where
  "keys s = map (key (rest s)) (items s)"

text \<open>What every run of sifting keeps: the elements, their priorities, and everything from \<open>n\<close> on.\<close>

definition same_content :: "nat \<Rightarrow> 's \<Rightarrow> 's \<Rightarrow> bool" where
  "same_content n s s' \<longleftrightarrow> invar s' \<and> rest s' = rest s \<and> mset (items s') = mset (items s)
     \<and> (\<forall>k<length (items s). n \<le> k \<longrightarrow> items s' ! k = items s ! k)"

lemma same_content_refl: "invar s \<Longrightarrow> same_content n s s"
  by (simp add: same_content_def)

lemma same_content_length: "same_content n s s' \<Longrightarrow> length (items s') = length (items s)"
  unfolding same_content_def by (metis size_mset)

lemma same_content_trans: "same_content n s t \<Longrightarrow> same_content n t u \<Longrightarrow> same_content n s u"
  using same_content_length [of n s t] by (simp add: same_content_def)

lemma same_content_swap:
  assumes "invar s" and "i < n" and "j < n" and "n \<le> length (items s)"
  shows "same_content n s (swap i j s)"
  using assms by (simp add: same_content_def swap_invar swap_rest swap_items nth_swap_nth)

lemma keys_swap:
  "invar s \<Longrightarrow> i < length (items s) \<Longrightarrow> j < length (items s) \<Longrightarrow>
     keys (swap i j s) = swap_nth i j (keys s)"
  by (simp add: keys_def swap_rest swap_items map_swap_nth)

lemma length_keys [simp]: "length (keys s) = length (items s)"
  by (simp add: keys_def)

lemma lt_keys:
  "invar s \<Longrightarrow> i < length (items s) \<Longrightarrow> j < length (items s) \<Longrightarrow> lt s i j \<longleftrightarrow> keys s ! i < keys s ! j"
  by (simp add: lt_key keys_def)

lemma heap_up_correct:
  assumes "invar s" and "j < n" and "n \<le> length (items s)"
    and "heap_but (keys s) n j" and "below_ok (keys s) n j"
  shows "same_content n s (heap_up lt swap j s) \<and> heap_upto (keys (heap_up lt swap j s)) n"
  using assms
proof (induction j arbitrary: s rule: less_induct)
  case (less j)
  have jl: "j < length (items s)" using less.prems by simp
  show ?case
  proof (cases "par j = j \<or> \<not> lt s j (par j)")
    case True
    then have up: "heap_up lt swap j s = s" by (auto simp: heap_up.simps [of lt swap j] par_def Let_def)
    have "above_ok (keys s) j"
    proof (cases "j = 0")
      case False
      with True less.prems(1) jl show ?thesis
        using par_less [of j] by (auto simp: above_ok_def lt_keys)
    qed (simp add: above_ok_def)
    with less.prems up show ?thesis by (simp add: same_content_refl heap_but_restored)
  next
    case False
    define i where "i = par j"
    define t where "t = swap i j s"
    have j: "0 < j" and ij: "i < j" using False par_less [of j] by (auto simp: par_fix_iff i_def)
    have up: "heap_up lt swap j s = heap_up lt swap i t"
      using False by (simp add: heap_up.simps [of lt swap j] par_def Let_def i_def t_def)
    have lt: "keys s ! j < keys s ! i" using False less.prems(1) jl ij by (simp add: lt_keys i_def)
    have same: "same_content n s t" unfolding t_def
      using less.prems ij by (intro same_content_swap) simp_all
    have "heap_but (keys t) n i \<and> below_ok (keys t) n i"
      using sift_up_step [OF less.prems(4,5) _ j less.prems(2) _ lt] less.prems(1,3) ij jl
      by (simp add: keys_swap t_def i_def)
    then have "same_content n t (heap_up lt swap i t) \<and> heap_upto (keys (heap_up lt swap i t)) n"
      using less.prems(2,3) ij same same_content_length [OF same]
      by (intro less.IH) (simp_all add: same_content_def)
    with up same show ?thesis using same_content_trans by auto
  qed
qed

lemma heap_down_correct:
  assumes "invar s" and "i < n" and "n \<le> length (items s)" and "heap_but (keys s) n i"
    and "heap_down lt swap i n s = (k, s')"
  shows "same_content n s s' \<and> i \<le> k \<and>
    (if k = i then s' = s \<and> below_ok (keys s) n i else heap_upto (keys s') n)
    \<and> (above_ok (keys s) i \<longrightarrow> heap_upto (keys s') n)"
  using assms
proof (induction "n - i" arbitrary: i s rule: less_induct)
  case less
  define j where "j = (if 2 * i + 2 < n \<and> lt s (2 * i + 2) (2 * i + 1) then 2 * i + 2 else 2 * i + 1)"
  show ?case
  proof (cases "n \<le> 2 * i + 1 \<or> \<not> lt s j i")
    case True
    then have r: "k = i" "s' = s" using less.prems(5)
      by (auto simp: heap_down.simps [of lt swap i] Let_def j_def split: if_splits)
    have "below_ok (keys s) n i"
    proof (cases "n \<le> 2 * i + 1")
      case True
      then show ?thesis by (auto simp: below_ok_def par_eq_iff)
    next
      case False
      with True have "\<not> lt s j i" by simp
      with False less.prems(1-3) show ?thesis
        by (fastforce simp: below_ok_def par_eq_iff j_def lt_keys not_less split: if_splits)
    qed
    with r less.prems show ?thesis by (simp add: same_content_refl heap_but_restored)
  next
    case False
    define t where "t = swap i j s"
    have j: "0 < j" "j < n" "i < j" "par j = i"
      using False by (auto simp: j_def par_def)
    have jl: "j < length (items s)" "i < length (items s)" using j less.prems(3) by simp_all
    have eq: "heap_down lt swap j n t = (k, s')"
      using False less.prems(5)
      by (auto simp: heap_down.simps [of lt swap i] Let_def j_def t_def split: if_splits)
    have lt: "keys s ! j < keys s ! i" using False less.prems(1) jl by (simp add: lt_keys)
    have small: "\<forall>m<n. 0 < m \<longrightarrow> par m = i \<longrightarrow> keys s ! j \<le> keys s ! m"
      using False less.prems(1,3) by (auto simp: par_eq_iff j_def lt_keys)
    have same: "same_content n s t" unfolding t_def
      using less.prems j by (intro same_content_swap) simp_all
    have "heap_but (keys t) n j \<and> above_ok (keys t) j"
      using sift_down_step [OF less.prems(4) j(4,1,2) _ small lt] less.prems(1,3) jl
      by (simp add: keys_swap t_def)
    then have "same_content n t s' \<and> j \<le> k \<and> heap_upto (keys s') n"
      using less.hyps [of j t] j eq less.prems(3) same same_content_length [OF same]
      by (auto simp: same_content_def)
    with same j show ?thesis using same_content_trans by auto
  qed
qed

lemma sift_correct:
  assumes "invar s" and "i < n" and "n \<le> length (items s)" and "heap_but (keys s) n i"
    and "heap_down lt swap i n s = (k, s1)"
  shows "same_content n s (if i < k then s1 else heap_up lt swap i s1) \<and>
    heap_upto (keys (if i < k then s1 else heap_up lt swap i s1)) n"
proof -
  note down = heap_down_correct [OF assms]
  show ?thesis
  proof (cases "i < k")
    case True
    with down show ?thesis by simp
  next
    case False
    with down have "s1 = s" and "below_ok (keys s) n i" by (auto split: if_splits)
    with heap_up_correct [OF assms(1-4)] False show ?thesis by simp
  qed
qed

text \<open>\<open>heap.Fix\<close> after one element changed its priority: the whole array is a heap again.\<close>

lemma heap_fix_correct:
  assumes "invar s" and "i < length (items s)" and "heap_but (keys s) (length (items s)) i"
  shows "same_content (length (items s)) s (heap_fix len lt swap i s)
    \<and> heap_upto (keys (heap_fix len lt swap i s)) (length (items s))"
  using sift_correct [OF assms(1,2) order_refl assms(3)] assms(1)
  by (simp add: heap_fix_def len_items split: prod.split)

text \<open>The root of a heap has the least priority of all.\<close>

lemma root_least:
  assumes "heap_upto (keys s) (length (items s))" and "a \<in> set (items s)"
  shows "key (rest s) (items s ! 0) \<le> key (rest s) a"
proof -
  obtain j where j: "j < length (items s)" "a = items s ! j"
    using assms(2) by (auto simp: in_set_conv_nth)
  then have "0 < length (items s)" by linarith
  with heap_upto_root [OF assms(1) j(1)] j show ?thesis
    by (simp add: keys_def)
qed

end

text \<open>
  \<open>heap.Interface\<close> adds \<open>Push\<close> and \<open>Pop\<close> at the end of the array; \<open>pushable\<close> is what a caller
  of \<open>Push\<close> must see to.
\<close>

locale heap_container = heap_interface len lt swap items rest key invar
  for len :: "'s \<Rightarrow> nat" and lt :: "'s \<Rightarrow> nat \<Rightarrow> nat \<Rightarrow> bool" and swap :: "nat \<Rightarrow> nat \<Rightarrow> 's \<Rightarrow> 's"
    and items :: "'s \<Rightarrow> 'a list" and rest :: "'s \<Rightarrow> 'r" and key :: "'r \<Rightarrow> 'a \<Rightarrow> 'k::linorder" and invar :: "'s \<Rightarrow> bool" +
  fixes push :: "'a \<Rightarrow> 's \<Rightarrow> 's"
    and pop :: "'s \<Rightarrow> 'a \<times> 's"
    and pushable :: "'a \<Rightarrow> 's \<Rightarrow> bool"
  assumes push_items: "invar s \<Longrightarrow> pushable x s \<Longrightarrow> items (push x s) = items s @ [x]"
    and push_rest: "invar s \<Longrightarrow> pushable x s \<Longrightarrow> rest (push x s) = rest s"
    and push_invar: "invar s \<Longrightarrow> pushable x s \<Longrightarrow> invar (push x s)"
    and pop_items: "invar s \<Longrightarrow> items s \<noteq> [] \<Longrightarrow>
      fst (pop s) = last (items s) \<and> items (snd (pop s)) = butlast (items s)"
    and pop_rest: "invar s \<Longrightarrow> items s \<noteq> [] \<Longrightarrow> rest (snd (pop s)) = rest s"
    and pop_invar: "invar s \<Longrightarrow> items s \<noteq> [] \<Longrightarrow> invar (snd (pop s))"
begin

lemma heap_push_correct:
  assumes "invar s" and "pushable x s" and "heap_upto (keys s) (length (items s))"
  shows "invar (heap_push len lt swap push x s) \<and> rest (heap_push len lt swap push x s) = rest s
    \<and> mset (items (heap_push len lt swap push x s)) = add_mset x (mset (items s))
    \<and> heap_upto (keys (heap_push len lt swap push x s)) (length (items (heap_push len lt swap push x s)))"
proof -
  let ?t = "push x s" and ?n = "Suc (length (items s))"
  let ?u = "heap_up lt swap (length (items s)) ?t"
  have t: "invar ?t" "items ?t = items s @ [x]" "rest ?t = rest s"
    using assms by (simp_all add: push_invar push_items push_rest)
  have keys: "keys ?t = keys s @ [key (rest s) x]" using t by (simp add: keys_def)
  have "heap_but (keys ?t) ?n (length (items s))"
    using heap_but_append [of "keys s"] assms(3) by (simp add: keys)
  moreover have "below_ok (keys ?t) ?n (length (items s))" by (rule below_ok_last)
  ultimately have "same_content ?n ?t ?u \<and> heap_upto (keys ?u) ?n"
    using t by (intro heap_up_correct) simp_all
  then show ?thesis using t same_content_length [of ?n ?t ?u]
    by (simp add: heap_push_def Let_def len_items same_content_def)
qed

lemma heap_remove_correct:
  assumes "invar s" and "i < length (items s)" and "heap_upto (keys s) (length (items s))"
  shows "fst (heap_remove len lt swap pop i s) = items s ! i
    \<and> invar (snd (heap_remove len lt swap pop i s)) \<and> rest (snd (heap_remove len lt swap pop i s)) = rest s
    \<and> mset (items (snd (heap_remove len lt swap pop i s))) = mset (items s) - {#items s ! i#}
    \<and> heap_upto (keys (snd (heap_remove len lt swap pop i s))) (length (items s) - 1)"
proof -
  define n where "n = length (items s) - 1"
  define t where "t = (if n \<noteq> i then (case heap_down lt swap i n (swap i n s) of (k, s2) \<Rightarrow>
      if i < k then s2 else heap_up lt swap i s2) else s)"
  have n: "i \<le> n" "n < length (items s)" using assms(2) by (auto simp: n_def)
  have t: "invar t \<and> rest t = rest s \<and> mset (items t) = mset (items s) \<and> items t ! n = items s ! i
      \<and> heap_upto (keys t) n"
  proof (cases "n = i")
    case True
    with assms n show ?thesis by (auto simp: t_def intro: heap_upto_le)
  next
    case False
    let ?u = "swap i n s"
    have in_n: "i < n" using False n by simp
    have u: "same_content (Suc n) s ?u"
      using assms(1,2) n by (intro same_content_swap) simp_all
    have ul: "length (items ?u) = length (items s)" using u by (rule same_content_length)
    have "items ?u ! n = items s ! i"
      using assms(1,2) n by (simp add: swap_items nth_swap_nth)
    moreover have "heap_but (keys ?u) n i"
    proof (rule heap_but_update [of "keys s"])
      show "heap_but (keys s) n i"
        using heap_upto_le [OF assms(3)] n in_n by (intro heap_butI) simp_all
      show "\<forall>j<n. j \<noteq> i \<longrightarrow> keys ?u ! j = keys s ! j"
        using assms(1,2) n by (simp add: keys_swap nth_swap_nth)
    qed (use n in_n ul in simp_all)
    moreover obtain k s2 where d: "heap_down lt swap i n ?u = (k, s2)" by fastforce
    ultimately have "same_content n ?u t \<and> heap_upto (keys t) n \<and> items ?u ! n = items s ! i"
      using sift_correct [of ?u i n k s2] u ul in_n n False
      by (simp add: t_def same_content_def)
    then show ?thesis using u ul n by (simp add: same_content_def)
  qed
  then have tl: "length (items t) = Suc n" using n by (metis assms(2) n_def Suc_diff_1 gr_implies_not0 neq0_conv size_mset)
  then have ne: "items t \<noteq> []" by auto
  have last: "last (items t) = items t ! n" using tl ne by (simp add: last_conv_nth)
  have keys_pop: "keys (snd (pop t)) = butlast (keys t)"
    using t ne by (simp add: keys_def pop_rest pop_items map_butlast)
  have "heap_upto (butlast (keys t)) n"
    using t tl by (intro heap_upto_butlast) simp_all
  moreover have "heap_remove len lt swap pop i s = pop t"
    using assms(1) by (simp add: heap_remove_def t_def n_def len_items Let_def)
  ultimately show ?thesis using t ne last keys_pop pop_items [of t] pop_rest [of t] pop_invar [of t]
    by (simp add: n_def mset_butlast)
qed

end

end
