(* ===== verification/Scanner.thy ===== *)
theory Scanner
  imports WadRay GoHeap "HOL-Library.Product_Lexorder"
begin

text \<open>
  \<open>internal/liquidation/scanner/scanner.go\<close>: the tracked positions, their health factors and
  the priority queue that keeps the most dangerous one in front.

  The map and the queue share \<open>*UserPosition\<close> pointers. There is one object per user in the
  map, so the user's address serves as the pointer: \<open>positions\<close> is the store and \<open>queue\<close> a
  list of addresses, and writing \<open>heapIndex\<close> through the queue changes the object the map
  holds. What a caller does to an object it has handed over is not modelled. Every method
  holds the scanner's mutex, so it is one step. Ranging over a Go map has no fixed order:
  the functions that do so take the order of the keys as an argument.
\<close>

section \<open>Data\<close>

record collateralEntry =
  c_marketID :: i64
  c_assetAddress :: address
  c_supplyBalance :: int
  c_supplyIndex :: "int option"
  c_liquidationThreshold :: int
  c_liquidationBonus :: int
  c_priceUSD :: int
  c_decimals :: int

record debtEntry =
  d_marketID :: i64
  d_assetAddress :: address
  d_borrowBalance :: int
  d_borrowIndex :: "int option"
  d_priceUSD :: int
  d_decimals :: int

record userPosition =
  userAddress :: address
  chainID :: i64
  collaterals :: "collateralEntry list"
  debts :: "debtEntry list"
  healthFactor :: "int option"
  totalCollateralUSD :: "int option"
  totalDebtUSD :: "int option"
  heapIndex :: int

record scanner =
  positions :: "(address, userPosition) fmap"
  queue :: "address list"

definition newScanner :: scanner where
  "newScanner = \<lparr>positions = fmempty, queue = []\<rparr>"

text \<open>\<open>IndexProvider\<close>: the extrapolated index of a market at a time, if the market is known.\<close>

type_synonym indexFn = "i64 \<Rightarrow> i64 \<Rightarrow> int option"

section \<open>The heap of positions\<close>

text \<open>Reading \<open>h[i].HealthFactor\<close>; a queued address is always stored (\<open>queue_ok\<close> below).\<close>

definition healthOf :: "(address, userPosition) fmap \<Rightarrow> address \<Rightarrow> int option" where
  "healthOf ps a = (case fmlookup ps a of None \<Rightarrow> None | Some p \<Rightarrow> healthFactor p)"

definition setHeapIndex :: "address \<Rightarrow> int \<Rightarrow> scanner \<Rightarrow> scanner" where
  "setHeapIndex a k s = (case fmlookup (positions s) a of None \<Rightarrow> s
     | Some p \<Rightarrow> s\<lparr>positions := fmupd a (p\<lparr>heapIndex := k\<rparr>) (positions s)\<rparr>)"

definition phLen :: "scanner \<Rightarrow> nat" where
  "phLen h = length (queue h)"

definition phLess :: "scanner \<Rightarrow> nat \<Rightarrow> nat \<Rightarrow> bool" where
  "phLess h i j = (case healthOf (positions h) (queue h ! i) of
       None \<Rightarrow> False
     | Some hi \<Rightarrow> (case healthOf (positions h) (queue h ! j) of
           None \<Rightarrow> True
         | Some hj \<Rightarrow> hi < hj))"

definition phSwap :: "nat \<Rightarrow> nat \<Rightarrow> scanner \<Rightarrow> scanner" where
  "phSwap i j h =
     (let h1 = h\<lparr>queue := (queue h)[i := queue h ! j, j := queue h ! i]\<rparr>;
          h2 = setHeapIndex (queue h1 ! i) (int i) h1
      in setHeapIndex (queue h2 ! j) (int j) h2)"

definition phPush :: "address \<Rightarrow> scanner \<Rightarrow> scanner" where
  "phPush pos h =
     (let h1 = setHeapIndex pos (int (length (queue h))) h in h1\<lparr>queue := queue h1 @ [pos]\<rparr>)"

definition phPop :: "scanner \<Rightarrow> address \<times> scanner" where
  "phPop h =
     (let old = queue h; n = length old; pos = old ! (n - 1);
          h1 = setHeapIndex pos (- 1) h
      in (pos, h1\<lparr>queue := take (n - 1) old\<rparr>))"

section \<open>Health factors\<close>

text \<open>
  Principal times current index over the user's index. The body of both loops, with
  the balance, the user's index and the current one: the balance itself where the user's
  index is nil or not positive.
\<close>

definition actualAmount :: "int \<Rightarrow> int option \<Rightarrow> int \<Rightarrow> int option" where
  "actualAmount balance userIdx currentIdx =
     (case userIdx of
        Some idx \<Rightarrow> (if 0 < idx then do {
            ratio \<leftarrow> rayDiv currentIdx idx;
            let actual = rayMul (wadToRay balance) ratio;
            Some (rayToWad actual)
          } else Some balance)
      | None \<Rightarrow> Some balance)"

text \<open>\<open>new(big.Int).Exp(10, decimals, nil)\<close>, which is 1 for an exponent that is not positive.\<close>

definition decimalsFactor :: "int \<Rightarrow> int" where
  "decimalsFactor d = (if d \<le> 0 then 1 else 10 ^ nat d)"

definition usdValue :: "int \<Rightarrow> int \<Rightarrow> int \<Rightarrow> int" where
  "usdValue amount price d = big_div (amount * price) (decimalsFactor d)"

definition indexOrRay :: "int option \<Rightarrow> int" where
  "indexOrRay r = (case r of None \<Rightarrow> RAY | Some i \<Rightarrow> i)"

fun weightedCollateral :: "indexFn \<Rightarrow> i64 \<Rightarrow> collateralEntry list \<Rightarrow> int \<Rightarrow> int option" where
  "weightedCollateral liqIdx now [] totalWeighted = Some totalWeighted"
| "weightedCollateral liqIdx now (c # cs) totalWeighted = do {
     let currentLiqIdx = indexOrRay (liqIdx (c_marketID c) now);
     actualBalance \<leftarrow> actualAmount (c_supplyBalance c) (c_supplyIndex c) currentLiqIdx;
     let val = usdValue actualBalance (c_priceUSD c) (c_decimals c);
     let weighted = rayMul (wadToRay val) (c_liquidationThreshold c);
     weightedCollateral liqIdx now cs (totalWeighted + weighted)
   }"

fun sumDebt :: "indexFn \<Rightarrow> i64 \<Rightarrow> debtEntry list \<Rightarrow> int \<Rightarrow> int option" where
  "sumDebt borIdx now [] totalDebt = Some totalDebt"
| "sumDebt borIdx now (d # ds) totalDebt = do {
     let currentBorrowIdx = indexOrRay (borIdx (d_marketID d) now);
     actualDebt \<leftarrow> actualAmount (d_borrowBalance d) (d_borrowIndex d) currentBorrowIdx;
     let val = usdValue actualDebt (d_priceUSD d) (d_decimals d);
     sumDebt borIdx now ds (totalDebt + wadToRay val)
   }"

definition calculateHealthFactor :: "userPosition \<Rightarrow> indexFn \<Rightarrow> indexFn \<Rightarrow> i64 \<Rightarrow> int option" where
  "calculateHealthFactor pos liqIdx borIdx now = do {
     totalWeightedCollateral \<leftarrow> weightedCollateral liqIdx now (collaterals pos) 0;
     totalDebt \<leftarrow> sumDebt borIdx now (debts pos) 0;
     if totalDebt = 0 then Some (1000 * RAY) else rayDiv totalWeightedCollateral totalDebt
   }"

section \<open>The scanner's operations\<close>

abbreviation fixAt :: "nat \<Rightarrow> scanner \<Rightarrow> scanner" where
  "fixAt \<equiv> heap_fix phLen phLess phSwap"

definition setPosition :: "userPosition \<Rightarrow> scanner \<Rightarrow> scanner" where
  "setPosition pos s =
     (case fmlookup (positions s) (userAddress pos) of
        Some existing \<Rightarrow>
          (let updated = existing\<lparr>collaterals := collaterals pos, debts := debts pos,
                 healthFactor := healthFactor pos, totalCollateralUSD := totalCollateralUSD pos,
                 totalDebtUSD := totalDebtUSD pos\<rparr>;
               s1 = s\<lparr>positions := fmupd (userAddress pos) updated (positions s)\<rparr>
           in if 0 \<le> heapIndex updated then fixAt (nat (heapIndex updated)) s1 else s1)
      | None \<Rightarrow>
          (let s1 = s\<lparr>positions := fmupd (userAddress pos) (pos\<lparr>heapIndex := - 1\<rparr>) (positions s)\<rparr>
           in heap_push phLen phLess phSwap phPush (userAddress pos) s1))"

definition removePosition :: "address \<Rightarrow> scanner \<Rightarrow> scanner" where
  "removePosition user s =
     (case fmlookup (positions s) user of
        Some pos \<Rightarrow>
          (let s1 = (if 0 \<le> heapIndex pos
                     then snd (heap_remove phLen phLess phSwap phPop (nat (heapIndex pos)) s) else s)
           in s1\<lparr>positions := fmdrop user (positions s1)\<rparr>)
      | None \<Rightarrow> s)"

text \<open>One turn of \<open>RefreshAll\<close>'s loop, for the position stored under \<open>a\<close>.\<close>

definition refreshOne :: "indexFn \<Rightarrow> indexFn \<Rightarrow> i64 \<Rightarrow> address \<Rightarrow> scanner \<Rightarrow> scanner option" where
  "refreshOne liqIdx borIdx now a s =
     (case fmlookup (positions s) a of
        None \<Rightarrow> Some s
      | Some pos \<Rightarrow> do {
          hf \<leftarrow> calculateHealthFactor pos liqIdx borIdx now;
          let s1 = s\<lparr>positions := fmupd a (pos\<lparr>healthFactor := Some hf\<rparr>) (positions s)\<rparr>;
          Some (if 0 \<le> heapIndex pos then fixAt (nat (heapIndex pos)) s1 else s1)
        })"

fun refreshAll :: "indexFn \<Rightarrow> indexFn \<Rightarrow> i64 \<Rightarrow> address list \<Rightarrow> scanner \<Rightarrow> scanner option" where
  "refreshAll liqIdx borIdx now [] s = Some s"
| "refreshAll liqIdx borIdx now (a # as) s = do {
     s1 \<leftarrow> refreshOne liqIdx borIdx now a s;
     refreshAll liqIdx borIdx now as s1
   }"

definition unhealthy :: "userPosition \<Rightarrow> bool" where
  "unhealthy pos = (case healthFactor pos of None \<Rightarrow> False | Some hf \<Rightarrow> hf < RAY)"

fun findLiquidatable :: "address list \<Rightarrow> scanner \<Rightarrow> userPosition list" where
  "findLiquidatable [] s = []"
| "findLiquidatable (a # as) s =
     (case fmlookup (positions s) a of
        None \<Rightarrow> findLiquidatable as s
      | Some pos \<Rightarrow> if unhealthy pos then pos # findLiquidatable as s else findLiquidatable as s)"

definition mostDangerous :: "scanner \<Rightarrow> userPosition option" where
  "mostDangerous s = (case queue s of [] \<Rightarrow> None | a # _ \<Rightarrow> fmlookup (positions s) a)"

definition positionCount :: "scanner \<Rightarrow> nat" where
  "positionCount s = fmsize (positions s)"

section \<open>The positions are a heap in Go's sense\<close>

text \<open>The queue names each stored object once and every object knows its place in it.\<close>

definition queue_ok :: "scanner \<Rightarrow> bool" where
  "queue_ok s \<longleftrightarrow> distinct (queue s) \<and> (\<forall>i<length (queue s).
     \<exists>p. fmlookup (positions s) (queue s ! i) = Some p \<and> heapIndex p = int i)"

text \<open>The store without the heap's own bookkeeping, and the priority it gives a user: no health
  factor sorts after every health factor.\<close>

definition posView :: "scanner \<Rightarrow> (address, userPosition) fmap" where
  "posView s = fmmap (heapIndex_update (\<lambda>_. 0)) (positions s)"

definition hfKey :: "int option \<Rightarrow> bool \<times> int" where
  "hfKey hf = (case hf of None \<Rightarrow> (True, 0) | Some h \<Rightarrow> (False, h))"

definition viewKey :: "(address, userPosition) fmap \<Rightarrow> address \<Rightarrow> bool \<times> int" where
  "viewKey ps a = hfKey (healthOf ps a)"

definition pushable :: "address \<Rightarrow> scanner \<Rightarrow> bool" where
  "pushable a s \<longleftrightarrow> a |\<in>| fmdom (positions s) \<and> a \<notin> set (queue s)"

lemma lookup_posView: "fmlookup (posView s) a = map_option (heapIndex_update (\<lambda>_. 0)) (fmlookup (positions s) a)"
  by (simp add: posView_def)

lemma healthOf_posView [simp]: "healthOf (posView s) a = healthOf (positions s) a"
  by (simp add: healthOf_def lookup_posView split: option.split)

lemma posView_dom [simp]: "fmdom (posView s) = fmdom (positions s)"
  by (simp add: posView_def)

lemma setHeapIndex_queue [simp]: "queue (setHeapIndex a k s) = queue s"
  by (simp add: setHeapIndex_def split: option.split)

lemma setHeapIndex_lookup:
  "fmlookup (positions (setHeapIndex a k s)) b =
     (if b = a then map_option (heapIndex_update (\<lambda>_. k)) (fmlookup (positions s) a)
      else fmlookup (positions s) b)"
  by (simp add: setHeapIndex_def split: option.split)

lemma posView_eqI:
  "(\<And>a. map_option (heapIndex_update (\<lambda>_. 0)) (fmlookup (positions s) a)
      = map_option (heapIndex_update (\<lambda>_. 0)) (fmlookup (positions t) a)) \<Longrightarrow> posView s = posView t"
  by (rule fmap_ext) (simp add: lookup_posView)

lemma setHeapIndex_view [simp]: "posView (setHeapIndex a k s) = posView s"
  by (rule posView_eqI) (simp add: setHeapIndex_lookup option.map_comp comp_def)

lemma posView_queue_update [simp]: "posView (s\<lparr>queue := q\<rparr>) = posView s"
  by (simp add: posView_def)

lemma hfKey_less: "hfKey x < hfKey y \<longleftrightarrow>
    (case x of None \<Rightarrow> False | Some h \<Rightarrow> (case y of None \<Rightarrow> True | Some h' \<Rightarrow> h < h'))"
  by (simp add: hfKey_def less_prod_def split: option.split)

lemma phLess_key:
  "phLess h i j \<longleftrightarrow> viewKey (posView h) (queue h ! i) < viewKey (posView h) (queue h ! j)"
  by (simp add: phLess_def viewKey_def hfKey_less)

lemma phSwap_queue [simp]: "queue (phSwap i j h) = swap_nth i j (queue h)"
  by (simp add: phSwap_def swap_nth_def Let_def)

lemma phSwap_view [simp]: "posView (phSwap i j h) = posView h"
  by (simp add: phSwap_def Let_def)

lemma distinct_swap_nth: "i < length xs \<Longrightarrow> j < length xs \<Longrightarrow> distinct xs \<Longrightarrow> distinct (swap_nth i j xs)"
  by (simp add: swap_nth_def distinct_swap)

lemma phSwap_lookup:
  assumes "i < length (queue h)" and "j < length (queue h)"
  shows "fmlookup (positions (phSwap i j h)) a =
    (if a = queue h ! i then map_option (heapIndex_update (\<lambda>_. int j)) (fmlookup (positions h) a)
     else if a = queue h ! j then map_option (heapIndex_update (\<lambda>_. int i)) (fmlookup (positions h) a)
     else fmlookup (positions h) a)"
  using assms by (simp add: phSwap_def Let_def setHeapIndex_lookup nth_list_update option.map_comp comp_def)

lemma phSwap_ok:
  assumes "queue_ok h" and ij: "i < length (queue h)" "j < length (queue h)"
  shows "queue_ok (phSwap i j h)"
proof -
  have d: "distinct (queue h)" using assms(1) by (simp add: queue_ok_def)
  have "\<exists>p. fmlookup (positions (phSwap i j h)) (swap_nth i j (queue h) ! k) = Some p \<and> heapIndex p = int k"
    if k: "k < length (queue h)" for k
  proof -
    obtain p where "fmlookup (positions h) (swap_nth i j (queue h) ! k) = Some p"
      using assms k by (cases "k = j"; cases "k = i") (auto simp: queue_ok_def nth_swap_nth)
    moreover obtain q where "fmlookup (positions h) (queue h ! k) = Some q" "heapIndex q = int k"
      using assms(1) k by (auto simp: queue_ok_def)
    ultimately show ?thesis using d ij k
      by (auto simp: phSwap_lookup nth_swap_nth nth_eq_iff_index_eq)
  qed
  with d ij show ?thesis by (simp add: queue_ok_def distinct_swap_nth)
qed

lemma phPush_ok:
  assumes "queue_ok s" and "pushable x s"
  shows "queue_ok (phPush x s)"
proof -
  obtain p where p: "fmlookup (positions s) x = Some p" using assms(2) by (auto simp: pushable_def fmlookup_dom_iff)
  have "\<exists>p. fmlookup (positions (phPush x s)) ((queue s @ [x]) ! k) = Some p \<and> heapIndex p = int k"
    if "k < Suc (length (queue s))" for k
  proof (cases "k = length (queue s)")
    case True
    with p show ?thesis by (simp add: phPush_def Let_def setHeapIndex_lookup)
  next
    case False
    with that have k: "k < length (queue s)" by simp
    then have "queue s ! k \<noteq> x" using assms(2) by (auto simp: pushable_def)
    with k assms(1) show ?thesis
      by (simp add: phPush_def Let_def setHeapIndex_lookup queue_ok_def nth_append)
  qed
  with assms show ?thesis by (simp add: queue_ok_def pushable_def phPush_def Let_def)
qed

lemma phPop_ok:
  assumes "queue_ok s" and "queue s \<noteq> []"
  shows "queue_ok (snd (phPop s))"
proof -
  let ?n = "length (queue s) - 1"
  have "\<exists>p. fmlookup (positions (snd (phPop s))) (queue s ! k) = Some p \<and> heapIndex p = int k"
    if "k < ?n" for k
  proof -
    have "queue s ! k \<noteq> queue s ! ?n" using assms that
      by (simp add: queue_ok_def nth_eq_iff_index_eq)
    with assms(1) that show ?thesis
      by (simp add: phPop_def Let_def setHeapIndex_lookup queue_ok_def)
  qed
  with assms show ?thesis by (simp add: queue_ok_def phPop_def Let_def)
qed

interpretation ph: heap_container phLen phLess phSwap queue posView viewKey queue_ok phPush phPop pushable
proof unfold_locales
  show "phLen s = length (queue s)" for s by (simp add: phLen_def)
  show "phLess s i j \<longleftrightarrow> viewKey (posView s) (queue s ! i) < viewKey (posView s) (queue s ! j)" for s i j
    by (rule phLess_key)
  show "queue (phPush x s) = queue s @ [x]" "posView (phPush x s) = posView s" for x s
    by (simp_all add: phPush_def Let_def)
  show "posView (snd (phPop s)) = posView s" for s
    by (simp add: phPop_def Let_def)
  show "fst (phPop s) = last (queue s) \<and> queue (snd (phPop s)) = butlast (queue s)"
    if "queue s \<noteq> []" for s
    using that by (simp add: phPop_def Let_def last_conv_nth butlast_conv_take)
qed (simp_all add: phSwap_ok phPush_ok phPop_ok)

section \<open>The scanner's invariant\<close>

text \<open>
  Every tracked position is in the queue exactly once and knows its place, is stored under
  its own address, and the queue is a heap by health factor.
\<close>

definition addr_ok :: "(address, userPosition) fmap \<Rightarrow> bool" where
  "addr_ok ps \<longleftrightarrow> (\<forall>a p. fmlookup ps a = Some p \<longrightarrow> userAddress p = a)"

definition scanner_ok :: "scanner \<Rightarrow> bool" where
  "scanner_ok s \<longleftrightarrow> queue_ok s \<and> set (queue s) = fmdom' (positions s) \<and> addr_ok (positions s)
     \<and> heap_upto (ph.keys s) (length (queue s))"

lemma addr_ok_upd: "addr_ok ps \<Longrightarrow> userAddress p = a \<Longrightarrow> addr_ok (fmupd a p ps)"
  by (simp add: addr_ok_def)

lemma addr_ok_drop: "addr_ok ps \<Longrightarrow> addr_ok (fmdrop a ps)"
  by (simp add: addr_ok_def)

lemma addr_ok_view [simp]: "addr_ok (posView s) = addr_ok (positions s)"
proof -
  have "(\<forall>p. fmlookup (posView s) a = Some p \<longrightarrow> userAddress p = a)
      = (\<forall>p. fmlookup (positions s) a = Some p \<longrightarrow> userAddress p = a)" for a
    by (cases "fmlookup (positions s) a") (simp_all add: lookup_posView)
  then show ?thesis by (simp only: addr_ok_def)
qed

lemma view_dom' [simp]: "fmdom' (posView s) = fmdom' (positions s)"
  by (simp add: fmdom'_alt_def)

lemma scanner_ok_new [simp]: "scanner_ok newScanner"
  by (simp add: scanner_ok_def newScanner_def queue_ok_def heap_upto_def addr_ok_def)

lemma scanner_ok_queue: "scanner_ok s \<Longrightarrow> queue_ok s"
  by (simp add: scanner_ok_def)

lemma scanner_ok_index:
  assumes "scanner_ok s" and "fmlookup (positions s) a = Some p"
  shows "0 \<le> heapIndex p \<and> nat (heapIndex p) < length (queue s) \<and> queue s ! nat (heapIndex p) = a"
proof -
  have "a \<in> set (queue s)" using assms by (auto simp: scanner_ok_def fmlookup_dom'_iff)
  then obtain i where i: "i < length (queue s)" "queue s ! i = a" by (auto simp: in_set_conv_nth)
  with assms have "heapIndex p = int i" by (auto simp: scanner_ok_def queue_ok_def)
  with i show ?thesis by simp
qed

text \<open>The address and the view of an object: what an equal view says of two stores.\<close>

lemma view_domD: "posView s = posView t \<Longrightarrow> fmdom (positions s) = fmdom (positions t)"
  by (metis posView_dom)

lemma view_lookupD:
  "posView s = posView t \<Longrightarrow> fmlookup (positions s) a = Some p \<Longrightarrow>
     \<exists>q. fmlookup (positions t) a = Some q \<and> q = p\<lparr>heapIndex := heapIndex q\<rparr>"
proof -
  assume v: "posView s = posView t" and p: "fmlookup (positions s) a = Some p"
  from v have "map_option (heapIndex_update (\<lambda>_. 0)) (fmlookup (positions s) a)
      = map_option (heapIndex_update (\<lambda>_. 0)) (fmlookup (positions t) a)"
    by (metis lookup_posView)
  with p obtain q where q: "fmlookup (positions t) a = Some q"
      "p\<lparr>heapIndex := 0\<rparr> = q\<lparr>heapIndex := 0\<rparr>" by (cases "fmlookup (positions t) a") auto
  have "(p\<lparr>heapIndex := 0\<rparr>)\<lparr>heapIndex := heapIndex q\<rparr> = (q\<lparr>heapIndex := 0\<rparr>)\<lparr>heapIndex := heapIndex q\<rparr>"
    by (simp only: q(2))
  then have "p\<lparr>heapIndex := heapIndex q\<rparr> = q" by simp
  with q(1) show ?thesis by metis
qed

text \<open>Rebuilding the invariant after a heap operation: it kept the view it was given, and the
  queue names the view's addresses.\<close>

lemma scanner_okI:
  assumes "queue_ok t" and "heap_upto (ph.keys t) (length (queue t))"
    and "posView t = posView s" and "set (queue t) = fmdom' (positions s)" and "addr_ok (positions s)"
  shows "scanner_ok t"
proof -
  have "fmdom' (positions t) = fmdom' (positions s)" using assms(3) by (metis view_dom')
  moreover have "addr_ok (positions t) = addr_ok (positions s)" using assms(3) by (metis addr_ok_view)
  ultimately show ?thesis using assms by (simp add: scanner_ok_def)
qed

text \<open>Overwriting one object, keeping its place in the queue, disturbs the heap at that place only.\<close>

lemma queue_ok_overwrite:
  assumes "queue_ok s" and "fmlookup (positions s) a = Some p" and "heapIndex p' = heapIndex p"
  shows "queue_ok (s\<lparr>positions := fmupd a p' (positions s)\<rparr>)"
  using assms by (auto simp: queue_ok_def)

lemma heap_but_overwrite:
  assumes ok: "scanner_ok s" and p: "fmlookup (positions s) a = Some p"
  shows "heap_but (ph.keys (s\<lparr>positions := fmupd a p' (positions s)\<rparr>)) (length (queue s)) (nat (heapIndex p))"
proof (rule heap_but_update [of "ph.keys s"])
  let ?t = "s\<lparr>positions := fmupd a p' (positions s)\<rparr>"
  note i = scanner_ok_index [OF ok p]
  show "heap_but (ph.keys s) (length (queue s)) (nat (heapIndex p))"
    using ok i by (intro heap_butI) (simp_all add: scanner_ok_def)
  show "\<forall>j<length (queue s). j \<noteq> nat (heapIndex p) \<longrightarrow> ph.keys ?t ! j = ph.keys s ! j"
  proof (intro allI impI)
    fix j assume j: "j < length (queue s)" "j \<noteq> nat (heapIndex p)"
    have "distinct (queue s)" using ok by (simp add: scanner_ok_def queue_ok_def)
    with i j have "queue s ! j \<noteq> a" by (metis nth_eq_iff_index_eq)
    with j show "ph.keys ?t ! j = ph.keys s ! j"
      by (simp add: ph.keys_def viewKey_def) (simp add: healthOf_def)
  qed
qed (use scanner_ok_index [OF ok p] in simp_all)

text \<open>Overwriting an object and calling \<open>heap.Fix\<close> at its place.\<close>

lemma overwrite_fix:
  assumes ok: "scanner_ok s" and p: "fmlookup (positions s) a = Some p"
    and p': "heapIndex p' = heapIndex p" "userAddress p' = a"
  defines "t \<equiv> s\<lparr>positions := fmupd a p' (positions s)\<rparr>"
  shows "scanner_ok (fixAt (nat (heapIndex p)) t) \<and> posView (fixAt (nat (heapIndex p)) t) = posView t"
proof -
  note i = scanner_ok_index [OF ok p]
  have q: "queue t = queue s" by (simp add: t_def)
  have "queue_ok t" unfolding t_def using ok p p'(1)
    by (intro queue_ok_overwrite) (simp_all add: scanner_ok_def)
  moreover have "heap_but (ph.keys t) (length (queue t)) (nat (heapIndex p))"
    unfolding q unfolding t_def using ok p by (rule heap_but_overwrite)
  ultimately have f: "ph.same_content (length (queue t)) t (fixAt (nat (heapIndex p)) t)"
      "heap_upto (ph.keys (fixAt (nat (heapIndex p)) t)) (length (queue t))"
    using ph.heap_fix_correct [of t "nat (heapIndex p)"] i q by simp_all
  have len: "length (queue (fixAt (nat (heapIndex p)) t)) = length (queue t)"
    using f(1) by (rule ph.same_content_length)
  have "set (queue (fixAt (nat (heapIndex p)) t)) = set (queue t)"
    using f(1) unfolding ph.same_content_def by (metis mset_eq_setD)
  moreover have "a \<in> fmdom' (positions s)" using p by (rule fmdom'I)
  then have "set (queue t) = fmdom' (positions t)" using ok
    by (simp add: t_def scanner_ok_def insert_absorb)
  moreover have "addr_ok (positions t)" using ok p'(2)
    by (simp add: t_def scanner_ok_def addr_ok_upd)
  ultimately have "scanner_ok (fixAt (nat (heapIndex p)) t)"
    using f unfolding ph.same_content_def by (intro scanner_okI [of _ t]) (simp_all only: len)
  with f(1) show ?thesis by (simp add: ph.same_content_def)
qed

section \<open>Every operation refines an update of a plain map\<close>

text \<open>
  What the scanner is meant to be, without queue and indices: a map from users to positions.
  Replacing a position keeps the chain id of the first one, as the code does.
\<close>

definition specSet :: "userPosition \<Rightarrow> (address, userPosition) fmap \<Rightarrow> (address, userPosition) fmap" where
  "specSet pos v = fmupd (userAddress pos)
     (pos\<lparr>chainID := (case fmlookup v (userAddress pos) of None \<Rightarrow> chainID pos | Some old \<Rightarrow> chainID old),
          heapIndex := 0\<rparr>) v"

lemma posView_upd: "posView (s\<lparr>positions := fmupd a p (positions s)\<rparr>) = fmupd a (p\<lparr>heapIndex := 0\<rparr>) (posView s)"
  by (rule fmap_ext) (simp add: lookup_posView)

lemma posView_drop: "posView (s\<lparr>positions := fmdrop a (positions s)\<rparr>) = fmdrop a (posView s)"
  by (rule fmap_ext) (simp add: lookup_posView)

lemma setPosition_refines [inv_intros]:
  assumes ok: "scanner_ok s"
  shows "scanner_ok (setPosition pos s) \<and> posView (setPosition pos s) = specSet pos (posView s)"
proof (cases "fmlookup (positions s) (userAddress pos)")
  case None
  define a where "a = userAddress pos"
  define t where "t = s\<lparr>positions := fmupd a (pos\<lparr>heapIndex := - 1\<rparr>) (positions s)\<rparr>"
  let ?u = "heap_push phLen phLess phSwap phPush a t"
  have "a \<notin> fmdom' (positions s)" using None by (simp add: a_def fmlookup_dom'_iff)
  then have fresh: "a \<notin> set (queue s)" using ok by (simp add: scanner_ok_def)
  have "queue_ok t"
    using ok fresh by (auto simp: t_def scanner_ok_def queue_ok_def)
  moreover have "pushable a t" using fresh by (simp add: pushable_def t_def)
  moreover have "ph.keys t = ph.keys s"
    using fresh by (auto simp: ph.keys_def viewKey_def t_def) (auto simp: healthOf_def)
  ultimately have u: "queue_ok ?u \<and> posView ?u = posView t \<and> mset (queue ?u) = add_mset a (mset (queue t))
      \<and> heap_upto (ph.keys ?u) (length (queue ?u))"
    using ok by (intro ph.heap_push_correct) (simp_all add: scanner_ok_def t_def)
  then have "set (queue ?u) = insert a (set (queue t))" by (metis set_mset_mset set_mset_add_mset_insert)
  then have "set (queue ?u) = fmdom' (positions t)" using ok by (simp add: t_def scanner_ok_def)
  moreover have "addr_ok (positions t)" using ok by (simp add: t_def scanner_ok_def addr_ok_upd a_def)
  ultimately have "scanner_ok ?u" using u by (intro scanner_okI [of _ t]) simp_all
  with u None show ?thesis
    by (simp add: setPosition_def specSet_def lookup_posView t_def posView_upd flip: a_def)
next
  case (Some e)
  define a where "a = userAddress pos"
  define e' where "e' = e\<lparr>collaterals := collaterals pos, debts := debts pos, healthFactor := healthFactor pos,
      totalCollateralUSD := totalCollateralUSD pos, totalDebtUSD := totalDebtUSD pos\<rparr>"
  have e: "fmlookup (positions s) a = Some e" using Some by (simp add: a_def)
  have ea: "userAddress e = a" using ok e by (simp add: scanner_ok_def addr_ok_def)
  have "setPosition pos s = fixAt (nat (heapIndex e)) (s\<lparr>positions := fmupd a e' (positions s)\<rparr>)"
    using e scanner_ok_index [OF ok e] by (simp add: setPosition_def a_def e'_def)
  moreover have "scanner_ok (fixAt (nat (heapIndex e)) (s\<lparr>positions := fmupd a e' (positions s)\<rparr>)) \<and>
      posView (fixAt (nat (heapIndex e)) (s\<lparr>positions := fmupd a e' (positions s)\<rparr>))
        = posView (s\<lparr>positions := fmupd a e' (positions s)\<rparr>)"
    using ea by (intro overwrite_fix ok e) (simp_all add: e'_def)
  moreover have "e'\<lparr>heapIndex := 0\<rparr> = pos\<lparr>chainID := chainID e, heapIndex := 0\<rparr>"
    using ea by (simp add: e'_def a_def)
  ultimately show ?thesis using e
    by (simp add: specSet_def lookup_posView posView_upd flip: a_def)
qed

lemma removePosition_refines [inv_intros]:
  assumes ok: "scanner_ok s"
  shows "scanner_ok (removePosition user s) \<and> posView (removePosition user s) = fmdrop user (posView s)"
proof (cases "fmlookup (positions s) user")
  case None
  then have "fmdrop user (posView s) = posView s"
    by (intro fmap_ext) (simp add: lookup_posView)
  with None ok show ?thesis by (simp add: removePosition_def)
next
  case (Some p)
  note i = scanner_ok_index [OF ok Some]
  define r where "r = snd (heap_remove phLen phLess phSwap phPop (nat (heapIndex p)) s)"
  define t where "t = r\<lparr>positions := fmdrop user (positions r)\<rparr>"
  have eq: "removePosition user s = t" using Some i by (simp add: removePosition_def r_def t_def Let_def)
  have r: "queue_ok r \<and> posView r = posView s \<and> mset (queue r) = mset (queue s) - {#user#}
      \<and> heap_upto (ph.keys r) (length (queue s) - 1)"
    using ph.heap_remove_correct [of s "nat (heapIndex p)"] ok i by (simp add: r_def scanner_ok_def)
  have len: "length (queue r) = length (queue s) - 1"
    using r i by (metis nth_mem size_Diff_singleton size_mset set_mset_mset)
  have "mset (queue r) = mset (remove1 user (queue s))" using r by simp
  then have "set (queue r) = set (remove1 user (queue s))" by (metis set_mset_mset)
  then have q: "set (queue r) = set (queue s) - {user}"
    using ok by (simp add: scanner_ok_def queue_ok_def set_remove1_eq)
  have view: "posView t = fmdrop user (posView s)" using r by (simp add: t_def posView_drop)
  have gone: "user \<notin> set (queue r)" by (simp add: q)
  have "queue_ok t" using r gone by (auto simp: t_def queue_ok_def)
  moreover have "ph.keys t = ph.keys r"
    using gone by (auto simp: ph.keys_def viewKey_def t_def) (auto simp: healthOf_def)
  then have "heap_upto (ph.keys t) (length (queue t))" using r len by (simp add: t_def)
  moreover have "set (queue t) = fmdom' (posView t)"
    using q ok view by (auto simp: t_def scanner_ok_def fmdom'_alt_def)
  moreover have "addr_ok (posView t)" using ok view addr_ok_drop [of "posView s"] by (simp add: scanner_ok_def)
  ultimately have "scanner_ok t" by (simp add: scanner_ok_def)
  with eq view show ?thesis by simp
qed

section \<open>Refreshing the health factors\<close>

lemma actualAmount_returns: "\<exists>a. actualAmount bal idx cur = Some a"
proof (cases idx)
  case (Some i)
  then show ?thesis using rayDiv_returns [of i cur]
    by (cases "0 < i") (auto simp: actualAmount_def Let_def)
qed (simp add: actualAmount_def)

lemma weightedCollateral_returns: "\<exists>w. weightedCollateral liqIdx now cs acc = Some w"
proof (induction cs arbitrary: acc)
  case (Cons c cs)
  obtain a where "actualAmount (c_supplyBalance c) (c_supplyIndex c) (indexOrRay (liqIdx (c_marketID c) now)) = Some a"
    using actualAmount_returns by blast
  with Cons show ?case by (simp add: Let_def)
qed simp

lemma sumDebt_returns: "\<exists>d. sumDebt borIdx now ds acc = Some d"
proof (induction ds arbitrary: acc)
  case (Cons d ds)
  obtain a where "actualAmount (d_borrowBalance d) (d_borrowIndex d) (indexOrRay (borIdx (d_marketID d) now)) = Some a"
    using actualAmount_returns by blast
  with Cons show ?case by (simp add: Let_def)
qed simp

lemma healthFactor_returns [panic_free]: "\<exists>hf. calculateHealthFactor pos liqIdx borIdx now = Some hf"
proof -
  obtain w d where "weightedCollateral liqIdx now (collaterals pos) 0 = Some w"
      "sumDebt borIdx now (debts pos) 0 = Some d"
    using weightedCollateral_returns sumDebt_returns by blast
  then show ?thesis using rayDiv_returns [of d w] by (simp add: calculateHealthFactor_def)
qed

text \<open>The health factor depends on the entries only.\<close>

lemma healthFactor_entries:
  "collaterals p = collaterals q \<Longrightarrow> debts p = debts q \<Longrightarrow>
     calculateHealthFactor p liqIdx borIdx now = calculateHealthFactor q liqIdx borIdx now"
  by (simp add: calculateHealthFactor_def)

definition refreshed :: "indexFn \<Rightarrow> indexFn \<Rightarrow> i64 \<Rightarrow> userPosition \<Rightarrow> userPosition" where
  "refreshed liqIdx borIdx now p = p\<lparr>healthFactor := calculateHealthFactor p liqIdx borIdx now\<rparr>"

lemma refreshed_fields [simp]:
  "userAddress (refreshed l b now p) = userAddress p"
  "collaterals (refreshed l b now p) = collaterals p"
  "debts (refreshed l b now p) = debts p"
  "healthFactor (refreshed l b now p) = calculateHealthFactor p l b now"
  "heapIndex (refreshed l b now p) = heapIndex p"
  by (simp_all add: refreshed_def)

lemma refreshed_idem [simp]: "refreshed l b now (refreshed l b now p) = refreshed l b now p"
  by (simp add: refreshed_def healthFactor_entries [of "p\<lparr>healthFactor := x\<rparr>" p for x])

lemma refreshed_heapIndex: "refreshed l b now p\<lparr>heapIndex := k\<rparr> = refreshed l b now (p\<lparr>heapIndex := k\<rparr>)"
  by (simp add: refreshed_def healthFactor_entries [of "p\<lparr>heapIndex := k\<rparr>" p])

text \<open>What a refresh means for the plain map.\<close>

definition specRefresh :: "indexFn \<Rightarrow> indexFn \<Rightarrow> i64 \<Rightarrow> (address, userPosition) fmap \<Rightarrow> (address, userPosition) fmap" where
  "specRefresh l b now v = fmmap (refreshed l b now) v"

lemma refreshOne_refines:
  assumes ok: "scanner_ok s"
  shows "\<exists>s'. refreshOne l b now a s = Some s' \<and> scanner_ok s' \<and> (\<forall>x. fmlookup (posView s') x =
     (if x = a then map_option (refreshed l b now) (fmlookup (posView s) x) else fmlookup (posView s) x))"
proof (cases "fmlookup (positions s) a")
  case None
  then show ?thesis using ok by (simp add: refreshOne_def lookup_posView)
next
  case (Some p)
  obtain hf where hf: "calculateHealthFactor p l b now = Some hf" using healthFactor_returns by blast
  then have p': "p\<lparr>healthFactor := Some hf\<rparr> = refreshed l b now p" by (simp add: refreshed_def)
  define u where "u = fixAt (nat (heapIndex p)) (s\<lparr>positions := fmupd a (refreshed l b now p) (positions s)\<rparr>)"
  have "userAddress p = a" using ok Some by (simp add: scanner_ok_def addr_ok_def)
  then have u: "scanner_ok u \<and> posView u = posView (s\<lparr>positions := fmupd a (refreshed l b now p) (positions s)\<rparr>)"
    unfolding u_def by (intro overwrite_fix ok Some) simp_all
  then have "posView u = fmupd a (refreshed l b now (p\<lparr>heapIndex := 0\<rparr>)) (posView s)"
    by (simp add: posView_upd refreshed_heapIndex)
  moreover have "fmlookup (posView s) a = Some (p\<lparr>heapIndex := 0\<rparr>)" using Some by (simp add: lookup_posView)
  moreover have "refreshOne l b now a s = Some u"
    using Some hf scanner_ok_index [OF ok Some] by (simp add: refreshOne_def p' u_def Let_def)
  ultimately show ?thesis using u by simp
qed

lemma refreshAll_pointwise:
  "scanner_ok s \<Longrightarrow> \<exists>s'. refreshAll l b now order s = Some s' \<and> scanner_ok s' \<and> (\<forall>x. fmlookup (posView s') x =
     (if x \<in> set order then map_option (refreshed l b now) (fmlookup (posView s) x) else fmlookup (posView s) x))"
proof (induction order arbitrary: s)
  case (Cons a order)
  obtain s1 where s1: "refreshOne l b now a s = Some s1" "scanner_ok s1" "\<forall>x. fmlookup (posView s1) x =
     (if x = a then map_option (refreshed l b now) (fmlookup (posView s) x) else fmlookup (posView s) x)"
    using refreshOne_refines [OF Cons.prems] by blast
  obtain s2 where s2: "refreshAll l b now order s1 = Some s2" "scanner_ok s2" "\<forall>x. fmlookup (posView s2) x =
     (if x \<in> set order then map_option (refreshed l b now) (fmlookup (posView s1) x) else fmlookup (posView s1) x)"
    using Cons.IH [OF s1(2)] by blast
  have "map_option (refreshed l b now) (map_option (refreshed l b now) y) = map_option (refreshed l b now) y" for y
    by (cases y) simp_all
  with s1 s2 show ?case by simp
qed simp

lemma refreshAll_refines [inv_intros]:
  assumes "scanner_ok s" and "set order = fmdom' (positions s)"
  shows "\<exists>s'. refreshAll l b now order s = Some s' \<and> scanner_ok s' \<and> posView s' = specRefresh l b now (posView s)"
proof -
  obtain s' where s': "refreshAll l b now order s = Some s'" "scanner_ok s'" "\<forall>x. fmlookup (posView s') x =
     (if x \<in> set order then map_option (refreshed l b now) (fmlookup (posView s) x) else fmlookup (posView s) x)"
    using refreshAll_pointwise [OF assms(1)] by blast
  have "fmlookup (posView s') x = fmlookup (specRefresh l b now (posView s)) x" for x
    using s'(3) assms(2) by (cases "fmlookup (positions s) x")
      (auto simp: specRefresh_def lookup_posView fmlookup_dom'_iff)
  then have "posView s' = specRefresh l b now (posView s)" by (rule fmap_ext)
  with s' show ?thesis by blast
qed

section \<open>The scanner as a transition system\<close>

text \<open>The calls a scanner receives. Go chooses the order in which \<open>RefreshAll\<close> meets the
  positions; the map each call is meant to update does not know of it.\<close>

datatype scanCall = SetPosition userPosition | RemovePosition address | RefreshAll indexFn indexFn i64

inductive scanStep :: "scanner \<Rightarrow> scanCall \<Rightarrow> scanner \<Rightarrow> bool" where
  step_set: "scanStep s (SetPosition pos) (setPosition pos s)"
| step_remove: "scanStep s (RemovePosition user) (removePosition user s)"
| step_refresh: "set order = fmdom' (positions s) \<Longrightarrow> distinct order \<Longrightarrow>
     refreshAll l b now order s = Some s' \<Longrightarrow> scanStep s (RefreshAll l b now) s'"

inductive scanRun :: "scanner \<Rightarrow> scanCall list \<Rightarrow> scanner \<Rightarrow> bool" where
  run_nil: "scanRun s [] s"
| run_snoc: "scanRun s cs s1 \<Longrightarrow> scanStep s1 c s2 \<Longrightarrow> scanRun s (cs @ [c]) s2"

inductive_cases scanStep_cases [elim]: "scanStep s c s'"

fun specCall :: "scanCall \<Rightarrow> (address, userPosition) fmap \<Rightarrow> (address, userPosition) fmap" where
  "specCall (SetPosition pos) v = specSet pos v"
| "specCall (RemovePosition user) v = fmdrop user v"
| "specCall (RefreshAll l b now) v = specRefresh l b now v"

lemma scanStep_refines:
  assumes "scanStep s c s'" and "scanner_ok s"
  shows "scanner_ok s' \<and> posView s' = specCall c (posView s)"
  using assms(1)
proof cases
  case (step_refresh order l b now)
  then show ?thesis using refreshAll_refines [OF assms(2) step_refresh(2), of l b now] by simp
qed (use assms(2) setPosition_refines removePosition_refines in simp_all)

lemma scanStep_enabled:
  assumes "scanner_ok s"
  shows "\<exists>s'. scanStep s c s'"
proof (cases c)
  case (RefreshAll l b now)
  have "finite (fmdom' (positions s))" by simp
  then obtain order where order: "set order = fmdom' (positions s)" "distinct order"
    using finite_distinct_list by blast
  then show ?thesis
    using refreshAll_refines [OF assms order(1)] RefreshAll by (blast intro: scanStep.step_refresh)
qed (blast intro: scanStep.intros)+

lemma scanRun_refines:
  "scanRun s cs s' \<Longrightarrow> scanner_ok s \<Longrightarrow> scanner_ok s' \<and> posView s' = fold specCall cs (posView s)"
  by (induction rule: scanRun.induct) (auto dest: scanStep_refines)

lemma posView_new [simp]: "posView newScanner = fmempty"
  by (rule fmap_ext) (simp add: lookup_posView newScanner_def)

text \<open>C2: the scanner refines a plain map. Whatever calls it receives, whatever order Go gives its
  map iterations and however its heap is rearranged, it ends in a consistent state (each
  position queued once at the index it records, the queue a min-heap by health factor), its
  contents are those of a map updated call by call, and the next call does not panic.\<close>

theorem scanner_refines_map:
  assumes "scanRun newScanner cs s"
  shows "scanner_ok s \<and> posView s = fold specCall cs fmempty \<and> (\<forall>c. \<exists>s'. scanStep s c s')"
  using scanRun_refines [OF assms] scanStep_enabled by simp

definition examplePosition :: "address \<Rightarrow> int \<Rightarrow> userPosition" where
  "examplePosition a debt = \<lparr>userAddress = a, chainID = 1,
     collaterals = [\<lparr>c_marketID = 1, c_assetAddress = 7, c_supplyBalance = 10 ^ 18, c_supplyIndex = Some (10 ^ 27),
       c_liquidationThreshold = 8 * 10 ^ 26, c_liquidationBonus = 105 * 10 ^ 16, c_priceUSD = 2000 * 10 ^ 8,
       c_decimals = 18\<rparr>],
     debts = [\<lparr>d_marketID = 2, d_assetAddress = 8, d_borrowBalance = debt, d_borrowIndex = Some (10 ^ 27),
       d_priceUSD = 10 ^ 8, d_decimals = 6\<rparr>],
     healthFactor = None, totalCollateralUSD = None, totalDebtUSD = None, heapIndex = 0\<rparr>"

abbreviation noIndex :: indexFn where
  "noIndex \<equiv> \<lambda>_ _. None"

definition exampleScanner :: scanner where
  "exampleScanner = the (refreshAll noIndex noIndex 0 [1, 2]
     (setPosition (examplePosition 2 (2000 * 10 ^ 6)) (setPosition (examplePosition 1 (1000 * 10 ^ 6)) newScanner)))"

lemma exampleScanner_dom:
  "fmdom' (positions (setPosition (examplePosition 2 (2000 * 10 ^ 6)) (setPosition (examplePosition 1 (1000 * 10 ^ 6)) newScanner))) = {1, 2}"
  by code_simp

lemma exampleScanner_run:
  "scanRun newScanner ((([] @ [SetPosition (examplePosition 1 (1000 * 10 ^ 6))]) @
     [SetPosition (examplePosition 2 (2000 * 10 ^ 6))]) @ [RefreshAll noIndex noIndex 0]) exampleScanner"
  (is "scanRun _ (?cs @ _) _")
proof (rule run_snoc)
  let ?s = "setPosition (examplePosition 2 (2000 * 10 ^ 6)) (setPosition (examplePosition 1 (1000 * 10 ^ 6)) newScanner)"
  show r: "scanRun newScanner ?cs ?s"
    by (rule run_snoc [OF run_snoc [OF run_nil]]) (rule step_set)+
  have "scanner_ok ?s" using scanRun_refines [OF r] by simp
  then obtain s' where s': "refreshAll noIndex noIndex 0 [1, 2] ?s = Some s'"
    using refreshAll_pointwise by blast
  then show "scanStep ?s (RefreshAll noIndex noIndex 0) exampleScanner"
    by (intro step_refresh [of "[1, 2]"]) (simp_all only: exampleScanner_def exampleScanner_dom list.set
        option.sel distinct.simps, simp)
qed

theorem scanner_refines_map_witness:
  "scanner_ok exampleScanner \<and> queue exampleScanner = [2, 1]"
proof -
  have "queue exampleScanner = [2, 1]" by code_simp
  with scanner_refines_map [OF exampleScanner_run] show ?thesis by simp
qed

section \<open>What the queue and the scan report\<close>

lemma unhealthy_view [simp]: "unhealthy (p\<lparr>heapIndex := k\<rparr>) = unhealthy p"
  by (simp add: unhealthy_def)

lemma unhealthy_stored:
  "(\<exists>p. fmlookup ps a = Some p \<and> unhealthy p) \<longleftrightarrow> (\<exists>hf. healthOf ps a = Some hf \<and> hf < RAY)"
  by (cases "fmlookup ps a") (simp_all add: healthOf_def unhealthy_def split: option.split)

lemma findLiquidatable_addresses:
  "addr_ok (positions s) \<Longrightarrow> map userAddress (findLiquidatable order s) =
     filter (\<lambda>a. \<exists>p. fmlookup (positions s) a = Some p \<and> unhealthy p) order"
  by (induction order) (auto simp: addr_ok_def split: option.splits)

lemma hfKey_le: "hfKey x \<le> hfKey (Some h) \<longleftrightarrow> (\<exists>k. x = Some k \<and> k \<le> h)"
  by (cases x) (simp_all add: hfKey_def less_eq_prod_def)

lemma scanner_ok_head:
  assumes ok: "scanner_ok s" and q: "queue s = a # as" and p: "fmlookup (positions s) b = Some p"
  shows "hfKey (healthOf (positions s) a) \<le> hfKey (healthFactor p)"
proof -
  have "heap_upto (ph.keys s) (length (queue s))" using ok by (simp add: scanner_ok_def)
  moreover have "b \<in> set (queue s)" using ok p by (auto simp: scanner_ok_def fmlookup_dom'_iff)
  ultimately have "viewKey (posView s) (queue s ! 0) \<le> viewKey (posView s) b" by (rule ph.root_least)
  with q p show ?thesis by (simp add: viewKey_def) (simp add: healthOf_def)
qed

lemma scanner_ok_lookup:
  assumes "scanner_ok s" and "a \<in> set (queue s)"
  shows "\<exists>p. fmlookup (positions s) a = Some p \<and> userAddress p = a"
  using assms by (auto simp: scanner_ok_def addr_ok_def fmlookup_dom'_iff)

text \<open>The most dangerous position is a tracked one whose health factor is the least of all: no
  tracked position with a health factor has a smaller one. There is none exactly when no
  position is tracked, and the queue has as many entries as the scanner counts positions.\<close>

theorem mostDangerous_least:
  assumes "scanner_ok s"
  shows "(case mostDangerous s of None \<Rightarrow> positions s = fmempty
    | Some p \<Rightarrow> fmlookup (positions s) (userAddress p) = Some p
        \<and> (\<forall>a q h. fmlookup (positions s) a = Some q \<longrightarrow> healthFactor q = Some h
             \<longrightarrow> (\<exists>k. healthFactor p = Some k \<and> k \<le> h)))
    \<and> positionCount s = length (queue s)"
proof
  have q: "distinct (queue s)" "set (queue s) = fmdom' (positions s)"
    using assms by (simp_all add: scanner_ok_def queue_ok_def)
  then show "positionCount s = length (queue s)"
    by (simp add: positionCount_def fmsize_def fcard.rep_eq fmdom'_alt_def flip: distinct_card)
  show "case mostDangerous s of None \<Rightarrow> positions s = fmempty
    | Some p \<Rightarrow> fmlookup (positions s) (userAddress p) = Some p
        \<and> (\<forall>a q h. fmlookup (positions s) a = Some q \<longrightarrow> healthFactor q = Some h
             \<longrightarrow> (\<exists>k. healthFactor p = Some k \<and> k \<le> h))"
  proof (cases "queue s")
    case Nil
    with q have "fmdom' (positions s) = {}" by simp
    then have "positions s = fmempty" by (intro fmap_ext) (metis empty_iff fmdom'_notD fmempty_lookup)
    with Nil show ?thesis by (simp add: mostDangerous_def)
  next
    case (Cons a as)
    then obtain p where p: "fmlookup (positions s) a = Some p" "userAddress p = a"
      using scanner_ok_lookup [OF assms, of a] by auto
    then have "hfKey (healthFactor p) \<le> hfKey (healthFactor q)"
      if "fmlookup (positions s) b = Some q" for b q
      using scanner_ok_head [OF assms Cons that] by (simp add: healthOf_def)
    with p Cons show ?thesis by (fastforce simp: mostDangerous_def simp flip: hfKey_le)
  qed
qed

lemma exampleScanner_ok [simp]: "scanner_ok exampleScanner"
  using scanRun_refines [OF exampleScanner_run] by simp

lemma exampleScanner_queue [simp]: "queue exampleScanner = [2, 1]"
  by code_simp

theorem mostDangerous_least_witness:
  "positionCount exampleScanner = 2 \<and> map_option userAddress (mostDangerous exampleScanner) = Some 2"
proof -
  have "map_option userAddress (mostDangerous exampleScanner) = Some 2" by code_simp
  with mostDangerous_least [of exampleScanner] show ?thesis by simp
qed

text \<open>C3: after a refresh the scan reports exactly the positions whose health factor, computed from
  the indices of this moment, is below one, each of them once, in the order Go iterates.\<close>

theorem findLiquidatable_exact:
  assumes "scanner_ok s" and "set order = fmdom' (positions s)"
  shows "\<exists>s'. refreshAll l b now order s = Some s' \<and>
    map userAddress (findLiquidatable order' s') =
      filter (\<lambda>a. \<exists>p hf. fmlookup (positions s) a = Some p
        \<and> calculateHealthFactor p l b now = Some hf \<and> hf < RAY) order'"
proof -
  obtain s' where s': "refreshAll l b now order s = Some s'" "scanner_ok s'"
      "posView s' = specRefresh l b now (posView s)"
    using refreshAll_refines [OF assms] by blast
  have "(\<exists>p. fmlookup (positions s') a = Some p \<and> unhealthy p) \<longleftrightarrow>
      (\<exists>p hf. fmlookup (positions s) a = Some p \<and> calculateHealthFactor p l b now = Some hf \<and> hf < RAY)" for a
  proof -
    have "healthOf (positions s') a = healthOf (posView s') a" by simp
    also have "\<dots> = (case fmlookup (positions s) a of None \<Rightarrow> None | Some p \<Rightarrow> calculateHealthFactor p l b now)"
      unfolding s'(3) by (simp add: healthOf_def specRefresh_def lookup_posView
          healthFactor_entries [of "p\<lparr>heapIndex := 0\<rparr>" p for p] split: option.split)
    finally show ?thesis unfolding unhealthy_stored by (simp split: option.split)
  qed
  with s' show ?thesis
    by (auto simp: findLiquidatable_addresses scanner_ok_def)
qed

theorem findLiquidatable_exact_witness:
  "\<exists>s'. refreshAll noIndex noIndex 0 [2, 1] exampleScanner = Some s'
    \<and> map userAddress (findLiquidatable [1, 2] s') = [2]"
proof -
  have d: "set [2, 1] = fmdom' (positions exampleScanner)"
    using exampleScanner_ok by (simp add: scanner_ok_def flip: exampleScanner_queue)
  have "filter (\<lambda>a. case fmlookup (positions exampleScanner) a of None \<Rightarrow> False
      | Some p \<Rightarrow> (case calculateHealthFactor p noIndex noIndex 0 of None \<Rightarrow> False | Some hf \<Rightarrow> hf < RAY)) [1, 2] = [2]"
    by code_simp
  moreover have "(case x of None \<Rightarrow> False | Some p \<Rightarrow> (case f p of None \<Rightarrow> False | Some hf \<Rightarrow> hf < RAY))
      \<longleftrightarrow> (\<exists>p hf. x = Some p \<and> f p = Some hf \<and> hf < RAY)" for x :: "userPosition option" and f
    by (auto split: option.split)
  ultimately show ?thesis
    using findLiquidatable_exact [OF exampleScanner_ok d, of noIndex noIndex 0 "[1, 2]"] by simp
qed

section \<open>What the health factor means\<close>

text \<open>For a position with debt the health factor is the nearest Ray fraction to weighted
  collateral over debt. A position the scan reports (factor below one) really owes more than its
  weighted collateral; the converse can fail only by rounding, and not for a debt below
  2 * RAY, which is twenty billion dollars. Without debt the factor is the constant 1000.\<close>

theorem healthFactor_threshold:
  assumes "weightedCollateral l now (collaterals pos) 0 = Some wc" and "sumDebt b now (debts pos) 0 = Some td"
    and "0 \<le> td"
  shows "\<exists>hf. calculateHealthFactor pos l b now = Some hf \<and> (td = 0 \<longrightarrow> hf = 1000 * RAY)
    \<and> (0 < td \<longrightarrow> \<bar>2 * (wc * RAY - hf * td)\<bar> \<le> td \<and> (hf < RAY \<longrightarrow> wc < td)
        \<and> (wc < td \<longrightarrow> td < 2 * RAY \<longrightarrow> hf < RAY))"
proof (cases "td = 0")
  case True
  with assms show ?thesis by (simp add: calculateHealthFactor_def)
next
  case False
  with assms(3) have td: "0 < td" by simp
  define hf where "hf = round_div (wc * RAY) td"
  have "calculateHealthFactor pos l b now = Some hf"
    using assms td by (simp add: calculateHealthFactor_def rayDiv_round hf_def)
  moreover have "\<bar>2 * (wc * RAY - hf * td)\<bar> \<le> td" unfolding hf_def using td by (rule round_div_error)
  moreover have "wc < td" if "hf < RAY"
  proof (rule ccontr)
    assume "\<not> wc < td"
    then have "td * RAY \<le> wc * RAY" by (intro mult_right_mono) simp_all
    then have "RAY * td \<le> wc * RAY" by (simp only: mult.commute)
    then have "RAY \<le> hf" unfolding hf_def using td by (intro round_div_ge)
    with that show False by simp
  qed
  moreover have "hf < RAY" if "wc < td" "td < 2 * RAY"
  proof -
    have "wc * RAY \<le> (td - 1) * RAY" using that(1) by (intro mult_right_mono) simp_all
    moreover have "(td - 1) * RAY = RAY * td - RAY" by (simp add: algebra_simps)
    moreover have "td div 2 < RAY" using that(2) by presburger
    ultimately show ?thesis unfolding hf_def using td by (intro round_div_less) linarith+
  qed
  ultimately show ?thesis using td by blast
qed

theorem healthFactor_threshold_witness:
  "\<exists>hf. calculateHealthFactor (examplePosition 1 (2000 * 10 ^ 6)) noIndex noIndex 0 = Some hf \<and> hf < RAY"
proof -
  have "weightedCollateral noIndex 0 (collaterals (examplePosition 1 (2000 * 10 ^ 6))) 0 = Some (1600 * 10 ^ 17)"
      "sumDebt noIndex 0 (debts (examplePosition 1 (2000 * 10 ^ 6))) 0 = Some (2000 * 10 ^ 17)"
    by code_simp+
  from healthFactor_threshold [OF this] show ?thesis by (auto simp: RAY_def)
qed

text \<open>A position whose balances, indices, prices and thresholds are not negative.\<close>

definition collateral_nonneg :: "collateralEntry \<Rightarrow> bool" where
  "collateral_nonneg c \<longleftrightarrow> 0 \<le> c_supplyBalance c \<and> 0 \<le> c_priceUSD c \<and> 0 \<le> c_liquidationThreshold c"

definition debt_nonneg :: "debtEntry \<Rightarrow> bool" where
  "debt_nonneg d \<longleftrightarrow> 0 \<le> d_borrowBalance d \<and> 0 \<le> d_priceUSD d"

lemma decimalsFactor_pos [simp]: "0 < decimalsFactor d"
  by (simp add: decimalsFactor_def)

lemma usdValue_mono: "0 \<le> price \<Longrightarrow> a \<le> a' \<Longrightarrow> usdValue a price d \<le> usdValue a' price d"
  by (simp add: usdValue_def zdiv_mono1 mult_right_mono)

lemma usdValue_nonneg: "0 \<le> price \<Longrightarrow> 0 \<le> a \<Longrightarrow> 0 \<le> usdValue a price d"
  using usdValue_mono [of price 0 a d] by (simp add: usdValue_def)

lemma wadToRay_mono: "a \<le> a' \<Longrightarrow> wadToRay a \<le> wadToRay a'"
  by (simp add: wadToRay_def)

lemma wadToRay_nonneg: "0 \<le> a \<Longrightarrow> 0 \<le> wadToRay a"
  by (simp add: wadToRay_def)

lemma actualAmount_mono:
  assumes "0 \<le> bal" and "0 \<le> cur" and "cur \<le> cur'"
    and "actualAmount bal idx cur = Some a" and "actualAmount bal idx cur' = Some a'"
  shows "0 \<le> a \<and> a \<le> a'"
proof (cases "\<exists>i. idx = Some i \<and> 0 < i")
  case False
  with assms show ?thesis by (auto simp: actualAmount_def split: option.splits)
next
  case True
  then obtain i where i: "idx = Some i" "0 < i" by blast
  define q where "q = (\<lambda>c. round_div (c * RAY) i)"
  have q: "0 \<le> q cur \<and> q cur \<le> q cur'"
    using assms i by (simp add: q_def round_div_nonneg round_div_mono)
  have a: "a = rayToWad (rayMul (wadToRay bal) (q cur))" "a' = rayToWad (rayMul (wadToRay bal) (q cur'))"
    using assms i by (simp_all add: actualAmount_def rayDiv_round q_def Let_def)
  have "0 \<le> wadToRay bal" using assms(1) by (simp add: wadToRay_def)
  with q have "0 \<le> rayMul (wadToRay bal) (q cur) \<and> rayMul (wadToRay bal) (q cur) \<le> rayMul (wadToRay bal) (q cur')"
    by (simp add: rayMul_nonneg rayMul_mono)
  then show ?thesis unfolding a rayToWad_round by (simp add: round_div_nonneg round_div_mono)
qed

definition index_le :: "indexFn \<Rightarrow> indexFn \<Rightarrow> i64 \<Rightarrow> bool" where
  "index_le f g now \<longleftrightarrow> (\<forall>m. 0 \<le> indexOrRay (f m now) \<and> indexOrRay (f m now) \<le> indexOrRay (g m now))"

lemma weightedCollateral_mono:
  "index_le l l' now \<Longrightarrow> list_all collateral_nonneg cs \<Longrightarrow> 0 \<le> acc \<Longrightarrow> acc \<le> acc' \<Longrightarrow>
     weightedCollateral l now cs acc = Some w \<Longrightarrow> weightedCollateral l' now cs acc' = Some w' \<Longrightarrow> 0 \<le> w \<and> w \<le> w'"
proof (induction cs arbitrary: acc acc')
  case (Cons c cs)
  obtain a a' where a: "actualAmount (c_supplyBalance c) (c_supplyIndex c) (indexOrRay (l (c_marketID c) now)) = Some a"
      "actualAmount (c_supplyBalance c) (c_supplyIndex c) (indexOrRay (l' (c_marketID c) now)) = Some a'"
    using actualAmount_returns by metis
  have c: "collateral_nonneg c" using Cons.prems by simp
  have "0 \<le> a \<and> a \<le> a'" using Cons.prems(1) c
    by (intro actualAmount_mono [OF _ _ _ a]) (simp_all add: index_le_def collateral_nonneg_def)
  then have "0 \<le> usdValue a (c_priceUSD c) (c_decimals c) \<and>
      usdValue a (c_priceUSD c) (c_decimals c) \<le> usdValue a' (c_priceUSD c) (c_decimals c)"
    using c by (simp add: usdValue_mono usdValue_nonneg collateral_nonneg_def)
  then have "0 \<le> wadToRay (usdValue a (c_priceUSD c) (c_decimals c)) \<and>
      wadToRay (usdValue a (c_priceUSD c) (c_decimals c)) \<le> wadToRay (usdValue a' (c_priceUSD c) (c_decimals c))"
    by (simp add: wadToRay_def)
  then have "0 \<le> rayMul (wadToRay (usdValue a (c_priceUSD c) (c_decimals c))) (c_liquidationThreshold c) \<and>
      rayMul (wadToRay (usdValue a (c_priceUSD c) (c_decimals c))) (c_liquidationThreshold c)
      \<le> rayMul (wadToRay (usdValue a' (c_priceUSD c) (c_decimals c))) (c_liquidationThreshold c)"
    using c by (simp add: rayMul_nonneg rayMul_mono collateral_nonneg_def)
  with Cons.prems a show ?case
    by (intro Cons.IH [of "acc + rayMul (wadToRay (usdValue a (c_priceUSD c) (c_decimals c))) (c_liquidationThreshold c)"
          "acc' + rayMul (wadToRay (usdValue a' (c_priceUSD c) (c_decimals c))) (c_liquidationThreshold c)"])
      (simp_all add: Let_def)
qed simp

lemma sumDebt_mono:
  "index_le b b' now \<Longrightarrow> list_all debt_nonneg ds \<Longrightarrow> 0 \<le> acc \<Longrightarrow> acc \<le> acc' \<Longrightarrow>
     sumDebt b now ds acc = Some t \<Longrightarrow> sumDebt b' now ds acc' = Some t' \<Longrightarrow> 0 \<le> t \<and> t \<le> t'"
proof (induction ds arbitrary: acc acc')
  case (Cons d ds)
  obtain a a' where a: "actualAmount (d_borrowBalance d) (d_borrowIndex d) (indexOrRay (b (d_marketID d) now)) = Some a"
      "actualAmount (d_borrowBalance d) (d_borrowIndex d) (indexOrRay (b' (d_marketID d) now)) = Some a'"
    using actualAmount_returns by metis
  have d: "debt_nonneg d" using Cons.prems by simp
  have "0 \<le> a \<and> a \<le> a'" using Cons.prems(1) d
    by (intro actualAmount_mono [OF _ _ _ a]) (simp_all add: index_le_def debt_nonneg_def)
  then have "0 \<le> usdValue a (d_priceUSD d) (d_decimals d) \<and>
      usdValue a (d_priceUSD d) (d_decimals d) \<le> usdValue a' (d_priceUSD d) (d_decimals d)"
    using d by (simp add: usdValue_mono usdValue_nonneg debt_nonneg_def)
  with Cons.prems a show ?case
    by (intro Cons.IH [of "acc + wadToRay (usdValue a (d_priceUSD d) (d_decimals d))"
          "acc' + wadToRay (usdValue a' (d_priceUSD d) (d_decimals d))"]) (simp_all add: Let_def add_mono wadToRay_mono wadToRay_nonneg)
qed simp

text \<open>Accruing interest only hurts a borrower. For a position with debt and non-negative data,
  higher borrow indices and lower liquidity indices never give a higher health factor, rounding
  included, so a position that is liquidatable stays so until it is changed or a price moves.\<close>

theorem healthFactor_interest_antitone:
  assumes "list_all collateral_nonneg (collaterals pos)" and "list_all debt_nonneg (debts pos)"
    and "index_le l' l now" and "index_le b b' now"
    and "\<exists>td. sumDebt b now (debts pos) 0 = Some td \<and> td \<noteq> 0"
  shows "\<exists>hf hf'. calculateHealthFactor pos l b now = Some hf \<and> calculateHealthFactor pos l' b' now = Some hf'
    \<and> 0 \<le> hf' \<and> hf' \<le> hf"
proof -
  obtain wc wc' td td' where r: "weightedCollateral l now (collaterals pos) 0 = Some wc"
      "weightedCollateral l' now (collaterals pos) 0 = Some wc'"
      "sumDebt b now (debts pos) 0 = Some td" "sumDebt b' now (debts pos) 0 = Some td'"
    using weightedCollateral_returns sumDebt_returns by metis
  have wc: "0 \<le> wc'" "wc' \<le> wc"
    using weightedCollateral_mono [OF assms(3,1) order_refl order_refl r(2,1)] by simp_all
  have td: "0 < td" "td \<le> td'"
    using sumDebt_mono [OF assms(4,2) order_refl order_refl r(3,4)] assms(5) r(3) by auto
  have "round_div (wc' * RAY) td' \<le> round_div (wc' * RAY) td"
    using wc td by (intro round_div_antimono) simp_all
  also have "\<dots> \<le> round_div (wc * RAY) td" using wc td by (intro round_div_mono mult_right_mono) simp_all
  finally have "round_div (wc' * RAY) td' \<le> round_div (wc * RAY) td" .
  with r wc td show ?thesis by (simp add: calculateHealthFactor_def rayDiv_round round_div_nonneg)
qed

theorem healthFactor_interest_antitone_witness:
  "\<exists>hf hf'. calculateHealthFactor (examplePosition 1 (2000 * 10 ^ 6)) noIndex noIndex 0 = Some hf
    \<and> calculateHealthFactor (examplePosition 1 (2000 * 10 ^ 6)) noIndex (\<lambda>_ _. Some (2 * RAY)) 0 = Some hf'
    \<and> 0 \<le> hf' \<and> hf' \<le> hf"
proof (rule healthFactor_interest_antitone)
  show "\<exists>td. sumDebt noIndex 0 (debts (examplePosition 1 (2000 * 10 ^ 6))) 0 = Some td \<and> td \<noteq> 0"
  proof (intro exI conjI)
    show "sumDebt noIndex 0 (debts (examplePosition 1 (2000 * 10 ^ 6))) 0 = Some (2000 * 10 ^ 17)" by code_simp
  qed simp
qed (simp_all add: examplePosition_def collateral_nonneg_def debt_nonneg_def index_le_def indexOrRay_def)

section \<open>What the scanner needs of its index provider\<close>

text \<open>\<open>IndexProvider\<close>: the two index lookups in a state of the provider. The one law the scanner
  relies on is that a provider in a good state reports no negative index.\<close>

locale index_provider =
  fixes good :: "'p \<Rightarrow> bool"
    and borrowIdx :: "'p \<Rightarrow> indexFn"
    and liquidityIdx :: "'p \<Rightarrow> indexFn"
  assumes borrow_law: "good p \<Longrightarrow> borrowIdx p m now = Some i \<Longrightarrow> 0 \<le> i"
    and liquidity_law: "good p \<Longrightarrow> liquidityIdx p m now = Some i \<Longrightarrow> 0 \<le> i"
begin

lemma indices_nonneg:
  assumes "good p"
  shows "index_le (borrowIdx p) (borrowIdx p) now" and "index_le (liquidityIdx p) (liquidityIdx p) now"
  using borrow_law [OF assms] liquidity_law [OF assms]
  by (simp_all add: index_le_def indexOrRay_def split: option.split)

text \<open>Health factors of sound positions are never negative.\<close>

lemma health_nonneg:
  assumes "good p" and "list_all collateral_nonneg (collaterals pos)" and "list_all debt_nonneg (debts pos)"
  shows "\<exists>hf. calculateHealthFactor pos (liquidityIdx p) (borrowIdx p) now = Some hf \<and> 0 \<le> hf"
proof -
  obtain wc td where r: "weightedCollateral (liquidityIdx p) now (collaterals pos) 0 = Some wc"
      "sumDebt (borrowIdx p) now (debts pos) 0 = Some td"
    using weightedCollateral_returns sumDebt_returns by metis
  have wc: "0 \<le> wc"
    using weightedCollateral_mono [OF indices_nonneg(2) assms(2) order_refl order_refl r(1) r(1)] assms(1) by simp
  have td: "0 \<le> td"
    using sumDebt_mono [OF indices_nonneg(1) assms(3) order_refl order_refl r(2) r(2)] assms(1) by simp
  show ?thesis
  proof (cases "td = 0")
    case True
    with r show ?thesis by (simp add: calculateHealthFactor_def)
  next
    case False
    with td have "0 < td" by simp
    with r wc show ?thesis by (simp add: calculateHealthFactor_def rayDiv_round round_div_nonneg)
  qed
qed

end

end
