(* ===== verification/GoBytes.thy ===== *)
theory GoBytes
  imports Prelude
begin

text \<open>
  Byte slices as the standard library has them: \<open>copy\<close> into a slice of a buffer, and the
  big-endian bytes of a \<open>big.Int\<close> (\<open>Bytes\<close>, \<open>SetBytes\<close>).
\<close>

section \<open>Big-endian numbers\<close>

text \<open>\<open>SetBytes\<close>: the number a big-endian byte string stands for.\<close>

definition be_val :: "byte list \<Rightarrow> nat" where
  "be_val bs = foldl (\<lambda>n b. n * 256 + unat b) 0 bs"

text \<open>\<open>Bytes\<close> of a number: no leading zero byte, and no byte at all for zero.\<close>

fun be_bytes :: "nat \<Rightarrow> byte list" where
  "be_bytes n = (if n = 0 then [] else be_bytes (n div 256) @ [word_of_nat (n mod 256)])"

declare be_bytes.simps [simp del]

lemma be_val_nil [simp]: "be_val [] = 0"
  by (simp add: be_val_def)

lemma be_val_snoc [simp]: "be_val (bs @ [b]) = be_val bs * 256 + unat b"
  by (simp add: be_val_def)

lemma be_val_zeros [simp]: "be_val (replicate k 0 @ bs) = be_val bs"
  by (induction k) (simp_all add: be_val_def)

lemma be_val_only_zeros [simp]: "be_val (replicate k 0) = 0"
  using be_val_zeros [of k "[]"] by simp

lemma be_bytes_zero [simp]: "be_bytes 0 = []"
  by (simp add: be_bytes.simps)

lemma unat_low_byte: "unat (word_of_nat (n mod 256) :: byte) = n mod 256"
  by (simp add: unat_of_nat)

lemma be_val_be_bytes [simp]: "be_val (be_bytes n) = n"
proof (induction n rule: be_bytes.induct)
  case (1 n)
  then show ?case
    by (cases "n = 0") (simp_all add: be_bytes.simps [of n] unat_low_byte div_mult_mod_eq)
qed

lemma be_bytes_length_le: "length (be_bytes n) \<le> k \<longleftrightarrow> n < 256 ^ k"
proof (induction k arbitrary: n)
  case 0
  then show ?case by (simp add: be_bytes.simps [of n])
next
  case (Suc k)
  show ?case
  proof (cases "n = 0")
    case False
    then have "length (be_bytes n) \<le> Suc k \<longleftrightarrow> n div 256 < 256 ^ k"
      using Suc [of "n div 256"] by (simp add: be_bytes.simps [of n])
    also have "\<dots> \<longleftrightarrow> n < 256 ^ Suc k"
      by (simp add: div_less_iff_less_mult mult.commute)
    finally show ?thesis .
  qed simp
qed

lemma be_bytes_abs: "k < length (be_bytes (nat \<bar>x\<bar>)) \<longleftrightarrow> 256 ^ k \<le> \<bar>x\<bar>"
proof -
  have "nat \<bar>x\<bar> < 256 ^ k \<longleftrightarrow> \<bar>x\<bar> < 256 ^ k" by (simp add: nat_less_iff)
  then show ?thesis using be_bytes_length_le [of "nat \<bar>x\<bar>" k] by (metis not_less)
qed

lemma be_val_bound: "be_val bs < 256 ^ length bs"
proof (induction bs rule: rev_induct)
  case (snoc b bs)
  have "unat b < 256" using unsigned_less [of b, where ?'a = nat] by simp
  moreover have "be_val bs * 256 + 256 \<le> 256 ^ length bs * 256" using snoc by simp
  moreover have "256 ^ length (bs @ [b]) = 256 ^ length bs * (256 :: nat)" by simp
  ultimately show ?case unfolding be_val_snoc by linarith
qed simp

text \<open>The 32 byte word of the contract ABI.\<close>

definition abiWord :: "nat \<Rightarrow> byte list" where
  "abiWord n = replicate (32 - length (be_bytes n)) 0 @ be_bytes n"

lemma abiWord_length: "n < 2 ^ 256 \<Longrightarrow> length (abiWord n) = 32"
proof -
  assume "n < 2 ^ 256"
  then have "n < 256 ^ 32" by simp
  then have "length (be_bytes n) \<le> 32" by (simp only: be_bytes_length_le)
  then show ?thesis by (simp add: abiWord_def)
qed

lemma abiWord_val [simp]: "be_val (abiWord n) = n"
  by (simp add: abiWord_def)

section \<open>Copying into a buffer\<close>

text \<open>\<open>copy(data[lo:hi], src)\<close>. The slice expression panics unless \<open>0 \<le> lo \<le> hi \<le> len(data)\<close> (the
  buffers here have no spare capacity); as many bytes are copied as fit.\<close>

definition copy_slice :: "byte list \<Rightarrow> int \<Rightarrow> int \<Rightarrow> byte list \<Rightarrow> byte list option" where
  "copy_slice data lo hi src =
     (if 0 \<le> lo \<and> lo \<le> hi \<and> hi \<le> int (length data)
      then (let n = min (nat (hi - lo)) (length src)
            in Some (take (nat lo) data @ take n src @ drop (nat lo + n) data))
      else None)"

text \<open>\<open>[]byte(s)\<close> of a Go string.\<close>

definition bytesOf :: "string \<Rightarrow> byte list" where
  "bytesOf s = map of_char s"

lemma copy_slice_fit:
  assumes "length src = n" and "lo + n \<le> length data"
  shows "copy_slice data (int lo) (int lo + int n) src = Some (take lo data @ src @ drop (lo + n) data)"
  using assms by (simp add: copy_slice_def nat_add_distrib)

lemma copy_slice_length: "copy_slice data lo hi src = Some data' \<Longrightarrow> length data' = length data"
  by (auto simp: copy_slice_def Let_def min_def nat_add_distrib split: if_splits)

text \<open>Filling a buffer from the left: copying into the zeros that are left of it.\<close>

lemma copy_zeros:
  assumes "length src = n" and "lo = int (length pre + a)" and "hi = lo + int n" and "m = a + n + b"
  shows "copy_slice (pre @ replicate m 0) lo hi src = Some ((pre @ replicate a 0 @ src) @ replicate b 0)"
proof -
  have "replicate m (0::byte) = replicate a 0 @ replicate n 0 @ replicate b 0"
    using assms(4) by (simp add: replicate_add)
  moreover have "copy_slice (pre @ replicate a 0 @ replicate n 0 @ replicate b 0)
      (int (length pre + a)) (int (length pre + a) + int n) src = Some ((pre @ replicate a 0 @ src) @ replicate b 0)"
    using assms(1) by (subst copy_slice_fit) simp_all
  ultimately show ?thesis using assms(2,3) by simp
qed

end
