(* ===== verification/Executor.thy ===== *)
theory Executor
  imports GoBytes "HOL-Library.Sublist"
begin

text \<open>
  \<open>internal/liquidation/executor/executor.go\<close>: calldata, profit estimate, nonces and the table
  of transactions in flight.

  go-ethereum is not part of the repository. What the executor calls of it is a parameter:
  the hash and the bytes of an address (\<open>ethLib\<close>), the replies of the node and the signer
  during one call (\<open>chainEnv\<close>). \<open>types.NewTransaction\<close> only packs its arguments, so an unsigned
  transaction is the record of them.
\<close>

section \<open>What the code calls of go-ethereum\<close>

record ethLib =
  keccak256 :: "byte list \<Rightarrow> byte list"
  addressBytes :: "address \<Rightarrow> byte list"

text \<open>A Keccak-256 digest has 32 bytes, an address 20, and the bytes determine the address.\<close>

definition eth_ok :: "ethLib \<Rightarrow> bool" where
  "eth_ok eth \<longleftrightarrow> (\<forall>bs. length (keccak256 eth bs) = 32) \<and> (\<forall>a. length (addressBytes eth a) = 20)
     \<and> inj (addressBytes eth)"

record ethTx =
  tx_nonce :: u64
  tx_to :: address
  tx_value :: int
  tx_gas :: u64
  tx_gasPrice :: int
  tx_data :: "byte list"

text \<open>\<open>ChainSender\<close> and \<open>TxSigner\<close> during one call, with the hash of a signed transaction, the
  unsigned one it was made from, and the time.\<close>

record 'stx chainEnv =
  suggestGasPrice :: "err + int"
  pendingNonceAt :: "address \<Rightarrow> err + u64"
  sendTransaction :: "'stx \<Rightarrow> err option"
  signTx :: "ethTx \<Rightarrow> int \<Rightarrow> err + 'stx"
  signerAddress :: address
  stxHash :: "'stx \<Rightarrow> hash"
  stxTx :: "'stx \<Rightarrow> ethTx"
  wallTime :: i64

text \<open>Signing adds a signature and changes nothing else.\<close>

definition signer_ok :: "'stx chainEnv \<Rightarrow> bool" where
  "signer_ok env \<longleftrightarrow> (\<forall>tx c stx. signTx env tx c = Inr stx \<longrightarrow> stxTx env stx = tx)"

section \<open>Data\<close>

datatype txStatus = TxPending | TxConfirmed | TxFailed | TxDropped

record liquidationTx =
  l_txHash :: hash
  l_borrower :: address
  l_debtAsset :: address
  l_collateralAsset :: address
  l_debtAmount :: int
  l_status :: txStatus
  l_gasUsed :: u64
  l_gasPrice :: int
  l_profit :: "int option"
  l_submittedAt :: i64
  l_confirmedAt :: "i64 option"
  l_retryCount :: int

record execConfig =
  cfgChainID :: int
  cfgLendingPool :: address
  cfgMinProfitWei :: "int option"
  cfgMaxGasPrice :: "int option"
  cfgGasLimit :: u64
  cfgMaxRetries :: int
  cfgRetryBaseDelay :: i64

record executor =
  cfg :: execConfig
  nonce :: u64
  nonceSet :: bool
  pending :: "(hash, liquidationTx) fmap"

definition newExecutor :: "execConfig \<Rightarrow> executor" where
  "newExecutor c = \<lparr>cfg = c, nonce = 0, nonceSet = False, pending = fmempty\<rparr>"

section \<open>Operations\<close>

definition liquidationSelector :: "ethLib \<Rightarrow> byte list" where
  "liquidationSelector eth =
     take 4 (keccak256 eth (bytesOf ''liquidationCall(address,address,address,uint256,bool)''))"

text \<open>The slice for the amount starts at 132 minus its length: it panics for more than 132 bytes and
  reaches into the slots before it for more than 32.\<close>

definition buildLiquidationCalldata ::
  "ethLib \<Rightarrow> address \<Rightarrow> address \<Rightarrow> address \<Rightarrow> int \<Rightarrow> bool \<Rightarrow> byte list option" where
  "buildLiquidationCalldata eth collateralAsset debtAsset borrower debtAmount receiveAToken = do {
     let sig = liquidationSelector eth;
     let data0 = replicate (4 + 32 * 5) 0;
     data1 \<leftarrow> copy_slice data0 0 4 sig;
     data2 \<leftarrow> copy_slice data1 (4 + 12) (4 + 32) (addressBytes eth collateralAsset);
     data3 \<leftarrow> copy_slice data2 (4 + 32 + 12) (4 + 64) (addressBytes eth debtAsset);
     data4 \<leftarrow> copy_slice data3 (4 + 64 + 12) (4 + 96) (addressBytes eth borrower);
     let debtBytes = be_bytes (nat \<bar>debtAmount\<bar>);
     data5 \<leftarrow> copy_slice data4 (4 + 96 + (32 - int (length debtBytes))) (4 + 128) debtBytes;
     Some (if receiveAToken then data5[4 + 128 + 31 := 1] else data5)
   }"

definition capGasPrice :: "int option \<Rightarrow> int \<Rightarrow> int" where
  "capGasPrice maxGasPrice gasPrice =
     (case maxGasPrice of None \<Rightarrow> gasPrice | Some m \<Rightarrow> if m < gasPrice then m else gasPrice)"

definition estimateProfit :: "'stx chainEnv \<Rightarrow> executor \<Rightarrow> int \<Rightarrow> int \<Rightarrow> err + (int \<times> int)" where
  "estimateProfit env ex debtAmountUSD liquidationBonus =
     (case suggestGasPrice env of
        Inl e \<Rightarrow> Inl (''suggest gas price: '' @ e)
      | Inr price \<Rightarrow>
          (let gasPrice = capGasPrice (cfgMaxGasPrice (cfg ex)) price;
               gasCost = gasPrice * uint (cfgGasLimit (cfg ex));
               bonusWad = liquidationBonus - 10 ^ 18;
               bonusValue = big_div (debtAmountUSD * bonusWad) (10 ^ 18);
               profit = bonusValue - gasCost
           in Inr (profit, gasPrice)))"

definition nextNonce :: "'stx chainEnv \<Rightarrow> executor \<Rightarrow> (err + u64) \<times> executor" where
  "nextNonce env ex =
     (if nonceSet ex then (Inr (nonce ex), ex\<lparr>nonce := nonce ex + 1\<rparr>)
      else (case pendingNonceAt env (signerAddress env) of
              Inl e \<Rightarrow> (Inl e, ex)
            | Inr n \<Rightarrow> (Inr n, ex\<lparr>nonce := n + 1, nonceSet := True\<rparr>)))"

text \<open>The result, the new state, and the signed transactions handed to \<open>SendTransaction\<close>. The whole
  is \<open>None\<close> where building the calldata panics, which is before anything changes.\<close>

definition execute ::
  "ethLib \<Rightarrow> 'stx chainEnv \<Rightarrow> address \<Rightarrow> address \<Rightarrow> address \<Rightarrow> int \<Rightarrow> executor \<Rightarrow>
     ((err + liquidationTx) \<times> executor \<times> 'stx list) option" where
  "execute eth env collateralAsset debtAsset borrower debtAmount ex =
     (case buildLiquidationCalldata eth collateralAsset debtAsset borrower debtAmount False of
        None \<Rightarrow> None
      | Some calldata \<Rightarrow> Some
          (case suggestGasPrice env of
             Inl e \<Rightarrow> (Inl (''suggest gas price: '' @ e), ex, [])
           | Inr price \<Rightarrow>
               (let gasPrice = capGasPrice (cfgMaxGasPrice (cfg ex)) price in
                (case nextNonce env ex of
                   (Inl e, ex1) \<Rightarrow> (Inl (''get nonce: '' @ e), ex1, [])
                 | (Inr n, ex1) \<Rightarrow>
                     (let tx = \<lparr>tx_nonce = n, tx_to = cfgLendingPool (cfg ex), tx_value = 0,
                           tx_gas = cfgGasLimit (cfg ex), tx_gasPrice = gasPrice, tx_data = calldata\<rparr> in
                      (case signTx env tx (cfgChainID (cfg ex)) of
                         Inl e \<Rightarrow> (Inl (''sign tx: '' @ e), ex1, [])
                       | Inr signedTx \<Rightarrow>
                           (case sendTransaction env signedTx of
                              Some e \<Rightarrow> (Inl (''send tx: '' @ e), ex1, [signedTx])
                            | None \<Rightarrow>
                                (let liqTx = \<lparr>l_txHash = stxHash env signedTx, l_borrower = borrower,
                                      l_debtAsset = debtAsset, l_collateralAsset = collateralAsset,
                                      l_debtAmount = debtAmount, l_status = TxPending, l_gasUsed = 0,
                                      l_gasPrice = gasPrice, l_profit = None,
                                      l_submittedAt = wallTime env, l_confirmedAt = None,
                                      l_retryCount = 0\<rparr>
                                 in (Inr liqTx,
                                     ex1\<lparr>pending := fmupd (stxHash env signedTx) liqTx (pending ex1)\<rparr>,
                                     [signedTx])))))))))"

definition markConfirmed :: "hash \<Rightarrow> u64 \<Rightarrow> int option \<Rightarrow> i64 \<Rightarrow> executor \<Rightarrow> executor" where
  "markConfirmed h gasUsed profit now ex =
     (case fmlookup (pending ex) h of
        Some tx \<Rightarrow> ex\<lparr>pending := fmupd h (tx\<lparr>l_status := TxConfirmed, l_gasUsed := gasUsed,
            l_profit := profit, l_confirmedAt := Some now\<rparr>) (pending ex)\<rparr>
      | None \<Rightarrow> ex)"

definition markFailed :: "hash \<Rightarrow> executor \<Rightarrow> executor" where
  "markFailed h ex =
     (case fmlookup (pending ex) h of
        Some tx \<Rightarrow> ex\<lparr>pending := fmupd h (tx\<lparr>l_status := TxFailed\<rparr>) (pending ex)\<rparr>
      | None \<Rightarrow> ex)"

text \<open>The loop counts the entries whose status is pending; its order does not matter.\<close>

definition pendingCount :: "executor \<Rightarrow> nat" where
  "pendingCount ex = fmsize (fmfilter (\<lambda>h. case fmlookup (pending ex) h of
     Some tx \<Rightarrow> l_status tx = TxPending | None \<Rightarrow> False) (pending ex))"

section \<open>Calldata\<close>

lemma liquidationSelector_length: "eth_ok eth \<Longrightarrow> length (liquidationSelector eth) = 4"
  by (simp add: liquidationSelector_def eth_ok_def)

text \<open>The ABI encoding the code aims at, slot by slot.\<close>

definition abiCalldata :: "ethLib \<Rightarrow> address \<Rightarrow> address \<Rightarrow> address \<Rightarrow> int \<Rightarrow> bool \<Rightarrow> byte list" where
  "abiCalldata eth ca da bo amt flag =
     liquidationSelector eth @ (replicate 12 0 @ addressBytes eth ca) @ (replicate 12 0 @ addressBytes eth da)
     @ (replicate 12 0 @ addressBytes eth bo)
     @ (replicate (32 - length (be_bytes (nat \<bar>amt\<bar>))) 0 @ be_bytes (nat \<bar>amt\<bar>))
     @ (replicate 31 0 @ [if flag then 1 else 0])"

text \<open>The buffer after the selector and the three addresses.\<close>

definition addressSlots :: "ethLib \<Rightarrow> address \<Rightarrow> address \<Rightarrow> address \<Rightarrow> byte list" where
  "addressSlots eth ca da bo = liquidationSelector eth @ replicate 12 0 @ addressBytes eth ca
     @ replicate 12 0 @ addressBytes eth da @ replicate 12 0 @ addressBytes eth bo"

lemma addressSlots_length: "eth_ok eth \<Longrightarrow> length (addressSlots eth ca da bo) = 100"
  by (simp add: addressSlots_def liquidationSelector_length) (simp add: eth_ok_def)

lemma calldata_last_step:
  assumes ok: "eth_ok eth"
  shows "buildLiquidationCalldata eth ca da bo amt flag = Option.bind
     (copy_slice (addressSlots eth ca da bo @ replicate 64 0)
        (4 + 96 + (32 - int (length (be_bytes (nat \<bar>amt\<bar>))))) (4 + 128) (be_bytes (nat \<bar>amt\<bar>)))
     (\<lambda>data. Some (if flag then data[4 + 128 + 31 := 1] else data))"
proof -
  note len = liquidationSelector_length [OF ok]
  have addr: "length (addressBytes eth a) = 20" for a using ok by (simp add: eth_ok_def)
  let ?s = "liquidationSelector eth" and ?p = "\<lambda>a. replicate 12 0 @ addressBytes eth a"
  have "copy_slice ([] @ replicate (4 + 32 * 5) 0) 0 4 ?s = Some (([] @ replicate 0 0 @ ?s) @ replicate 160 0)"
    by (rule copy_zeros) (simp_all add: len)
  moreover have "copy_slice (?s @ replicate 160 0) (4 + 12) (4 + 32) (addressBytes eth ca)
      = Some ((?s @ ?p ca) @ replicate 128 0)"
    by (rule copy_zeros) (simp_all add: len addr)
  moreover have "copy_slice ((?s @ ?p ca) @ replicate 128 0) (4 + 32 + 12) (4 + 64) (addressBytes eth da)
      = Some (((?s @ ?p ca) @ ?p da) @ replicate 96 0)"
    by (rule copy_zeros) (simp_all add: len addr)
  moreover have "copy_slice (((?s @ ?p ca) @ ?p da) @ replicate 96 0) (4 + 64 + 12) (4 + 96) (addressBytes eth bo)
      = Some ((((?s @ ?p ca) @ ?p da) @ ?p bo) @ replicate 64 0)"
    by (rule copy_zeros) (simp_all add: len addr)
  ultimately show ?thesis
    by (simp add: buildLiquidationCalldata_def addressSlots_def Let_def)
qed

lemma zeros_32: "replicate 32 (0::byte) = replicate 31 0 @ [0]"
  by (simp add: numeral_eq_Suc)

lemma flag_slot: "length xs = 132 \<Longrightarrow> (xs @ replicate 32 (0::byte))[163 := 1] = xs @ replicate 31 0 @ [1]"
  by (simp add: list_update_append zeros_32)

lemma calldata_abi:
  assumes ok: "eth_ok eth" and amt: "\<bar>amt\<bar> < 2 ^ 256"
  shows "buildLiquidationCalldata eth ca da bo amt flag = Some (abiCalldata eth ca da bo amt flag)"
proof -
  let ?b = "be_bytes (nat \<bar>amt\<bar>)" and ?h = "addressSlots eth ca da bo"
  have "nat \<bar>amt\<bar> < 256 ^ 32" using amt by simp
  then have n: "length ?b \<le> 32" by (simp only: be_bytes_length_le)
  have h: "length ?h = 100" by (rule addressSlots_length [OF ok])
  have "copy_slice (?h @ replicate 64 0) (4 + 96 + (32 - int (length ?b))) (4 + 128) ?b
      = Some ((?h @ replicate (32 - length ?b) 0 @ ?b) @ replicate 32 0)"
    using n h by (intro copy_zeros [where n = "length ?b"]) simp_all
  moreover have "length (?h @ replicate (32 - length ?b) 0 @ ?b) = 132" using h n by simp
  ultimately show ?thesis unfolding calldata_last_step [OF ok]
    by (simp add: abiCalldata_def addressSlots_def flag_slot del: append_assoc) (simp add: zeros_32)
qed

text \<open>The k-th 32 byte argument of a call.\<close>

definition abiSlot :: "byte list \<Rightarrow> nat \<Rightarrow> byte list" where
  "abiSlot data k = take 32 (drop (4 + 32 * k) data)"

lemma abiSlots_concat:
  assumes "length s = 4" and "\<forall>i<5. length (f i) = 32"
  shows "take 4 (s @ f 0 @ f 1 @ f 2 @ f 3 @ f 4) = s
    \<and> (\<forall>k<5. abiSlot (s @ f 0 @ f 1 @ f 2 @ f 3 @ f 4) k = f k)"
proof (intro conjI allI impI)
  fix k :: nat assume "k < 5"
  then consider "k = 0" | "k = 1" | "k = 2" | "k = 3" | "k = 4" by linarith
  then show "abiSlot (s @ f 0 @ f 1 @ f 2 @ f 3 @ f 4) k = f k"
    by cases (use assms in \<open>simp_all add: abiSlot_def\<close>)
qed (use assms in simp)

lemma abiCalldata_slots:
  assumes ok: "eth_ok eth" and amt: "\<bar>amt\<bar> < 2 ^ 256" and data: "data = abiCalldata eth ca da bo amt flag"
  shows "length data = 164 \<and> take 4 data = liquidationSelector eth
    \<and> abiSlot data 0 = replicate 12 0 @ addressBytes eth ca
    \<and> abiSlot data 1 = replicate 12 0 @ addressBytes eth da
    \<and> abiSlot data 2 = replicate 12 0 @ addressBytes eth bo
    \<and> be_val (abiSlot data 3) = nat \<bar>amt\<bar> \<and> be_val (abiSlot data 4) = of_bool flag"
proof -
  let ?b = "be_bytes (nat \<bar>amt\<bar>)"
  define f where "f = (!) [replicate 12 0 @ addressBytes eth ca, replicate 12 0 @ addressBytes eth da,
     replicate 12 0 @ addressBytes eth bo, replicate (32 - length ?b) 0 @ ?b, replicate 31 0 @ [if flag then 1 else 0]]"
  have "nat \<bar>amt\<bar> < 256 ^ 32" using amt by simp
  then have n: "length ?b \<le> 32" by (simp only: be_bytes_length_le)
  have "length (f i) = 32" if "i < 5" for i
  proof -
    from that consider "i = 0" | "i = 1" | "i = 2" | "i = 3" | "i = 4" by linarith
    then show ?thesis by cases (use ok n in \<open>simp_all add: f_def eth_ok_def\<close>)
  qed
  then have "take 4 (liquidationSelector eth @ f 0 @ f 1 @ f 2 @ f 3 @ f 4) = liquidationSelector eth
    \<and> (\<forall>k<5. abiSlot (liquidationSelector eth @ f 0 @ f 1 @ f 2 @ f 3 @ f 4) k = f k)"
    using liquidationSelector_length [OF ok] by (intro abiSlots_concat) simp_all
  moreover have "data = liquidationSelector eth @ f 0 @ f 1 @ f 2 @ f 3 @ f 4"
    by (simp add: data abiCalldata_def f_def)
  ultimately have "take 4 data = liquidationSelector eth \<and> (\<forall>k<5. abiSlot data k = f k)" by simp
  moreover have "length data = 164"
    using liquidationSelector_length [OF ok] ok n by (simp add: data abiCalldata_def eth_ok_def)
  ultimately show ?thesis by (simp add: f_def)
qed

text \<open>For an amount below 2^256 the calldata is the ABI encoding of the call: 164 bytes, the
  selector, three addresses padded to 32 bytes, the amount and the flag as big-endian words, so
  every argument can be read back.\<close>

theorem calldata_roundtrip:
  assumes "eth_ok eth" and "0 \<le> amt" and "amt < 2 ^ 256"
  shows "\<exists>data. buildLiquidationCalldata eth ca da bo amt flag = Some data
    \<and> length data = 164 \<and> take 4 data = liquidationSelector eth
    \<and> abiSlot data 0 = replicate 12 0 @ addressBytes eth ca
    \<and> abiSlot data 1 = replicate 12 0 @ addressBytes eth da
    \<and> abiSlot data 2 = replicate 12 0 @ addressBytes eth bo
    \<and> int (be_val (abiSlot data 3)) = amt \<and> be_val (abiSlot data 4) = of_bool flag"
proof -
  have "\<bar>amt\<bar> < 2 ^ 256" using assms by simp
  from calldata_abi [OF assms(1) this] abiCalldata_slots [OF assms(1) this refl] assms(2) show ?thesis by simp
qed

text \<open>A stand-in for the library: a constant digest, and the address as 20 big-endian bytes.\<close>

definition exampleEth :: ethLib where
  "exampleEth = \<lparr>keccak256 = (\<lambda>_. replicate 32 7),
     addressBytes = (\<lambda>a. map (\<lambda>i. ucast (drop_bit (152 - 8 * i) a)) [0..<20])\<rparr>"

lemma exampleEth_bytes_inj: "inj (addressBytes exampleEth)"
proof (rule injI)
  fix a b :: address assume eq: "addressBytes exampleEth a = addressBytes exampleEth b"
  show "a = b"
  proof (rule bit_word_eqI)
    fix n assume "n < LENGTH(160)"
    then have n: "n < 160" by simp
    define i where "i = 19 - n div 8"
    have "n div 8 \<le> 19" using n by linarith
    then have i: "i < 20" "n = 152 - 8 * i + n mod 8" unfolding i_def by (simp, presburger)
    from eq have "addressBytes exampleEth a ! i = addressBytes exampleEth b ! i" by simp
    then have "(ucast (drop_bit (152 - 8 * i) a) :: byte) = ucast (drop_bit (152 - 8 * i) b)"
      using i(1) by (simp add: exampleEth_def)
    then have "bit (ucast (drop_bit (152 - 8 * i) a) :: byte) (n mod 8) = bit (ucast (drop_bit (152 - 8 * i) b) :: byte) (n mod 8)"
      by simp
    then show "bit a n = bit b n" using i(2) by (simp add: bit_simps flip: i(2))
  qed
qed

lemma exampleEth_ok [simp]: "eth_ok exampleEth"
  using exampleEth_bytes_inj by (simp add: eth_ok_def) (simp add: exampleEth_def)

theorem calldata_roundtrip_witness:
  "\<exists>data. buildLiquidationCalldata exampleEth 1 2 3 (10 ^ 18) False = Some data \<and> length data = 164
    \<and> int (be_val (abiSlot data 3)) = 10 ^ 18"
  using calldata_roundtrip [of exampleEth "10 ^ 18" 1 2 3 False] by auto

text \<open>The calldata of a larger amount. From 2^1056 on (more than 132 bytes) building it panics;
  between 2^256 and there it succeeds, but the amount's high bytes overwrite the end of the
  borrower's slot and then the ones before it: no check rejects such an amount.\<close>

theorem calldata_overflow:
  assumes "eth_ok eth"
  shows "(buildLiquidationCalldata eth ca da bo amt flag = None \<longleftrightarrow> 2 ^ 1056 \<le> \<bar>amt\<bar>)
    \<and> (2 ^ 256 \<le> \<bar>amt\<bar> \<and> \<bar>amt\<bar> < 2 ^ 1056 \<longrightarrow> (\<exists>n\<le>99.
        buildLiquidationCalldata eth ca da bo amt flag
          = Some (take n (addressSlots eth ca da bo) @ be_bytes (nat \<bar>amt\<bar>) @ replicate 31 0 @ [of_bool flag])))"
proof -
  let ?b = "be_bytes (nat \<bar>amt\<bar>)" and ?h = "addressSlots eth ca da bo"
  have h: "length ?h = 100" by (rule addressSlots_length [OF assms])
  have big: "132 < length ?b \<longleftrightarrow> 2 ^ 1056 \<le> \<bar>amt\<bar>"
    unfolding be_bytes_abs by simp
  have large: "32 < length ?b \<longleftrightarrow> 2 ^ 256 \<le> \<bar>amt\<bar>"
    unfolding be_bytes_abs by simp
  have none: "buildLiquidationCalldata eth ca da bo amt flag = None \<longleftrightarrow> 132 < length ?b"
    unfolding calldata_last_step [OF assms] using h by (simp add: copy_slice_def Let_def)
  have "buildLiquidationCalldata eth ca da bo amt flag
      = Some (take (132 - length ?b) ?h @ ?b @ replicate 31 0 @ [of_bool flag])"
    if l: "32 < length ?b" "length ?b \<le> 132"
  proof -
    let ?n = "132 - length ?b"
    have n: "4 + 96 + (32 - int (length ?b)) = int ?n" "4 + 128 = int ?n + int (length ?b)"
      using l by simp_all
    have "copy_slice (?h @ replicate 64 0) (int ?n) (int ?n + int (length ?b)) ?b
        = Some (take ?n (?h @ replicate 64 0) @ ?b @ drop (?n + length ?b) (?h @ replicate 64 0))"
      using h l by (intro copy_slice_fit) simp_all
    also have "\<dots> = Some ((take ?n ?h @ ?b) @ replicate 32 0)" using h l by simp
    finally have c: "copy_slice (?h @ replicate 64 0) (int ?n) (int ?n + int (length ?b)) ?b
        = Some ((take ?n ?h @ ?b) @ replicate 32 0)" .
    have "length (take ?n ?h @ ?b) = 132" using h l by simp
    then show ?thesis unfolding calldata_last_step [OF assms] n c
      by (simp add: flag_slot del: append_assoc) (simp add: zeros_32)
  qed
  moreover have "132 - length ?b \<le> 99" if "32 < length ?b" using that by simp
  ultimately show ?thesis using none big large by (metis not_le)
qed

theorem calldata_overflow_witness:
  "buildLiquidationCalldata exampleEth 1 2 3 (2 ^ 1056) False = None"
  using calldata_overflow [of exampleEth 1 2 3 "2 ^ 1056" False] by simp

section \<open>Executing a liquidation\<close>

lemma capGasPrice_le: "capGasPrice (Some m) g \<le> m" "capGasPrice c g \<le> g"
  by (simp_all add: capGasPrice_def split: option.split)

text \<open>What a transaction this executor sends looks like.\<close>

definition liquidation_tx_ok :: "ethLib \<Rightarrow> execConfig \<Rightarrow> address \<Rightarrow> address \<Rightarrow> address \<Rightarrow> int \<Rightarrow> ethTx \<Rightarrow> bool" where
  "liquidation_tx_ok eth c ca da bo amt tx \<longleftrightarrow> tx_to tx = cfgLendingPool c \<and> tx_value tx = 0
     \<and> tx_gas tx = cfgGasLimit c \<and> tx_data tx = abiCalldata eth ca da bo amt False
     \<and> (\<forall>m. cfgMaxGasPrice c = Some m \<longrightarrow> tx_gasPrice tx \<le> m)"

lemma nextNonce_frame:
  "nextNonce env ex = (r, ex1) \<Longrightarrow> cfg ex1 = cfg ex \<and> pending ex1 = pending ex
     \<and> (\<forall>e. r = Inl e \<longrightarrow> ex1 = ex) \<and> (\<forall>n. r = Inr n \<longrightarrow> nonceSet ex1 \<and> nonce ex1 = n + 1)"
  by (auto simp: nextNonce_def split: if_splits sum.splits)

text \<open>How a call ends: before a nonce is taken, after it with the transaction unsigned or refused,
  or with the transaction accepted.\<close>

inductive executeEnds ::
  "ethLib \<Rightarrow> 'stx chainEnv \<Rightarrow> address \<Rightarrow> address \<Rightarrow> address \<Rightarrow> int \<Rightarrow> executor \<Rightarrow>
     err + liquidationTx \<Rightarrow> executor \<Rightarrow> 'stx list \<Rightarrow> bool"
  for eth env ca da bo amt ex where
  early: "executeEnds eth env ca da bo amt ex (Inl e) ex []"
| unsigned: "nextNonce env ex = (Inr n, ex1) \<Longrightarrow> executeEnds eth env ca da bo amt ex (Inl e) ex1 []"
| refused: "nextNonce env ex = (Inr n, ex1) \<Longrightarrow> tx_nonce (stxTx env stx) = n \<Longrightarrow>
     liquidation_tx_ok eth (cfg ex) ca da bo amt (stxTx env stx) \<Longrightarrow>
     executeEnds eth env ca da bo amt ex (Inl e) ex1 [stx]"
| accepted: "nextNonce env ex = (Inr n, ex1) \<Longrightarrow> tx_nonce (stxTx env stx) = n \<Longrightarrow>
     liquidation_tx_ok eth (cfg ex) ca da bo amt (stxTx env stx) \<Longrightarrow>
     sendTransaction env stx = None \<Longrightarrow> l_txHash l = stxHash env stx \<Longrightarrow> l_status l = TxPending \<Longrightarrow>
     l_borrower l = bo \<Longrightarrow> l_debtAmount l = amt \<Longrightarrow>
     executeEnds eth env ca da bo amt ex (Inr l)
       (ex1\<lparr>pending := fmupd (stxHash env stx) l (pending ex1)\<rparr>) [stx]"

inductive_cases executeEnds_cases: "executeEnds eth env ca da bo amt ex r ex' sent"

lemma execute_outcome:
  assumes ok: "eth_ok eth" "signer_ok env" and amt: "\<bar>amt\<bar> < 2 ^ 256"
  shows "\<exists>r ex' sent. execute eth env ca da bo amt ex = Some (r, ex', sent)
    \<and> executeEnds eth env ca da bo amt ex r ex' sent"
proof -
  note data = calldata_abi [OF ok(1) amt, of ca da bo False]
  show ?thesis
  proof (cases "suggestGasPrice env")
    case (Inl e)
    then show ?thesis by (simp add: execute_def data executeEnds.early)
  next
    case price: (Inr price)
    obtain r ex1 where nn: "nextNonce env ex = (r, ex1)" by force
    show ?thesis
    proof (cases r)
      case (Inl e)
      with price nn nextNonce_frame [OF nn] show ?thesis by (simp add: execute_def data executeEnds.early)
    next
      case (Inr n)
      define tx where "tx = \<lparr>tx_nonce = n, tx_to = cfgLendingPool (cfg ex), tx_value = 0,
        tx_gas = cfgGasLimit (cfg ex), tx_gasPrice = capGasPrice (cfgMaxGasPrice (cfg ex)) price,
        tx_data = abiCalldata eth ca da bo amt False\<rparr>"
      have txok: "liquidation_tx_ok eth (cfg ex) ca da bo amt tx" "tx_nonce tx = n"
        by (simp_all add: liquidation_tx_ok_def tx_def capGasPrice_le)
      note nn' = nn [unfolded Inr]
      show ?thesis
      proof (cases "signTx env tx (cfgChainID (cfg ex))")
        case (Inl e)
        with price nn' show ?thesis
          by (simp add: execute_def data executeEnds.unsigned [OF nn'] flip: tx_def)
      next
        case sign: (Inr stx)
        then have "stxTx env stx = tx" using ok(2) by (simp add: signer_ok_def)
        with txok have stx: "tx_nonce (stxTx env stx) = n" "liquidation_tx_ok eth (cfg ex) ca da bo amt (stxTx env stx)"
          by simp_all
        show ?thesis
        proof (cases "sendTransaction env stx")
          case None
          with price nn' sign show ?thesis
            by (simp add: execute_def data Let_def executeEnds.accepted [OF nn' stx None] flip: tx_def)
        next
          case (Some e)
          with price nn' sign show ?thesis
            by (simp add: execute_def data executeEnds.refused [OF nn' stx] flip: tx_def)
        qed
      qed
    qed
  qed
qed

text \<open>C6: a call never panics for an amount below 2^256. Whatever the node and the signer answer,
  everything handed to the network goes to the lending pool, carries no value and the encoded
  liquidation, and its gas price respects the cap; a call that reports an error leaves the table
  as it was, and one that succeeds has had its one transaction accepted and adds exactly it, as
  pending.\<close>

theorem execute_correct:
  assumes "eth_ok eth" and "signer_ok env" and "\<bar>amt\<bar> < 2 ^ 256"
  shows "\<exists>r ex' sent. execute eth env ca da bo amt ex = Some (r, ex', sent) \<and> cfg ex' = cfg ex
    \<and> length sent \<le> 1
    \<and> (\<forall>stx\<in>set sent. liquidation_tx_ok eth (cfg ex) ca da bo amt (stxTx env stx))
    \<and> (case r of Inl e \<Rightarrow> pending ex' = pending ex
       | Inr l \<Rightarrow> l_status l = TxPending \<and> l_borrower l = bo \<and> l_debtAmount l = amt
           \<and> (\<exists>stx. sent = [stx] \<and> sendTransaction env stx = None \<and> l_txHash l = stxHash env stx)
           \<and> pending ex' = fmupd (l_txHash l) l (pending ex))"
proof -
  obtain r ex' sent where e: "execute eth env ca da bo amt ex = Some (r, ex', sent)"
    and ends: "executeEnds eth env ca da bo amt ex r ex' sent"
    using execute_outcome [OF assms] by blast
  from ends show ?thesis unfolding e by (cases rule: executeEnds_cases) (auto dest!: nextNonce_frame)
qed

text \<open>A node and a signer for examples: the signed transaction is the unsigned one.\<close>

definition exampleEnv :: "ethTx chainEnv" where
  "exampleEnv = \<lparr>suggestGasPrice = Inr (30 * 10 ^ 9), pendingNonceAt = (\<lambda>_. Inr 5), sendTransaction = (\<lambda>_. None),
     signTx = (\<lambda>tx _. Inr tx), signerAddress = 9, stxHash = (\<lambda>tx. ucast (tx_nonce tx)), stxTx = id, wallTime = 100\<rparr>"

definition exampleConfig :: execConfig where
  "exampleConfig = \<lparr>cfgChainID = 1, cfgLendingPool = 77, cfgMinProfitWei = None, cfgMaxGasPrice = Some (20 * 10 ^ 9),
     cfgGasLimit = 500000, cfgMaxRetries = 3, cfgRetryBaseDelay = 0\<rparr>"

lemma exampleEnv_ok [simp]: "signer_ok exampleEnv"
  by (simp add: signer_ok_def exampleEnv_def)

theorem execute_correct_witness:
  "\<exists>r ex' sent. execute exampleEth exampleEnv 1 2 3 (10 ^ 18) (newExecutor exampleConfig) = Some (r, ex', sent)
    \<and> cfg ex' = exampleConfig \<and> (\<forall>stx\<in>set sent. tx_gasPrice (stxTx exampleEnv stx) \<le> 20 * 10 ^ 9)"
  using execute_correct [of exampleEth exampleEnv "10 ^ 18" 1 2 3 "newExecutor exampleConfig"]
  by (fastforce simp: newExecutor_def exampleConfig_def liquidation_tx_ok_def)

section \<open>Nonces over a run of calls\<close>

text \<open>One call's arguments, and a run of calls with the transactions handed to the network.\<close>

type_synonym 'stx execCall = "'stx chainEnv \<times> address \<times> address \<times> address \<times> int"

fun executeAll :: "ethLib \<Rightarrow> 'stx execCall list \<Rightarrow> executor \<Rightarrow> (executor \<times> ethTx list) option" where
  "executeAll eth [] ex = Some (ex, [])"
| "executeAll eth ((env, ca, da, bo, amt) # cs) ex =
     (case execute eth env ca da bo amt ex of
        None \<Rightarrow> None
      | Some (r, ex1, sent) \<Rightarrow> map_option (apsnd ((@) (map (stxTx env) sent))) (executeAll eth cs ex1))"

definition call_ok :: "'stx execCall \<Rightarrow> bool" where
  "call_ok c = (case c of (env, _, _, _, amt) \<Rightarrow> signer_ok env \<and> \<bar>amt\<bar> < 2 ^ 256)"

definition nonceSeq :: "u64 \<Rightarrow> nat \<Rightarrow> u64 list" where
  "nonceSeq n k = map (\<lambda>i. n + of_nat i) [0..<k]"

lemma nonceSeq_Suc: "nonceSeq n (Suc k) = n # nonceSeq (n + 1) k"
proof -
  have "[0..<Suc k] = 0 # map Suc [0..<k]" by (simp only: upt_conv_Cons map_Suc_upt)
  then show ?thesis by (simp add: nonceSeq_def comp_def ac_simps del: upt_Suc)
qed

lemma nonceSeq_distinct: "k \<le> 2 ^ 64 \<Longrightarrow> distinct (nonceSeq n k)"
  by (auto simp: nonceSeq_def distinct_map inj_on_def word_of_nat_eq_iff take_bit_nat_eq_self)

text \<open>What a call does to the counter, once it is set.\<close>

lemma executeEnds_nonce:
  assumes "executeEnds eth env ca da bo amt ex r ex' sent" and "nonceSet ex"
  shows "nonceSet ex' \<and> (nonce ex' = nonce ex \<and> sent = []
    \<or> nonce ex' = nonce ex + 1 \<and> subseq (map (tx_nonce \<circ> stxTx env) sent) [nonce ex])"
  using assms by (cases rule: executeEnds_cases) (auto simp: nextNonce_def)

lemma executeEnds_first_nonce:
  assumes "executeEnds eth env ca da bo amt ex r ex' sent" and "\<not> nonceSet ex"
  shows "(\<not> nonceSet ex' \<and> sent = [])
    \<or> (\<exists>n. pendingNonceAt env (signerAddress env) = Inr n \<and> nonceSet ex' \<and> nonce ex' = n + 1
        \<and> subseq (map (tx_nonce \<circ> stxTx env) sent) [n])"
  using assms by (cases rule: executeEnds_cases) (auto simp: nextNonce_def split: sum.splits)

lemma nonceSeq_weaken:
  assumes "subseq xs (nonceSeq n k)"
  shows "subseq xs (nonceSeq n (Suc k))"
proof -
  have "subseq (nonceSeq n k) (nonceSeq n (Suc k))"
    by (intro prefix_imp_subseq) (simp add: nonceSeq_def)
  with assms show ?thesis by (rule subseq_order.order_trans)
qed

lemma nonceSeq_cons: "subseq xs [n] \<Longrightarrow> subseq ys (nonceSeq (n + 1) k) \<Longrightarrow> subseq (xs @ ys) (nonceSeq n (Suc k))"
  using list_emb_append_mono [of "(=)" xs "[n]" ys "nonceSeq (n + 1) k"] by (simp add: nonceSeq_Suc)

lemma executeAll_nonces_set:
  "eth_ok eth \<Longrightarrow> list_all call_ok cs \<Longrightarrow> nonceSet ex \<Longrightarrow> \<exists>ex' txs. executeAll eth cs ex = Some (ex', txs)
     \<and> nonceSet ex' \<and> subseq (map tx_nonce txs) (nonceSeq (nonce ex) (length cs))"
proof (induction cs arbitrary: ex)
  case (Cons c cs)
  obtain env ca da bo amt where c: "c = (env, ca, da, bo, amt)" by (cases c)
  with Cons.prems have "signer_ok env" "\<bar>amt\<bar> < 2 ^ 256" by (simp_all add: call_ok_def)
  then obtain r ex1 sent where e: "execute eth env ca da bo amt ex = Some (r, ex1, sent)"
      and ends: "executeEnds eth env ca da bo amt ex r ex1 sent"
    using execute_outcome [OF Cons.prems(1)] by blast
  note n = executeEnds_nonce [OF ends Cons.prems(3)]
  with Cons obtain ex' txs where rest: "executeAll eth cs ex1 = Some (ex', txs)" "nonceSet ex'"
      "subseq (map tx_nonce txs) (nonceSeq (nonce ex1) (length cs))" by fastforce
  have "subseq (map (tx_nonce \<circ> stxTx env) sent @ map tx_nonce txs) (nonceSeq (nonce ex) (Suc (length cs)))"
    using n rest(3) by (auto intro: nonceSeq_weaken nonceSeq_cons)
  with c e rest show ?case by simp
qed (simp add: nonceSeq_def)

lemma executeAll_nonces_unset:
  "eth_ok eth \<Longrightarrow> list_all call_ok cs \<Longrightarrow> \<not> nonceSet ex \<Longrightarrow> \<exists>ex' txs n. executeAll eth cs ex = Some (ex', txs)
     \<and> subseq (map tx_nonce txs) (nonceSeq n (length cs))
     \<and> (txs \<noteq> [] \<longrightarrow> (\<exists>(env, _)\<in>set cs. pendingNonceAt env (signerAddress env) = Inr n))"
proof (induction cs arbitrary: ex)
  case (Cons c cs)
  obtain env ca da bo amt where c: "c = (env, ca, da, bo, amt)" by (cases c)
  with Cons.prems have "signer_ok env" "\<bar>amt\<bar> < 2 ^ 256" by (simp_all add: call_ok_def)
  then obtain r ex1 sent where e: "execute eth env ca da bo amt ex = Some (r, ex1, sent)"
      and ends: "executeEnds eth env ca da bo amt ex r ex1 sent"
    using execute_outcome [OF Cons.prems(1)] by blast
  from executeEnds_first_nonce [OF ends Cons.prems(3)] show ?case
  proof (elim disjE exE conjE)
    assume u: "\<not> nonceSet ex1" "sent = []"
    with Cons obtain ex' txs n where rest: "executeAll eth cs ex1 = Some (ex', txs)"
      "subseq (map tx_nonce txs) (nonceSeq n (length cs))"
      "txs \<noteq> [] \<longrightarrow> (\<exists>(env, _)\<in>set cs. pendingNonceAt env (signerAddress env) = Inr n)" by fastforce
    then have "subseq (map tx_nonce txs) (nonceSeq n (Suc (length cs)))" by (intro nonceSeq_weaken)
    with c e u(2) rest(1,3) show ?thesis by (intro exI [of _ ex'] exI [of _ txs] exI [of _ n]) auto
  next
    fix n assume u: "pendingNonceAt env (signerAddress env) = Inr n" "nonceSet ex1" "nonce ex1 = n + 1"
      "subseq (map (tx_nonce \<circ> stxTx env) sent) [n]"
    from Cons.prems obtain ex' txs where rest: "executeAll eth cs ex1 = Some (ex', txs)"
      "subseq (map tx_nonce txs) (nonceSeq (n + 1) (length cs))"
      using executeAll_nonces_set [of eth cs ex1] u by auto
    from nonceSeq_cons [OF u(4) rest(2)] c e u(1) rest(1) show ?thesis
      by (intro exI [of _ ex'] exI [of _ "map (stxTx env) sent @ txs"] exI [of _ n]) auto
  qed
qed (simp add: nonceSeq_def)

text \<open>C34: over any run of calls, whatever the node answers to each, the transactions handed to the
  network carry distinct nonces in increasing order, counted from a value the node reported.\<close>

theorem executor_nonces:
  assumes "eth_ok eth" and "list_all call_ok cs" and "length cs \<le> 2 ^ 64"
  shows "\<exists>ex' txs n. executeAll eth cs (newExecutor c) = Some (ex', txs) \<and> distinct (map tx_nonce txs)
     \<and> subseq (map tx_nonce txs) (map (\<lambda>i. n + of_nat i) [0..<length cs])
     \<and> (txs \<noteq> [] \<longrightarrow> (\<exists>(env, _)\<in>set cs. pendingNonceAt env (signerAddress env) = Inr n))"
proof -
  have unset: "\<not> nonceSet (newExecutor c)" by (simp add: newExecutor_def)
  obtain ex' txs n where r: "executeAll eth cs (newExecutor c) = Some (ex', txs)"
      "subseq (map tx_nonce txs) (nonceSeq n (length cs))"
      "txs \<noteq> [] \<longrightarrow> (\<exists>(env, _)\<in>set cs. pendingNonceAt env (signerAddress env) = Inr n)"
    using executeAll_nonces_unset [OF assms(1,2) unset] by blast
  then have "distinct (map tx_nonce txs)"
    using nonceSeq_distinct [OF assms(3), of n] by (metis subseq_conv_nths distinct_nthsI)
  with r show ?thesis unfolding nonceSeq_def by blast
qed

definition refusingEnv :: "ethTx chainEnv" where
  "refusingEnv = exampleEnv\<lparr>sendTransaction := (\<lambda>_. Some ''insufficient funds'')\<rparr>"

lemma refusingEnv_ok [simp]: "signer_ok refusingEnv"
  by (simp add: signer_ok_def refusingEnv_def exampleEnv_def)

theorem executor_nonces_witness:
  "\<exists>ex' txs n. executeAll exampleEth [(exampleEnv, 1, 2, 3, 10), (refusingEnv, 1, 2, 4, 10), (exampleEnv, 1, 2, 5, 10)]
      (newExecutor exampleConfig) = Some (ex', txs)
    \<and> subseq (map tx_nonce txs) (map (\<lambda>i. n + of_nat i) [0..<length [(exampleEnv, 1 :: address, 2 :: address, 3 :: address, 10 :: int),
        (refusingEnv, 1, 2, 4, 10), (exampleEnv, 1, 2, 5, 10)]])"
  using executor_nonces [of exampleEth "[(exampleEnv, 1, 2, 3, 10), (refusingEnv, 1, 2, 4, 10), (exampleEnv, 1, 2, 5, 10)]"
      exampleConfig] by (fastforce simp: call_ok_def simp del: upt_Suc)

text \<open>A nonce is taken for good. Once the counter is set, a call whose transaction cannot be
  signed or is refused by the node still advances it, and no later call sends that nonce again:
  the account's next expected nonce is never used and everything sent after it has to wait.\<close>

theorem executor_nonce_gap:
  assumes "eth_ok eth" and "nonceSet ex" and "\<bar>amt\<bar> < 2 ^ 256" and "suggestGasPrice env = Inr price"
    and "\<forall>tx stx. signTx env tx (cfgChainID (cfg ex)) = Inr stx \<longrightarrow> sendTransaction env stx \<noteq> None"
    and "list_all call_ok cs" and "length cs < 2 ^ 64"
  shows "\<exists>e sent. execute eth env ca da bo amt ex = Some (Inl e, ex\<lparr>nonce := nonce ex + 1\<rparr>, sent)
    \<and> (\<exists>ex' txs. executeAll eth cs (ex\<lparr>nonce := nonce ex + 1\<rparr>) = Some (ex', txs) \<and> nonce ex \<notin> set (map tx_nonce txs))"
proof -
  let ?ex = "ex\<lparr>nonce := nonce ex + 1\<rparr>"
  have fail: "\<exists>e sent. execute eth env ca da bo amt ex = Some (Inl e, ?ex, sent)"
    using assms(2,4) assms(5) calldata_abi [OF assms(1,3)]
    by (auto simp add: execute_def nextNonce_def Let_def split: sum.splits option.splits)
      (metis option.distinct(1))
  obtain ex' txs where r: "executeAll eth cs ?ex = Some (ex', txs)"
      "subseq (map tx_nonce txs) (nonceSeq (nonce ex + 1) (length cs))"
    using executeAll_nonces_set [OF assms(1,6), of ?ex] assms(2) by auto
  have "distinct (nonceSeq (nonce ex) (Suc (length cs)))"
    using assms(7) by (intro nonceSeq_distinct) simp
  then have "nonce ex \<notin> set (nonceSeq (nonce ex + 1) (length cs))" by (simp add: nonceSeq_Suc)
  moreover have "set (map tx_nonce txs) \<subseteq> set (nonceSeq (nonce ex + 1) (length cs))"
    using r(2) by (metis notin_set_nthsI subseq_conv_nths subsetI)
  ultimately show ?thesis using fail r(1) by blast
qed

theorem executor_nonce_gap_witness:
  "\<exists>e sent. execute exampleEth refusingEnv 1 2 3 10 ((newExecutor exampleConfig)\<lparr>nonce := 6, nonceSet := True\<rparr>)
      = Some (Inl e, (newExecutor exampleConfig)\<lparr>nonceSet := True, nonce := 7\<rparr>, sent)"
  using executor_nonce_gap [of exampleEth "(newExecutor exampleConfig)\<lparr>nonce := 6, nonceSet := True\<rparr>" 10 refusingEnv
      "30 * 10 ^ 9" "[]" 1 2 3] by (simp add: refusingEnv_def exampleEnv_def)

section \<open>The table of transactions\<close>

definition isPending :: "executor \<Rightarrow> hash \<Rightarrow> bool" where
  "isPending ex h \<longleftrightarrow> (\<exists>tx. fmlookup (pending ex) h = Some tx \<and> l_status tx = TxPending)"

lemma pendingCount_card: "pendingCount ex = card {h. isPending ex h}"
proof -
  have "fset (fmdom (fmfilter (\<lambda>h. case fmlookup (pending ex) h of Some tx \<Rightarrow> l_status tx = TxPending | None \<Rightarrow> False)
      (pending ex))) = {h. isPending ex h}"
    by (auto simp: isPending_def fmlookup_dom_iff split: option.splits)
  then show ?thesis by (simp only: pendingCount_def fmsize_def fcard.rep_eq)
qed

lemma isPending_finite: "finite {h. isPending ex h}"
proof (rule finite_subset)
  show "{h. isPending ex h} \<subseteq> fmdom' (pending ex)" by (auto simp: isPending_def fmlookup_dom'_iff)
qed simp

text \<open>Confirming or failing a transaction in flight takes exactly it out of the pending count
  and keeps every other entry; for an unknown hash both do nothing. Neither looks at the old
  status, so a confirmed transaction can still be marked failed, and no entry is ever removed.\<close>

theorem mark_pendingCount:
  "let ex1 = markConfirmed h g pr now ex; ex2 = markFailed h ex in
    (isPending ex h \<longrightarrow> Suc (pendingCount ex1) = pendingCount ex \<and> Suc (pendingCount ex2) = pendingCount ex)
    \<and> (fmlookup (pending ex) h = None \<longrightarrow> ex1 = ex \<and> ex2 = ex)
    \<and> (\<forall>tx. fmlookup (pending ex) h = Some tx \<longrightarrow>
         map_option l_status (fmlookup (pending ex1) h) = Some TxConfirmed
         \<and> map_option l_status (fmlookup (pending ex2) h) = Some TxFailed)
    \<and> (\<forall>k. k \<noteq> h \<longrightarrow> fmlookup (pending ex1) k = fmlookup (pending ex) k
         \<and> fmlookup (pending ex2) k = fmlookup (pending ex) k)
    \<and> fmdom (pending ex1) = fmdom (pending ex) \<and> fmdom (pending ex2) = fmdom (pending ex)"
proof (cases "fmlookup (pending ex) h")
  case None
  then show ?thesis by (simp add: markConfirmed_def markFailed_def isPending_def)
next
  case (Some tx)
  define ex1 where "ex1 = markConfirmed h g pr now ex"
  define ex2 where "ex2 = markFailed h ex"
  have "{k. isPending ex1 k} = {k. isPending ex k} - {h}" "{k. isPending ex2 k} = {k. isPending ex k} - {h}"
    using Some by (auto simp: ex1_def ex2_def markConfirmed_def markFailed_def isPending_def split: if_splits)
  then have "isPending ex h \<Longrightarrow> Suc (pendingCount ex1) = pendingCount ex \<and> Suc (pendingCount ex2) = pendingCount ex"
    using card_Suc_Diff1 [OF isPending_finite [of ex], of h] by (simp add: pendingCount_card)
  moreover have "h |\<in>| fmdom (pending ex)" using Some by (rule fmdomI)
  moreover have "map_option l_status (fmlookup (pending ex1) h) = Some TxConfirmed"
      "map_option l_status (fmlookup (pending ex2) h) = Some TxFailed"
      "pending ex1 = fmupd h (the (fmlookup (pending ex1) h)) (pending ex)"
      "pending ex2 = fmupd h (the (fmlookup (pending ex2) h)) (pending ex)"
    using Some by (simp_all add: ex1_def ex2_def markConfirmed_def markFailed_def)
  ultimately show ?thesis using Some unfolding Let_def ex1_def [symmetric] ex2_def [symmetric]
    by (metis finsert_absorb fmdom_fmupd fmupd_lookup option.distinct(1))
qed

theorem mark_pendingCount_witness:
  "\<exists>ex. pendingCount ex = 1 \<and> pendingCount (markFailed 5 ex) = 0"
proof -
  define ex where "ex = (case execute exampleEth exampleEnv 1 2 3 10 (newExecutor exampleConfig) of
    Some (_, e, _) \<Rightarrow> e | None \<Rightarrow> newExecutor exampleConfig)"
  have "(case fmlookup (pending ex) 5 of Some tx \<Rightarrow> l_status tx = TxPending | None \<Rightarrow> False) \<and> pendingCount ex = 1"
    unfolding ex_def by code_simp
  then have "isPending ex 5" "pendingCount ex = 1" by (simp_all add: isPending_def split: option.splits)
  then show ?thesis using mark_pendingCount [of 5 0 None 0 ex] by (intro exI [of _ ex]) (simp add: Let_def)
qed

end
