(* ===== verification/LiquidationService.thy ===== *)
theory LiquidationService
  imports RateComputer Scanner Executor
begin

text \<open>
  \<open>internal/liquidation/service.go\<close>: one scan of the liquidation engine, from the rate computer
  through the scanner to the executor, and the engine as a transition system.
\<close>

section \<open>The rate computer provides the scanner's indices\<close>

interpretation rateIndex: index_provider rc_ok currentBorrowIndex currentLiquidityIndex
proof unfold_locales
  fix rc m now i assume ok: "rc_ok rc"
  show "0 \<le> i" if "currentBorrowIndex rc m now = Some i"
    using that ok by (auto simp: currentBorrowIndex_def pool_ok_def pool_base_ok_def extrapolateIndex_nonneg
        dest!: rc_okD split: option.splits)
  show "0 \<le> i" if "currentLiquidityIndex rc m now = Some i"
    using that ok by (auto simp: currentLiquidityIndex_def pool_ok_def pool_base_ok_def extrapolateIndex_nonneg
        dest!: rc_okD split: option.splits)
qed

section \<open>The service\<close>

record liqService =
  svcRate :: rateComputer
  svcScanner :: scanner
  svcExecutor :: executor

text \<open>\<open>NewService\<close>, and the two parts it hands out.\<close>

definition newLiqService :: "rateComputer \<Rightarrow> scanner \<Rightarrow> executor \<Rightarrow> liqService" where
  "newLiqService rc sc exec = \<lparr>svcRate = rc, svcScanner = sc, svcExecutor = exec\<rparr>"

text \<open>The loop of \<open>scan\<close> over the candidates. The world answers turn \<open>i\<close> with \<open>cancelled i\<close> and
  \<open>env i\<close>. An execution error is logged and the loop goes on. With the executor comes the list of
  transactions handed to the network.\<close>

fun liquidateLoop ::
  "ethLib \<Rightarrow> (nat \<Rightarrow> bool) \<Rightarrow> (nat \<Rightarrow> 'stx chainEnv) \<Rightarrow> nat \<Rightarrow> userPosition list \<Rightarrow> executor \<Rightarrow>
     (executor \<times> ethTx list) option" where
  "liquidateLoop eth cancelled env i [] ex = Some (ex, [])"
| "liquidateLoop eth cancelled env i (pos # ps) ex =
     (if cancelled i then Some (ex, [])
      else (case (debts pos, collaterals pos) of
          (debt # _, collateral # _) \<Rightarrow>
            (let halfDebt = big_div (d_borrowBalance debt) 2 in
             (case execute eth (env i) (c_assetAddress collateral) (d_assetAddress debt)
                     (userAddress pos) halfDebt ex of
                None \<Rightarrow> None
              | Some (_, ex1, sent) \<Rightarrow>
                  map_option (apsnd ((@) (map (stxTx (env i)) sent)))
                    (liquidateLoop eth cancelled env (Suc i) ps ex1)))
        | _ \<Rightarrow> liquidateLoop eth cancelled env (Suc i) ps ex))"

definition scan ::
  "ethLib \<Rightarrow> (nat \<Rightarrow> bool) \<Rightarrow> (nat \<Rightarrow> 'stx chainEnv) \<Rightarrow> address list \<Rightarrow> address list \<Rightarrow> i64 \<Rightarrow>
     liqService \<Rightarrow> (liqService \<times> ethTx list) option" where
  "scan eth cancelled env order order' now s = do {
     sc \<leftarrow> refreshAll (currentLiquidityIndex (svcRate s)) (currentBorrowIndex (svcRate s)) now order (svcScanner s);
     let candidates = findLiquidatable order' sc;
     if candidates = [] then Some (s\<lparr>svcScanner := sc\<rparr>, [])
     else do {
       (ex, txs) \<leftarrow> liquidateLoop eth cancelled env 0 candidates (svcExecutor s);
       Some (s\<lparr>svcScanner := sc, svcExecutor := ex\<rparr>, txs)
     }
   }"

section \<open>The loop\<close>

text \<open>What the loop does for a position, if it does anything.\<close>

definition job :: "userPosition \<Rightarrow> (address \<times> address \<times> address \<times> int) option" where
  "job pos = (case (debts pos, collaterals pos) of
     (d # _, c # _) \<Rightarrow> Some (c_assetAddress c, d_assetAddress d, userAddress pos, d_borrowBalance d div 2)
   | _ \<Rightarrow> None)"

definition job_tx_ok :: "ethLib \<Rightarrow> execConfig \<Rightarrow> address \<times> address \<times> address \<times> int \<Rightarrow> ethTx \<Rightarrow> bool" where
  "job_tx_ok eth c j tx = (case j of (ca, da, bo, amt) \<Rightarrow> liquidation_tx_ok eth c ca da bo amt tx)"

text \<open>The debt the loop would repay fits in 256 bits.\<close>

definition debt_fits :: "userPosition \<Rightarrow> bool" where
  "debt_fits pos = (case debts pos of [] \<Rightarrow> True | d # _ \<Rightarrow> \<bar>d_borrowBalance d div 2\<bar> < 2 ^ 256)"

text \<open>A node and a signer that refuse nothing.\<close>

definition willing :: "'stx chainEnv \<Rightarrow> bool" where
  "willing env \<longleftrightarrow> (\<exists>g. suggestGasPrice env = Inr g) \<and> (\<forall>a. \<exists>n. pendingNonceAt env a = Inr n)
     \<and> (\<forall>tx c. \<exists>stx. signTx env tx c = Inr stx) \<and> (\<forall>stx. sendTransaction env stx = None)"

lemma liquidateLoop_job:
  "\<not> cancelled i \<Longrightarrow> liquidateLoop eth cancelled env i (pos # ps) ex = (case job pos of
     None \<Rightarrow> liquidateLoop eth cancelled env (Suc i) ps ex
   | Some (ca, da, bo, amt) \<Rightarrow> (case execute eth (env i) ca da bo amt ex of
        None \<Rightarrow> None
      | Some (_, ex1, sent) \<Rightarrow> map_option (apsnd ((@) (map (stxTx (env i)) sent)))
          (liquidateLoop eth cancelled env (Suc i) ps ex1)))"
  by (simp add: job_def Let_def split: list.split)

lemma job_fits: "debt_fits pos \<Longrightarrow> job pos = Some (ca, da, bo, amt) \<Longrightarrow> \<bar>amt\<bar> < 2 ^ 256"
  by (auto simp: job_def debt_fits_def split: list.splits)

lemma execute_frame:
  assumes "eth_ok eth" and "signer_ok env" and "\<bar>amt\<bar> < 2 ^ 256"
  shows "\<exists>r ex' sent. execute eth env ca da bo amt ex = Some (r, ex', sent) \<and> cfg ex' = cfg ex
    \<and> length sent \<le> 1 \<and> (\<forall>stx\<in>set sent. liquidation_tx_ok eth (cfg ex) ca da bo amt (stxTx env stx))
    \<and> (willing env \<longrightarrow> length sent = 1)"
proof -
  obtain r ex' sent where e: "execute eth env ca da bo amt ex = Some (r, ex', sent)"
    and ends: "executeEnds eth env ca da bo amt ex r ex' sent"
    using execute_outcome [OF assms] by blast
  have frame: "cfg ex' = cfg ex \<and> length sent \<le> 1
      \<and> (\<forall>stx\<in>set sent. liquidation_tx_ok eth (cfg ex) ca da bo amt (stxTx env stx))"
    using ends by (cases rule: executeEnds_cases) (auto dest!: nextNonce_frame)
  have "length sent = 1" if w: "willing env"
  proof -
    obtain g where "suggestGasPrice env = Inr g" using w by (auto simp: willing_def)
    moreover obtain m where "pendingNonceAt env (signerAddress env) = Inr m" using w unfolding willing_def by blast
    then have "\<exists>n ex1. nextNonce env ex = (Inr n, ex1)" by (simp add: nextNonce_def)
    ultimately show ?thesis using e w calldata_abi [OF assms(1,3), of ca da bo False]
      by (auto simp: execute_def Let_def willing_def split: sum.splits option.splits)
        (metis Inr_not_Inl)
  qed
  with e frame show ?thesis by blast
qed

text \<open>The loop returns and everything it sends is some candidate's job; with a willing world and no
  cancellation it does every job, in order.\<close>

lemma liquidateLoop_sends:
  "eth_ok eth \<Longrightarrow> \<forall>i. signer_ok (env i) \<Longrightarrow> list_all debt_fits ps \<Longrightarrow>
     \<exists>ex' txs. liquidateLoop eth cancelled env i ps ex = Some (ex', txs) \<and> cfg ex' = cfg ex
       \<and> length txs \<le> length ps
       \<and> (\<forall>tx\<in>set txs. \<exists>p\<in>set ps. \<exists>j. job p = Some j \<and> job_tx_ok eth (cfg ex) j tx)
       \<and> ((\<forall>i. \<not> cancelled i \<and> willing (env i)) \<longrightarrow> list_all2 (job_tx_ok eth (cfg ex)) (List.map_filter job ps) txs)"
proof (induction ps arbitrary: i ex)
  case (Cons p ps)
  show ?case
  proof (cases "cancelled i \<or> job p = None")
    case True
    then show ?thesis
    proof (cases "cancelled i")
      case False
      with True have "job p = None" by simp
      with False Cons.IH [of "Suc i" ex] Cons.prems show ?thesis
        unfolding liquidateLoop_job [of cancelled i, OF False] by (fastforce simp: map_filter_simps)
    qed auto
  next
    case False
    then have go: "\<not> cancelled i" by simp
    from False obtain ca da bo amt where j: "job p = Some (ca, da, bo, amt)" by (cases "job p") auto
    with Cons.prems have "\<bar>amt\<bar> < 2 ^ 256" by (intro job_fits [OF _ j]) simp
    then obtain r ex1 sent where e: "execute eth (env i) ca da bo amt ex = Some (r, ex1, sent)" "cfg ex1 = cfg ex"
        "length sent \<le> 1" "\<forall>stx\<in>set sent. liquidation_tx_ok eth (cfg ex) ca da bo amt (stxTx (env i) stx)"
        "willing (env i) \<longrightarrow> length sent = 1"
      using execute_frame [OF Cons.prems(1)] Cons.prems(2) by blast
    obtain ex' txs where l: "liquidateLoop eth cancelled env (Suc i) ps ex1 = Some (ex', txs)" "cfg ex' = cfg ex"
       "length txs \<le> length ps" "\<forall>tx\<in>set txs. \<exists>p\<in>set ps. \<exists>j. job p = Some j \<and> job_tx_ok eth (cfg ex) j tx"
       "(\<forall>i. \<not> cancelled i \<and> willing (env i)) \<longrightarrow> list_all2 (job_tx_ok eth (cfg ex)) (List.map_filter job ps) txs"
      using Cons.IH [of "Suc i" ex1] Cons.prems e(2) by auto
    have all: "list_all2 (job_tx_ok eth (cfg ex)) (List.map_filter job (p # ps)) (map (stxTx (env i)) sent @ txs)"
      if "\<forall>i. \<not> cancelled i \<and> willing (env i)"
    proof -
      have "length sent = 1" using that e(5) by blast
      then obtain stx where "sent = [stx]" by (auto simp: length_Suc_conv)
      with that e(4) l(5) j show ?thesis by (simp add: map_filter_simps job_tx_ok_def)
    qed
    have "liquidateLoop eth cancelled env i (p # ps) ex = Some (ex', map (stxTx (env i)) sent @ txs)"
      using j e(1) l(1) unfolding liquidateLoop_job [of cancelled i, OF go] by simp
    moreover have "\<forall>tx\<in>set (map (stxTx (env i)) sent @ txs). \<exists>q\<in>set (p # ps). \<exists>j. job q = Some j \<and> job_tx_ok eth (cfg ex) j tx"
      using e(4) l(4) j by (auto simp: job_tx_ok_def)
    ultimately show ?thesis using l(2,3) e(3) all by auto
  qed
qed (simp add: map_filter_simps)

section \<open>A whole scan\<close>

definition scan_ready :: "address list \<Rightarrow> liqService \<Rightarrow> bool" where
  "scan_ready order s \<longleftrightarrow> scanner_ok (svcScanner s) \<and> set order = fmdom' (positions (svcScanner s))
     \<and> (\<forall>a p. fmlookup (positions (svcScanner s)) a = Some p \<longrightarrow> debt_fits p)"

text \<open>A position below water at the time of the scan, with its health factor.\<close>

definition below_water :: "liqService \<Rightarrow> i64 \<Rightarrow> userPosition \<Rightarrow> bool" where
  "below_water s now p = (case calculateHealthFactor p (currentLiquidityIndex (svcRate s))
     (currentBorrowIndex (svcRate s)) now of None \<Rightarrow> False | Some hf \<Rightarrow> hf < RAY)"

lemma job_entries:
  "debts p = debts q \<Longrightarrow> collaterals p = collaterals q \<Longrightarrow> userAddress p = userAddress q \<Longrightarrow> job p = job q"
  by (simp add: job_def split: list.split)

lemma findLiquidatable_stored:
  "p \<in> set (findLiquidatable order s) \<Longrightarrow> \<exists>a\<in>set order. fmlookup (positions s) a = Some p \<and> unhealthy p"
  by (induction order) (auto split: option.splits if_splits)

text \<open>What a refresh does to a stored position.\<close>

lemma refreshed_lookup:
  assumes "scanner_ok sc" and "posView sc' = specRefresh l b now (posView sc)"
  shows "(\<exists>q. fmlookup (positions sc') a = Some q \<and> P (debts q) (collaterals q) (userAddress q) (healthFactor q))
    \<longleftrightarrow> (\<exists>p. fmlookup (positions sc) a = Some p
          \<and> P (debts p) (collaterals p) (userAddress p) (calculateHealthFactor p l b now))"
proof -
  have v: "map_option (heapIndex_update (\<lambda>_. 0)) (fmlookup (positions sc') a)
      = map_option (refreshed l b now) (map_option (heapIndex_update (\<lambda>_. 0)) (fmlookup (positions sc) a))"
    using assms(2) by (metis fmlookup_map lookup_posView specRefresh_def)
  have key: "(debts q, collaterals q, userAddress q, healthFactor q)
      = (debts p, collaterals p, userAddress p, calculateHealthFactor p l b now)"
    if "q\<lparr>heapIndex := 0\<rparr> = refreshed l b now (p\<lparr>heapIndex := 0\<rparr>)" for p q
  proof -
    from arg_cong [OF that, of debts] arg_cong [OF that, of collaterals] arg_cong [OF that, of userAddress]
      arg_cong [OF that, of healthFactor] show ?thesis
      by (simp add: healthFactor_entries [of "p\<lparr>heapIndex := 0\<rparr>" p])
  qed
  show ?thesis
  proof (cases "fmlookup (positions sc) a")
    case None
    with v have "fmlookup (positions sc') a = None" by simp
    with None show ?thesis by simp
  next
    case (Some p)
    with v obtain q where q: "fmlookup (positions sc') a = Some q"
        "q\<lparr>heapIndex := 0\<rparr> = refreshed l b now (p\<lparr>heapIndex := 0\<rparr>)" by auto
    with key [OF q(2)] Some show ?thesis by simp
  qed
qed

definition same_data :: "userPosition \<Rightarrow> userPosition \<Rightarrow> bool" where
  "same_data p q \<longleftrightarrow> debts q = debts p \<and> collaterals q = collaterals p \<and> userAddress q = userAddress p"

lemma same_data_simps [simp]: "same_data p q \<Longrightarrow> job q = job p" "same_data p q \<Longrightarrow> debt_fits q = debt_fits p"
  using job_entries [of q p] by (simp_all add: same_data_def debt_fits_def)

text \<open>The candidates of a scan are the positions below water before it, refreshed.\<close>

lemma refreshed_candidates:
  assumes "scan_ready order s"
  shows "\<exists>sc. refreshAll (currentLiquidityIndex (svcRate s)) (currentBorrowIndex (svcRate s)) now order (svcScanner s) = Some sc
    \<and> scanner_ok sc
    \<and> (\<forall>q\<in>set (findLiquidatable order' sc). \<exists>p. fmlookup (positions (svcScanner s)) (userAddress p) = Some p
        \<and> below_water s now p \<and> same_data p q)
    \<and> (\<forall>a\<in>set order'. \<forall>p. fmlookup (positions (svcScanner s)) a = Some p \<longrightarrow> below_water s now p \<longrightarrow>
        (\<exists>q\<in>set (findLiquidatable order' sc). same_data p q))"
proof -
  let ?l = "currentLiquidityIndex (svcRate s)" and ?b = "currentBorrowIndex (svcRate s)"
  have ok: "scanner_ok (svcScanner s)" "set order = fmdom' (positions (svcScanner s))"
    using assms by (simp_all add: scan_ready_def)
  obtain sc where sc: "refreshAll ?l ?b now order (svcScanner s) = Some sc" "scanner_ok sc"
      "posView sc = specRefresh ?l ?b now (posView (svcScanner s))"
    using refreshAll_refines [OF ok] by blast
  note look = refreshed_lookup [OF ok(1) sc(3)]
  have addr: "fmlookup (positions (svcScanner s)) a = Some p \<Longrightarrow> userAddress p = a" for a p
    using ok(1) by (simp add: scanner_ok_def addr_ok_def)
  have "\<exists>p. fmlookup (positions (svcScanner s)) (userAddress p) = Some p \<and> below_water s now p \<and> same_data p q"
    if mem: "q \<in> set (findLiquidatable order' sc)" for q
  proof -
    obtain a where a: "fmlookup (positions sc) a = Some q" "unhealthy q"
      using findLiquidatable_stored [OF mem] by blast
    have "\<exists>q'. fmlookup (positions sc) a = Some q' \<and> (debts q' = debts q \<and> collaterals q' = collaterals q
        \<and> userAddress q' = userAddress q \<and> healthFactor q' = healthFactor q)" using a(1) by blast
    then obtain p where p: "fmlookup (positions (svcScanner s)) a = Some p" "debts p = debts q"
        "collaterals p = collaterals q" "userAddress p = userAddress q"
        "calculateHealthFactor p ?l ?b now = healthFactor q"
      unfolding look [of a "\<lambda>x y z w. x = debts q \<and> y = collaterals q \<and> z = userAddress q \<and> w = healthFactor q"]
      by blast
    with a(2) addr [OF p(1)] show ?thesis
      by (intro exI [of _ p]) (simp add: below_water_def unhealthy_def same_data_def)
  qed
  moreover have "\<exists>q\<in>set (findLiquidatable order' sc). same_data p q"
    if p: "a \<in> set order'" "fmlookup (positions (svcScanner s)) a = Some p" "below_water s now p" for a p
  proof -
    let ?P = "\<lambda>x y z w. x = debts p \<and> y = collaterals p \<and> z = userAddress p \<and> w = calculateHealthFactor p ?l ?b now"
    have "\<exists>p'. fmlookup (positions (svcScanner s)) a = Some p' \<and>
        ?P (debts p') (collaterals p') (userAddress p') (calculateHealthFactor p' ?l ?b now)" using p(2) by blast
    then obtain q where q: "fmlookup (positions sc) a = Some q" "debts q = debts p" "collaterals q = collaterals p"
        "userAddress q = userAddress p" "healthFactor q = calculateHealthFactor p ?l ?b now"
      unfolding look [of a ?P, symmetric] by blast
    then have "unhealthy q" using p(3) by (simp add: unhealthy_def below_water_def)
    then have "a \<in> set (map userAddress (findLiquidatable order' sc))"
      using sc(2) p(1) q(1) by (simp only: findLiquidatable_addresses scanner_ok_def) auto
    then obtain q' where q': "q' \<in> set (findLiquidatable order' sc)" "userAddress q' = a" by auto
    then have "q' = q" using findLiquidatable_stored [OF q'(1)] sc(2) q(1)
      by (auto simp: scanner_ok_def addr_ok_def)
    with q q' show ?thesis by (auto simp: same_data_def)
  qed
  ultimately show ?thesis using sc(1,2) by blast
qed

lemma findLiquidatable_length: "length (findLiquidatable order s) \<le> length order"
  by (induction order) (auto split: option.splits)

lemma map_filter_mem: "x \<in> set xs \<Longrightarrow> f x = Some y \<Longrightarrow> y \<in> set (List.map_filter f xs)"
  by (induction xs) (auto simp: map_filter_simps split: option.split)

lemma list_all2_mem: "list_all2 P xs ys \<Longrightarrow> x \<in> set xs \<Longrightarrow> \<exists>y\<in>set ys. P x y"
  by (induction rule: list_all2_induct) auto

lemma scan_outcome:
  assumes "eth_ok eth" and "\<forall>i. signer_ok (env i)" and "scan_ready order s"
  shows "\<exists>s' txs. scan eth cancelled env order order' now s = Some (s', txs) \<and> svcRate s' = svcRate s
    \<and> scanner_ok (svcScanner s') \<and> cfg (svcExecutor s') = cfg (svcExecutor s) \<and> length txs \<le> length order'
    \<and> (\<forall>tx\<in>set txs. \<exists>p j. fmlookup (positions (svcScanner s)) (userAddress p) = Some p \<and> below_water s now p
         \<and> job p = Some j \<and> job_tx_ok eth (cfg (svcExecutor s)) j tx)
    \<and> ((\<forall>i. \<not> cancelled i \<and> willing (env i)) \<longrightarrow>
        (\<forall>a\<in>set order'. \<forall>p j. fmlookup (positions (svcScanner s)) a = Some p \<longrightarrow> below_water s now p \<longrightarrow>
           job p = Some j \<longrightarrow> (\<exists>tx\<in>set txs. job_tx_ok eth (cfg (svcExecutor s)) j tx)))"
proof -
  obtain sc where sc: "refreshAll (currentLiquidityIndex (svcRate s)) (currentBorrowIndex (svcRate s)) now order
        (svcScanner s) = Some sc" "scanner_ok sc"
      and bwd: "\<forall>q\<in>set (findLiquidatable order' sc). \<exists>p. fmlookup (positions (svcScanner s)) (userAddress p) = Some p
        \<and> below_water s now p \<and> same_data p q"
      and fwd: "\<forall>a\<in>set order'. \<forall>p. fmlookup (positions (svcScanner s)) a = Some p \<longrightarrow> below_water s now p \<longrightarrow>
        (\<exists>q\<in>set (findLiquidatable order' sc). same_data p q)"
    using refreshed_candidates [OF assms(3)] by blast
  define cs where "cs = findLiquidatable order' sc"
  have "list_all debt_fits cs"
    using bwd assms(3) by (fastforce simp: list_all_iff cs_def scan_ready_def)
  then obtain ex txs where l: "liquidateLoop eth cancelled env 0 cs (svcExecutor s) = Some (ex, txs)"
      "cfg ex = cfg (svcExecutor s)" "length txs \<le> length cs"
      "\<forall>tx\<in>set txs. \<exists>p\<in>set cs. \<exists>j. job p = Some j \<and> job_tx_ok eth (cfg (svcExecutor s)) j tx"
      "(\<forall>i. \<not> cancelled i \<and> willing (env i)) \<longrightarrow>
         list_all2 (job_tx_ok eth (cfg (svcExecutor s))) (List.map_filter job cs) txs"
    using liquidateLoop_sends [OF assms(1,2)] by blast
  define s' where "s' = (if cs = [] then s\<lparr>svcScanner := sc\<rparr> else s\<lparr>svcScanner := sc, svcExecutor := ex\<rparr>)"
  have eq: "scan eth cancelled env order order' now s = Some (s', txs)"
  proof (cases "cs = []")
    case True
    with l(1) have "txs = []" by simp
    with True sc(1) show ?thesis by (simp add: scan_def Let_def s'_def flip: cs_def)
  next
    case False
    with sc(1) l(1) show ?thesis by (simp add: scan_def Let_def s'_def flip: cs_def)
  qed
  have sound: "\<exists>p j. fmlookup (positions (svcScanner s)) (userAddress p) = Some p \<and> below_water s now p
      \<and> job p = Some j \<and> job_tx_ok eth (cfg (svcExecutor s)) j tx" if mem: "tx \<in> set txs" for tx
  proof -
    obtain q j where q: "q \<in> set cs" "job q = Some j" "job_tx_ok eth (cfg (svcExecutor s)) j tx"
      using l(4) mem by blast
    obtain p where p: "fmlookup (positions (svcScanner s)) (userAddress p) = Some p" "below_water s now p" "same_data p q"
      using bwd q(1) unfolding cs_def by blast
    then have "job p = Some j" using q(2) by simp
    with p q(3) show ?thesis by blast
  qed
  have complete: "\<exists>tx\<in>set txs. job_tx_ok eth (cfg (svcExecutor s)) j tx"
    if w: "\<forall>i. \<not> cancelled i \<and> willing (env i)" and p: "a \<in> set order'"
      "fmlookup (positions (svcScanner s)) a = Some p" "below_water s now p" "job p = Some j" for a p j
  proof -
    obtain q where q: "q \<in> set cs" "same_data p q" using fwd p unfolding cs_def by blast
    then have "job q = Some j" using p(4) by simp
    with q(1) have "j \<in> set (List.map_filter job cs)" by (rule map_filter_mem)
    with mp [OF l(5) w] show ?thesis by (rule list_all2_mem)
  qed
  have "length txs \<le> length order'"
    using l(3) findLiquidatable_length [of order' sc] unfolding cs_def by linarith
  with eq sound complete l(2) sc(2) show ?thesis
    by (intro exI [of _ s'] exI [of _ txs] conjI) (auto simp: s'_def)
qed

text \<open>C1: only positions below water are liquidated. Whatever the network answers and whenever the
  context is cancelled, a scan returns; everything it hands to the network repays half (rounded
  down) of the first debt of a tracked position against its first collateral, and the health
  factor of that position, computed from the rate computer's indices of this moment, is below one.\<close>

theorem scan_only_below_water:
  assumes "eth_ok eth" and "\<forall>i. signer_ok (env i)" and "scan_ready order s"
  shows "\<exists>s' txs. scan eth cancelled env order order' now s = Some (s', txs) \<and> svcRate s' = svcRate s
    \<and> scanner_ok (svcScanner s') \<and> length txs \<le> length order'
    \<and> (\<forall>tx\<in>set txs. \<exists>p hf d ds c cs. fmlookup (positions (svcScanner s)) (userAddress p) = Some p
         \<and> calculateHealthFactor p (currentLiquidityIndex (svcRate s)) (currentBorrowIndex (svcRate s)) now = Some hf
         \<and> hf < RAY \<and> debts p = d # ds \<and> collaterals p = c # cs
         \<and> liquidation_tx_ok eth (cfg (svcExecutor s)) (c_assetAddress c) (d_assetAddress d) (userAddress p)
             (d_borrowBalance d div 2) tx)"
proof -
  obtain s' txs where r: "scan eth cancelled env order order' now s = Some (s', txs)" "svcRate s' = svcRate s"
      "scanner_ok (svcScanner s')" "length txs \<le> length order'"
    and t: "\<forall>tx\<in>set txs. \<exists>p j. fmlookup (positions (svcScanner s)) (userAddress p) = Some p \<and> below_water s now p
         \<and> job p = Some j \<and> job_tx_ok eth (cfg (svcExecutor s)) j tx"
    using scan_outcome [OF assms, of cancelled order' now] by (elim exE conjE)
  have key: "\<exists>hf d ds c cs. calculateHealthFactor p (currentLiquidityIndex (svcRate s)) (currentBorrowIndex (svcRate s)) now = Some hf
      \<and> hf < RAY \<and> debts p = d # ds \<and> collaterals p = c # cs
      \<and> liquidation_tx_ok eth (cfg (svcExecutor s)) (c_assetAddress c) (d_assetAddress d) (userAddress p)
             (d_borrowBalance d div 2) tx"
    if b: "below_water s now p" and j: "job p = Some j" "job_tx_ok eth (cfg (svcExecutor s)) j tx" for p j tx
  proof -
    obtain hf where "calculateHealthFactor p (currentLiquidityIndex (svcRate s)) (currentBorrowIndex (svcRate s)) now = Some hf"
        "hf < RAY" using b by (auto simp: below_water_def split: option.splits)
    moreover obtain d ds c cs where "debts p = d # ds" "collaterals p = c # cs"
      using j(1) by (auto simp: job_def split: list.splits)
    ultimately show ?thesis using j by (auto simp: job_def job_tx_ok_def)
  qed
  show ?thesis
  proof (intro exI [of _ s'] exI [of _ txs] conjI ballI)
    fix tx assume "tx \<in> set txs"
    with t obtain p j where p: "fmlookup (positions (svcScanner s)) (userAddress p) = Some p" "below_water s now p"
        "job p = Some j" "job_tx_ok eth (cfg (svcExecutor s)) j tx" by blast
    from key [OF p(2-4)] p(1) show "\<exists>p hf d ds c cs. fmlookup (positions (svcScanner s)) (userAddress p) = Some p
         \<and> calculateHealthFactor p (currentLiquidityIndex (svcRate s)) (currentBorrowIndex (svcRate s)) now = Some hf
         \<and> hf < RAY \<and> debts p = d # ds \<and> collaterals p = c # cs
         \<and> liquidation_tx_ok eth (cfg (svcExecutor s)) (c_assetAddress c) (d_assetAddress d) (userAddress p)
             (d_borrowBalance d div 2) tx" by (intro exI [of _ p]) simp
  qed (fact r)+
qed

text \<open>C35: no position below water is overlooked. When nothing is cancelled and node and signer refuse
  nothing, a scan whose map iteration reaches a position below water that has a debt and a
  collateral sends the transaction for it.\<close>

theorem scan_liquidates_all:
  assumes "eth_ok eth" and "\<forall>i. signer_ok (env i) \<and> willing (env i) \<and> \<not> cancelled i" and "scan_ready order s"
    and "fmlookup (positions (svcScanner s)) a = Some p" and "a \<in> set order'"
    and "calculateHealthFactor p (currentLiquidityIndex (svcRate s)) (currentBorrowIndex (svcRate s)) now = Some hf"
    and "hf < RAY" and "debts p = d # ds" and "collaterals p = c # cs"
  shows "\<exists>s' txs. scan eth cancelled env order order' now s = Some (s', txs) \<and> (\<exists>tx\<in>set txs.
    liquidation_tx_ok eth (cfg (svcExecutor s)) (c_assetAddress c) (d_assetAddress d) (userAddress p)
      (d_borrowBalance d div 2) tx)"
proof -
  define j where "j = (c_assetAddress c, d_assetAddress d, userAddress p, d_borrowBalance d div 2)"
  have "job p = Some j" "below_water s now p"
    using assms(6-9) by (simp_all add: job_def j_def below_water_def)
  moreover have "\<forall>i. signer_ok (env i)" "\<forall>i. \<not> cancelled i \<and> willing (env i)" using assms(2) by simp_all
  ultimately obtain s' txs tx where "scan eth cancelled env order order' now s = Some (s', txs)" "tx \<in> set txs"
      "job_tx_ok eth (cfg (svcExecutor s)) j tx"
    using scan_outcome [OF assms(1) _ assms(3), of env cancelled order' now] assms(4,5) by blast
  then show ?thesis by (auto simp: job_tx_ok_def j_def)
qed

definition exampleService :: liqService where
  "exampleService = \<lparr>svcRate = setPool examplePool newRateComputer, svcScanner = exampleScanner,
     svcExecutor = newExecutor exampleConfig\<rparr>"

lemma exampleScanner_positions:
  "fmlookup (positions exampleScanner) a = Some p \<Longrightarrow> a = 1 \<or> a = 2"
  using exampleScanner_ok by (auto simp: scanner_ok_def dest!: fmdom'I)

lemma exampleService_ready: "scan_ready [2, 1] exampleService"
proof -
  have "debt_fits p" if "fmlookup (positions exampleScanner) a = Some p" for a p
  proof -
    have "list_all (\<lambda>x. case fmlookup (positions exampleScanner) x of None \<Rightarrow> True | Some q \<Rightarrow> debt_fits q) [1, 2]"
      by code_simp
    with that exampleScanner_positions [OF that] show ?thesis by auto
  qed
  moreover have "set [2, 1] = fmdom' (positions exampleScanner)"
    using exampleScanner_ok by (simp add: scanner_ok_def flip: exampleScanner_queue)
  ultimately show ?thesis by (simp add: scan_ready_def exampleService_def)
qed

theorem scan_only_below_water_witness:
  "\<exists>s' txs. scan exampleEth (\<lambda>_. False) (\<lambda>_. exampleEnv) [2, 1] [1, 2] 2000 exampleService = Some (s', txs)
    \<and> scanner_ok (svcScanner s') \<and> length txs \<le> 2"
  using scan_only_below_water [OF exampleEth_ok _ exampleService_ready, of "\<lambda>_. exampleEnv" "\<lambda>_. False" "[1, 2]" 2000]
  by auto

lemma exampleEnv_willing: "willing exampleEnv"
  by (simp add: willing_def exampleEnv_def)

lemma example_entries:
  "case fmlookup (positions exampleScanner) 2 of None \<Rightarrow> False | Some p \<Rightarrow> debts p \<noteq> []"
  "case fmlookup (positions exampleScanner) 2 of None \<Rightarrow> False | Some p \<Rightarrow> collaterals p \<noteq> []"
  by (code_simp, code_simp)

lemma example_below_water:
  "case fmlookup (positions exampleScanner) 2 of None \<Rightarrow> False | Some p \<Rightarrow>
    (case calculateHealthFactor p (currentLiquidityIndex (setPool examplePool newRateComputer))
       (currentBorrowIndex (setPool examplePool newRateComputer)) 2000 of None \<Rightarrow> False | Some hf \<Rightarrow> hf < RAY)"
  by code_simp

theorem scan_liquidates_all_witness:
  "\<exists>s' txs. scan exampleEth (\<lambda>_. False) (\<lambda>_. exampleEnv) [2, 1] [1, 2] 2000 exampleService = Some (s', txs) \<and> txs \<noteq> []"
proof -
  obtain p where p: "fmlookup (positions exampleScanner) 2 = Some p"
    using example_entries(1) by (cases "fmlookup (positions exampleScanner) 2") simp_all
  with example_entries obtain d ds c cs where q: "debts p = d # ds" "collaterals p = c # cs"
    by (auto simp: neq_Nil_conv)
  from p example_below_water obtain hf where hf: "calculateHealthFactor p (currentLiquidityIndex (svcRate exampleService))
      (currentBorrowIndex (svcRate exampleService)) 2000 = Some hf" "hf < RAY"
    by (cases "calculateHealthFactor p (currentLiquidityIndex (svcRate exampleService))
      (currentBorrowIndex (svcRate exampleService)) 2000") (simp_all add: exampleService_def)
  have p': "fmlookup (positions (svcScanner exampleService)) 2 = Some p" using p by (simp add: exampleService_def)
  have w: "\<forall>i::nat. signer_ok exampleEnv \<and> willing exampleEnv \<and> \<not> False" by (simp add: exampleEnv_willing)
  have "(2::address) \<in> set [1, 2]" by simp
  from scan_liquidates_all [OF exampleEth_ok w exampleService_ready p' this hf q] obtain s' txs where
    "scan exampleEth (\<lambda>_. False) (\<lambda>_. exampleEnv) [2, 1] [1, 2] 2000 exampleService = Some (s', txs)" "txs \<noteq> []"
    by (elim exE conjE bexE) (rule that, assumption, auto)
  then show ?thesis by blast
qed

section \<open>The engine as a transition system\<close>

text \<open>The state other goroutines and the indexer change between two scans. Every step is one call
  that holds a component's lock, or a scan in one of the given worlds (the node's and the signer's
  answers, turn by turn); the inputs from outside are as their callers promise.\<close>

inductive engineStep :: "ethLib \<Rightarrow> (nat \<Rightarrow> 'stx chainEnv) set \<Rightarrow> liqService \<Rightarrow> liqService \<Rightarrow> bool"
  for eth worlds where
  e_scan: "set order = fmdom' (positions (svcScanner s)) \<Longrightarrow> env \<in> worlds \<Longrightarrow>
     scan eth cancelled env order order' now s = Some (s', txs) \<Longrightarrow> engineStep eth worlds s s'"
| e_set: "debt_fits pos \<Longrightarrow> engineStep eth worlds s (s\<lparr>svcScanner := setPosition pos (svcScanner s)\<rparr>)"
| e_remove: "engineStep eth worlds s (s\<lparr>svcScanner := removePosition user (svcScanner s)\<rparr>)"
| e_rate: "rcOp_ok x \<Longrightarrow> rcStep (svcRate s) x = Some rc \<Longrightarrow> engineStep eth worlds s (s\<lparr>svcRate := rc\<rparr>)"
| e_confirm: "engineStep eth worlds s (s\<lparr>svcExecutor := markConfirmed h g pr now (svcExecutor s)\<rparr>)"
| e_fail: "engineStep eth worlds s (s\<lparr>svcExecutor := markFailed h (svcExecutor s)\<rparr>)"

definition positions_fit :: "(address, userPosition) fmap \<Rightarrow> bool" where
  "positions_fit v \<longleftrightarrow> (\<forall>a p. fmlookup v a = Some p \<longrightarrow> debt_fits p)"

definition engine_ok :: "liqService \<Rightarrow> bool" where
  "engine_ok s \<longleftrightarrow> rc_ok (svcRate s) \<and> scanner_ok (svcScanner s) \<and> positions_fit (positions (svcScanner s))"

lemma debt_fits_heapIndex [simp]: "debt_fits (p\<lparr>heapIndex := k\<rparr>) = debt_fits p"
  by (simp add: debt_fits_def)

lemma positions_fit_view: "positions_fit (posView s) = positions_fit (positions s)"
proof -
  have "(\<forall>p. fmlookup (posView s) a = Some p \<longrightarrow> debt_fits p) = (\<forall>p. fmlookup (positions s) a = Some p \<longrightarrow> debt_fits p)" for a
    by (cases "fmlookup (positions s) a") (simp_all add: lookup_posView)
  then show ?thesis by (simp only: positions_fit_def)
qed

lemma positions_fit_specs:
  "positions_fit v \<Longrightarrow> debt_fits pos \<Longrightarrow> positions_fit (specSet pos v)"
  "positions_fit v \<Longrightarrow> positions_fit (fmdrop user v)"
  "positions_fit v \<Longrightarrow> positions_fit (specRefresh l b now v)"
  by (auto simp: positions_fit_def specSet_def specRefresh_def debt_fits_def)

lemma positions_fitI: "posView sc' = v \<Longrightarrow> positions_fit v \<Longrightarrow> positions_fit (positions sc')"
  by (metis positions_fit_view)

lemma engineStep_ok:
  assumes step: "engineStep eth worlds s s'" and eth: "eth_ok eth" and ok: "engine_ok s"
  shows "engine_ok s'"
proof -
  have r: "rc_ok (svcRate s)" and sc: "scanner_ok (svcScanner s)" and fit: "positions_fit (posView (svcScanner s))"
    using ok by (simp_all add: engine_ok_def positions_fit_view)
  from step show ?thesis
  proof cases
    case (e_scan order env cancelled order' now txs)
    let ?l = "currentLiquidityIndex (svcRate s)" and ?b = "currentBorrowIndex (svcRate s)"
    obtain t where t: "refreshAll ?l ?b now order (svcScanner s) = Some t" "scanner_ok t"
        "posView t = specRefresh ?l ?b now (posView (svcScanner s))"
      using refreshAll_refines [OF sc e_scan(1)] by blast
    have "svcRate s' = svcRate s \<and> svcScanner s' = t"
      using e_scan(3) t(1) by (auto simp: scan_def Let_def bind_eq_Some_conv split: if_splits)
    moreover have "positions_fit (positions t)"
      using t(3) positions_fit_specs(3) [OF fit] by (rule positions_fitI)
    ultimately show ?thesis using r t(2) by (simp add: engine_ok_def)
  next
    case (e_set pos)
    have "positions_fit (positions (setPosition pos (svcScanner s)))"
      using setPosition_refines [OF sc] positions_fit_specs(1) [OF fit e_set(2)] by (metis positions_fitI)
    with e_set r setPosition_refines [OF sc] show ?thesis by (simp add: engine_ok_def)
  next
    case (e_remove user)
    have "positions_fit (positions (removePosition user (svcScanner s)))"
      using removePosition_refines [OF sc] positions_fit_specs(2) [OF fit] by (metis positions_fitI)
    with e_remove r removePosition_refines [OF sc] show ?thesis by (simp add: engine_ok_def)
  next
    case (e_rate x rc)
    with rcStep_ok [OF r e_rate(2)] ok show ?thesis by (auto simp: engine_ok_def)
  qed (use ok in \<open>simp_all add: engine_ok_def\<close>)
qed

lemma engine_ready: "engine_ok s \<Longrightarrow> set order = fmdom' (positions (svcScanner s)) \<Longrightarrow> scan_ready order s"
  by (auto simp: engine_ok_def scan_ready_def positions_fit_def)

text \<open>C4: the engine survives every interleaving. From a good state, whatever scans, position updates,
  removals, pool events, calibrations and receipts follow each other and whatever the network
  answers, the rate computer, the scanner and its heap stay consistent, and the next scan
  returns instead of panicking.\<close>

theorem engine_invariant:
  assumes "eth_ok eth" and "\<forall>env\<in>worlds. \<forall>i. signer_ok (env i)" and "engine_ok s" and "(engineStep eth worlds)\<^sup>*\<^sup>* s s'"
  shows "engine_ok s' \<and> (\<forall>cancelled env order order' now.
    set order = fmdom' (positions (svcScanner s')) \<and> env \<in> worlds \<longrightarrow>
    scan eth cancelled env order order' now s' \<noteq> None)"
proof -
  have ok: "engine_ok s'" using assms(4)
    by (induction rule: rtranclp_induct) (use assms(1,3) engineStep_ok in blast)+
  have "scan eth cancelled env order order' now s' \<noteq> None"
    if "set order = fmdom' (positions (svcScanner s'))" "env \<in> worlds" for cancelled env order order' now
    using scan_outcome [OF assms(1) bspec [OF assms(2) that(2)] engine_ready [OF ok that(1)], of cancelled order' now] by auto
  with ok show ?thesis by blast
qed

lemma exampleService_ok: "engine_ok exampleService"
  using exampleService_ready by (auto simp: engine_ok_def scan_ready_def positions_fit_def exampleService_def setPool_ok)

lemma newEngine_ok: "engine_ok \<lparr>svcRate = newRateComputer, svcScanner = newScanner, svcExecutor = newExecutor c\<rparr>"
  by (simp add: engine_ok_def positions_fit_def) (simp add: newScanner_def)

theorem engine_invariant_witness:
  "let s0 = \<lparr>svcRate = newRateComputer, svcScanner = newScanner, svcExecutor = newExecutor exampleConfig\<rparr> in
    \<exists>s'. (engineStep exampleEth {\<lambda>_. exampleEnv})\<^sup>*\<^sup>* s0 s' \<and> engine_ok s' \<and> positions (svcScanner s') \<noteq> fmempty"
proof -
  let ?s0 = "\<lparr>svcRate = newRateComputer, svcScanner = newScanner, svcExecutor = newExecutor exampleConfig\<rparr>"
  let ?s' = "?s0\<lparr>svcScanner := setPosition (examplePosition 1 (10 ^ 9)) newScanner\<rparr>"
  have "debt_fits (examplePosition 1 (10 ^ 9))" by (simp add: debt_fits_def examplePosition_def)
  from engineStep.e_set [OF this, of exampleEth "{\<lambda>_. exampleEnv}" ?s0] have step: "(engineStep exampleEth {\<lambda>_. exampleEnv})\<^sup>*\<^sup>* ?s0 ?s'" by simp
  moreover have "fmdom' (positions (setPosition (examplePosition 1 (10 ^ 9)) newScanner)) = {1}" by code_simp
  then have "positions (svcScanner ?s') \<noteq> fmempty" by auto
  moreover have "engine_ok ?s'" using engine_invariant [OF exampleEth_ok _ newEngine_ok step] by simp
  ultimately show ?thesis unfolding Let_def by blast
qed

end
