(* ===== verification/LiquidationInterleaved.thy ===== *)
theory LiquidationInterleaved
  imports LiquidationService
begin

text \<open>
  A scan among other goroutines. \<open>LiquidationService\<close> takes \<open>scan\<close> as one step; in the code it holds the scanner's
  lock while it refreshes the health factors and while it finds the candidates, but not in between and not
  while it works through them. The candidates are pointers: an update of a position changes it in place,
  a removal leaves the candidate pointing at what was removed.

  The theory says what a transaction sent in such a scan is for, and that a position that has recovered, or is
  gone, is liquidated all the same.
\<close>

section \<open>Steps\<close>

text \<open>A candidate: a position of the scanner's map, or one that has been taken out of it.\<close>

datatype target = Live address | Detached userPosition

fun targetValue :: "scanner \<Rightarrow> target \<Rightarrow> userPosition option" where
  "targetValue sc (Live a) = fmlookup (positions sc) a"
| "targetValue sc (Detached p) = Some p"

fun detach :: "address \<Rightarrow> scanner \<Rightarrow> target \<Rightarrow> target" where
  "detach user sc (Live a) = (if a = user then (case fmlookup (positions sc) a of None \<Rightarrow> Live a | Some p \<Rightarrow> Detached p) else Live a)"
| "detach user sc (Detached p) = Detached p"

text \<open>Where the scan is: which positions it has still to refresh, or which turns of its loop are left.\<close>

datatype scanPc = Idle | Refreshing "address list" | Refreshed | Turns nat "target list"

fun mapTargets :: "(target \<Rightarrow> target) \<Rightarrow> scanPc \<Rightarrow> scanPc" where
  "mapTargets f (Turns i ts) = Turns i (map f ts)"
| "mapTargets f pc = pc"

fun locked :: "scanPc \<Rightarrow> bool" where
  "locked (Refreshing as) = True"
| "locked pc = False"

text \<open>Besides the service: the time the scan has read, the rate computer it met when it refreshed a position, and
  the users whose position was set or removed since it began.\<close>

record engSys =
  es_svc :: liqService
  es_pc :: scanPc
  es_time :: i64
  es_rates :: "(address, rateComputer) fmap"
  es_touched :: "address set"

abbreviation es_scanner :: "engSys \<Rightarrow> scanner" where
  "es_scanner s \<equiv> svcScanner (es_svc s)"

abbreviation with_scanner :: "scanner \<Rightarrow> engSys \<Rightarrow> engSys" where
  "with_scanner sc s \<equiv> s\<lparr>es_svc := es_svc s\<lparr>svcScanner := sc\<rparr>\<rparr>"

text \<open>The refresh of one position is a step, as the rate computer has a lock of its own and may change between two
  of them. \<open>SetPosition\<close> and \<open>RemovePosition\<close> wait for the scanner's lock. The loop ends behind its last candidate,
  or earlier when the context is done. A turn is a step: \<open>Execute\<close> is called by the scan only, and a
  receipt that comes in the middle of it counts as before or behind it. Each step sends a list of transactions.\<close>

inductive esStep :: "ethLib \<Rightarrow> (nat \<Rightarrow> 'stx chainEnv) set \<Rightarrow> engSys \<Rightarrow> ethTx list \<Rightarrow> engSys \<Rightarrow> bool" for eth worlds where
  begins: "es_pc s = Idle \<Longrightarrow> set order = fmdom' (positions (es_scanner s)) \<Longrightarrow>
     esStep eth worlds s [] (s\<lparr>es_pc := Refreshing order, es_time := now, es_rates := fmempty, es_touched := {}\<rparr>)"
| refreshes: "es_pc s = Refreshing (a # as) \<Longrightarrow>
     refreshOne (currentLiquidityIndex (svcRate (es_svc s))) (currentBorrowIndex (svcRate (es_svc s))) (es_time s) a (es_scanner s) = Some sc \<Longrightarrow>
     esStep eth worlds s [] (with_scanner sc s\<lparr>es_pc := Refreshing as, es_rates := fmupd a (svcRate (es_svc s)) (es_rates s)\<rparr>)"
| unlocks: "es_pc s = Refreshing [] \<Longrightarrow> esStep eth worlds s [] (s\<lparr>es_pc := Refreshed\<rparr>)"
| finds: "es_pc s = Refreshed \<Longrightarrow>
     esStep eth worlds s [] (s\<lparr>es_pc := Turns 0 (map (\<lambda>p. Live (userAddress p)) (findLiquidatable order (es_scanner s)))\<rparr>)"
| turn: "es_pc s = Turns i (t # ts) \<Longrightarrow> targetValue (es_scanner s) t = Some p \<Longrightarrow> env \<in> worlds \<Longrightarrow>
     liquidateLoop eth (\<lambda>_. False) env i [p] (svcExecutor (es_svc s)) = Some (ex, txs) \<Longrightarrow>
     esStep eth worlds s txs (s\<lparr>es_svc := es_svc s\<lparr>svcExecutor := ex\<rparr>, es_pc := Turns (Suc i) ts\<rparr>)"
| ends: "es_pc s = Turns i ts \<Longrightarrow> esStep eth worlds s [] (s\<lparr>es_pc := Idle\<rparr>)"
| sets: "\<not> locked (es_pc s) \<Longrightarrow> debt_fits pos \<Longrightarrow>
     esStep eth worlds s [] (with_scanner (setPosition pos (es_scanner s)) s\<lparr>es_touched := insert (userAddress pos) (es_touched s)\<rparr>)"
| removes: "\<not> locked (es_pc s) \<Longrightarrow>
     esStep eth worlds s [] (with_scanner (removePosition user (es_scanner s)) s\<lparr>es_pc := mapTargets (detach user (es_scanner s)) (es_pc s),
       es_touched := insert user (es_touched s)\<rparr>)"
| rates: "rcOp_ok x \<Longrightarrow> rcStep (svcRate (es_svc s)) x = Some rc \<Longrightarrow> esStep eth worlds s [] (s\<lparr>es_svc := es_svc s\<lparr>svcRate := rc\<rparr>\<rparr>)"
| confirms: "esStep eth worlds s [] (s\<lparr>es_svc := es_svc s\<lparr>svcExecutor := markConfirmed h g pr t (svcExecutor (es_svc s))\<rparr>\<rparr>)"
| fails: "esStep eth worlds s [] (s\<lparr>es_svc := es_svc s\<lparr>svcExecutor := markFailed h (svcExecutor (es_svc s))\<rparr>\<rparr>)"

definition esStart :: "liqService \<Rightarrow> engSys" where
  "esStart svc = \<lparr>es_svc = svc, es_pc = Idle, es_time = 0, es_rates = fmempty, es_touched = {}\<rparr>"

text \<open>A run with everything it sends.\<close>

inductive esRun :: "ethLib \<Rightarrow> (nat \<Rightarrow> 'stx chainEnv) set \<Rightarrow> engSys \<Rightarrow> ethTx list \<Rightarrow> engSys \<Rightarrow> bool" for eth worlds where
  halt: "esRun eth worlds s [] s"
| onward: "esStep eth worlds s txs s1 \<Longrightarrow> esRun eth worlds s1 txs' s2 \<Longrightarrow> esRun eth worlds s (txs @ txs') s2"

section \<open>The invariant\<close>

text \<open>The cached health factor of a position is that of the rate computer the scan met.\<close>

definition as_refreshed :: "engSys \<Rightarrow> address \<Rightarrow> userPosition \<Rightarrow> bool" where
  "as_refreshed s a p \<longleftrightarrow> (\<exists>rc. fmlookup (es_rates s) a = Some rc
     \<and> healthFactor p = calculateHealthFactor p (currentLiquidityIndex rc) (currentBorrowIndex rc) (es_time s))"

fun unrefreshed :: "scanPc \<Rightarrow> address set" where
  "unrefreshed Idle = UNIV"
| "unrefreshed (Refreshing as) = set as"
| "unrefreshed pc = {}"

fun target_ok :: "engSys \<Rightarrow> target \<Rightarrow> bool" where
  "target_ok s (Live a) = (\<exists>p. fmlookup (posView (es_scanner s)) a = Some p \<and> (a \<in> es_touched s \<or> unhealthy p))"
| "target_ok s (Detached p) = (debt_fits p \<and> userAddress p \<in> es_touched s)"

fun targets_of :: "scanPc \<Rightarrow> target list" where
  "targets_of (Turns i ts) = ts"
| "targets_of pc = []"

definition es_ok :: "engSys \<Rightarrow> bool" where
  "es_ok s \<longleftrightarrow> engine_ok (es_svc s)
     \<and> (\<forall>a p. fmlookup (posView (es_scanner s)) a = Some p \<longrightarrow> a \<notin> es_touched s \<longrightarrow> a \<notin> unrefreshed (es_pc s) \<longrightarrow> as_refreshed s a p)
     \<and> (\<forall>t\<in>set (targets_of (es_pc s)). target_ok s t)"

lemma position_debt_fits: "engine_ok svc \<Longrightarrow> fmlookup (positions (svcScanner svc)) a = Some p \<Longrightarrow> debt_fits p"
  by (simp add: engine_ok_def positions_fit_def)

lemma position_address: "engine_ok svc \<Longrightarrow> fmlookup (positions (svcScanner svc)) a = Some p \<Longrightarrow> userAddress p = a"
  by (simp add: engine_ok_def scanner_ok_def addr_ok_def)
lemma as_refreshed_simps [simp]:
  "as_refreshed (s\<lparr>es_svc := svc\<rparr>) a p = as_refreshed s a p" "as_refreshed (s\<lparr>es_pc := pc\<rparr>) a p = as_refreshed s a p"
  "as_refreshed (s\<lparr>es_touched := ts\<rparr>) a p = as_refreshed s a p"
  by (simp_all add: as_refreshed_def)

lemma target_ok_pc [simp]: "target_ok (s\<lparr>es_pc := pc\<rparr>) t = target_ok s t"
  by (cases t) simp_all

lemma refreshes_ok:
  assumes "es_ok s" and "es_pc s = Refreshing (a # as)"
  shows "\<exists>sc. refreshOne (currentLiquidityIndex (svcRate (es_svc s))) (currentBorrowIndex (svcRate (es_svc s))) (es_time s) a (es_scanner s) = Some sc
    \<and> es_ok (with_scanner sc s\<lparr>es_pc := Refreshing as, es_rates := fmupd a (svcRate (es_svc s)) (es_rates s)\<rparr>)"
proof -
  let ?l = "currentLiquidityIndex (svcRate (es_svc s))" and ?b = "currentBorrowIndex (svcRate (es_svc s))"
  have eng: "engine_ok (es_svc s)" and fresh: "\<And>x p. fmlookup (posView (es_scanner s)) x = Some p \<Longrightarrow> x \<notin> es_touched s \<Longrightarrow>
      x \<notin> set (a # as) \<Longrightarrow> as_refreshed s x p"
    using assms by (simp_all add: es_ok_def)
  then have ok: "scanner_ok (es_scanner s)" and fit: "positions_fit (posView (es_scanner s))"
    by (simp_all add: engine_ok_def positions_fit_view)
  obtain sc where sc: "refreshOne ?l ?b (es_time s) a (es_scanner s) = Some sc" "scanner_ok sc"
      and look: "\<And>x. fmlookup (posView sc) x = (if x = a then map_option (refreshed ?l ?b (es_time s)) (fmlookup (posView (es_scanner s)) x)
        else fmlookup (posView (es_scanner s)) x)"
    using refreshOne_refines [OF ok] by blast
  have "positions_fit (posView sc)"
    using fit by (auto simp: positions_fit_def look debt_fits_def split: if_splits)
  then have "engine_ok (es_svc s\<lparr>svcScanner := sc\<rparr>)" using eng sc(2) by (simp add: engine_ok_def positions_fit_view)
  moreover have "as_refreshed (s\<lparr>es_rates := fmupd a (svcRate (es_svc s)) (es_rates s)\<rparr>) x p"
    if v: "fmlookup (posView sc) x = Some p" and u: "x \<notin> es_touched s" "x \<notin> set as" for x p
  proof (cases "x = a")
    case True
    then obtain q where "p = refreshed ?l ?b (es_time s) q" using v by (auto simp: look)
    then show ?thesis
      by (simp add: True as_refreshed_def healthFactor_entries [of "refreshed ?l ?b (es_time s) q" q])
  next
    case False
    then show ?thesis using fresh [of x p] v u by (simp add: look as_refreshed_def)
  qed
  ultimately show ?thesis using sc(1) by (intro exI [of _ sc]) (simp add: es_ok_def as_refreshed_def)
qed

lemma finds_ok:
  assumes "es_ok s" and "es_pc s = Refreshed"
  shows "es_ok (s\<lparr>es_pc := Turns 0 (map (\<lambda>p. Live (userAddress p)) (findLiquidatable order (es_scanner s)))\<rparr>)"
proof -
  have "\<exists>q. fmlookup (posView (es_scanner s)) (userAddress p) = Some q \<and> unhealthy q" if p: "p \<in> set (findLiquidatable order (es_scanner s))" for p
  proof -
    obtain a where a: "fmlookup (positions (es_scanner s)) a = Some p" "unhealthy p" using findLiquidatable_stored [OF p] by blast
    moreover have "userAddress p = a" using assms(1) a(1) by (intro position_address) (simp_all add: es_ok_def)
    ultimately show ?thesis by (simp add: lookup_posView)
  qed
  then have "\<forall>p\<in>set (findLiquidatable order (es_scanner s)). target_ok s (Live (userAddress p))" by fastforce
  then show ?thesis using assms by (simp add: es_ok_def)
qed

lemma sets_ok:
  assumes "es_ok s" and "\<not> locked (es_pc s)" and "debt_fits pos" and "eth_ok eth"
  shows "es_ok (with_scanner (setPosition pos (es_scanner s)) s\<lparr>es_touched := insert (userAddress pos) (es_touched s)\<rparr>)"
    (is "es_ok ?s'")
proof -
  have eng: "engine_ok (es_svc s)" using assms(1) by (simp add: es_ok_def)
  then have ok: "scanner_ok (es_scanner s)" by (simp add: engine_ok_def)
  have eng': "engine_ok (es_svc s\<lparr>svcScanner := setPosition pos (es_scanner s)\<rparr>)"
    by (rule engineStep_ok [OF engineStep.e_set [OF assms(3), of eth "{}"] assms(4) eng])
  have view: "posView (setPosition pos (es_scanner s)) = specSet pos (posView (es_scanner s))" using setPosition_refines [OF ok] by simp
  have look: "x \<noteq> userAddress pos \<Longrightarrow> fmlookup (posView (setPosition pos (es_scanner s))) x = fmlookup (posView (es_scanner s)) x" for x
    by (simp add: view specSet_def)
  have own: "\<exists>q. fmlookup (posView (setPosition pos (es_scanner s))) (userAddress pos) = Some q" by (simp add: view specSet_def)
  have "target_ok ?s' t" if "target_ok s t" for t
    using that own by (cases t; cases "t = Live (userAddress pos)") (auto simp: look)
  then show ?thesis using assms(1) eng' by (auto simp: es_ok_def look)
qed

lemma removes_ok:
  assumes "es_ok s" and "\<not> locked (es_pc s)" and "eth_ok eth"
  shows "es_ok (with_scanner (removePosition user (es_scanner s)) s\<lparr>es_pc := mapTargets (detach user (es_scanner s)) (es_pc s),
       es_touched := insert user (es_touched s)\<rparr>)" (is "es_ok ?s'")
proof -
  have eng: "engine_ok (es_svc s)" using assms(1) by (simp add: es_ok_def)
  then have ok: "scanner_ok (es_scanner s)" by (simp add: engine_ok_def)
  have eng': "engine_ok (es_svc s\<lparr>svcScanner := removePosition user (es_scanner s)\<rparr>)"
    by (rule engineStep_ok [OF engineStep.e_remove [of eth "{}"] assms(3) eng])
  have view: "posView (removePosition user (es_scanner s)) = fmdrop user (posView (es_scanner s))" using removePosition_refines [OF ok] by simp
  have target: "target_ok ?s' (detach user (es_scanner s) t)" if t: "target_ok s t" for t
  proof (cases "t = Live user")
    case True
    then obtain p where p: "fmlookup (positions (es_scanner s)) user = Some p" using t by (auto simp: lookup_posView)
    then show ?thesis using True position_debt_fits [OF eng p] position_address [OF eng p] by simp
  next
    case False
    then show ?thesis using t by (cases t) (auto simp: view)
  qed
  have "targets_of (mapTargets f pc) = map f (targets_of pc)" "unrefreshed (mapTargets f pc) = unrefreshed pc" for f pc by (cases pc; simp)+
  then show ?thesis using assms(1) eng' target by (auto simp: es_ok_def view)
qed
text \<open>Every target has a value, and the turn for it returns.\<close>

lemma target_value:
  assumes "es_ok s" and "t \<in> set (targets_of (es_pc s))"
  shows "\<exists>p. targetValue (es_scanner s) t = Some p \<and> debt_fits p \<and> (userAddress p \<notin> es_touched s \<longrightarrow>
    t = Live (userAddress p) \<and> unhealthy p)"
proof -
  have eng: "engine_ok (es_svc s)" and t: "target_ok s t" using assms by (simp_all add: es_ok_def)
  show ?thesis
  proof (cases t)
    case (Live a)
    then obtain p where p: "fmlookup (positions (es_scanner s)) a = Some p" "a \<in> es_touched s \<or> unhealthy p"
      using t by (auto simp: lookup_posView)
    then show ?thesis using Live position_debt_fits [OF eng p(1)] position_address [OF eng p(1)] by auto
  next
    case (Detached p)
    then show ?thesis using t by simp
  qed
qed

lemma turn_returns:
  assumes "eth_ok eth" and "\<forall>i. signer_ok (env i)" and "debt_fits p"
  shows "\<exists>ex' txs. liquidateLoop eth (\<lambda>_. False) env i [p] ex = Some (ex', txs) \<and> length txs \<le> 1
    \<and> (\<forall>tx\<in>set txs. \<exists>j. job p = Some j \<and> job_tx_ok eth (cfg ex) j tx)
    \<and> ((\<forall>i. willing (env i)) \<longrightarrow> (\<forall>j. job p = Some j \<longrightarrow> (\<exists>tx. txs = [tx] \<and> job_tx_ok eth (cfg ex) j tx)))"
proof -
  obtain ex' txs where l: "liquidateLoop eth (\<lambda>_. False) env i [p] ex = Some (ex', txs)" "length txs \<le> 1"
      "\<forall>tx\<in>set txs. \<exists>j. job p = Some j \<and> job_tx_ok eth (cfg ex) j tx"
      "(\<forall>i. willing (env i)) \<longrightarrow> list_all2 (job_tx_ok eth (cfg ex)) (List.map_filter job [p]) txs"
    using liquidateLoop_sends [OF assms(1,2), of "[p]" "\<lambda>_. False" i ex] assms(3) by auto
  have "\<exists>tx. txs = [tx] \<and> job_tx_ok eth (cfg ex) j tx" if "\<forall>i. willing (env i)" "job p = Some j" for j
    using l(4) that by (auto simp: map_filter_simps list_all2_Cons1)
  with l show ?thesis by blast
qed

lemma esStep_ok:
  assumes "esStep eth worlds s txs s'" and "es_ok s" and "eth_ok eth"
  shows "es_ok s'"
  using assms(1)
proof cases
  case (begins order now)
  then show ?thesis using assms(2) by (auto simp: es_ok_def fmlookup_dom'_iff lookup_posView)
next
  case (refreshes a as sc)
  then show ?thesis using refreshes_ok [OF assms(2)] by fastforce
next
  case (finds order)
  then show ?thesis using finds_ok [OF assms(2)] by simp
next
  case (turn i t ts p env ex)
  have "target_ok (s\<lparr>es_svc := es_svc s\<lparr>svcExecutor := ex\<rparr>\<rparr>) u = target_ok s u" for u by (cases u) simp_all
  then show ?thesis using turn assms(2) by (auto simp: es_ok_def engine_ok_def)
next
  case (sets pos)
  then show ?thesis using sets_ok [OF assms(2) _ _ assms(3)] by simp
next
  case (removes user)
  then show ?thesis using removes_ok [OF assms(2) _ assms(3)] by simp
next
  case (rates x rc)
  have "engine_ok (es_svc s\<lparr>svcRate := rc\<rparr>)"
    using engineStep_ok [OF engineStep.e_rate [OF rates(3,4), of eth "{}"] assms(3)] assms(2) by (simp add: es_ok_def)
  moreover have "target_ok (s\<lparr>es_svc := es_svc s\<lparr>svcRate := rc\<rparr>\<rparr>) u = target_ok s u" for u by (cases u) simp_all
  ultimately show ?thesis using rates assms(2) by (auto simp: es_ok_def)
next
  case (confirms h g pr t)
  have "target_ok (s\<lparr>es_svc := es_svc s\<lparr>svcExecutor := x\<rparr>\<rparr>) u = target_ok s u" for u x by (cases u) simp_all
  then show ?thesis using confirms assms(2) by (auto simp: es_ok_def engine_ok_def)
next
  case (fails h)
  have "target_ok (s\<lparr>es_svc := es_svc s\<lparr>svcExecutor := x\<rparr>\<rparr>) u = target_ok s u" for u x by (cases u) simp_all
  then show ?thesis using fails assms(2) by (auto simp: es_ok_def engine_ok_def)
qed (use assms(2) in \<open>auto simp: es_ok_def\<close>)

lemma esRun_ok: "esRun eth worlds s txs s' \<Longrightarrow> eth_ok eth \<Longrightarrow> es_ok s \<Longrightarrow> es_ok s'"
  by (induction rule: esRun.induct) (blast intro: esStep_ok)+

lemma esStart_ok: "engine_ok svc \<Longrightarrow> es_ok (esStart svc)"
  by (simp add: es_ok_def esStart_def)

lemma esRun_snoc: "esRun eth worlds s txs s1 \<Longrightarrow> esStep eth worlds s1 txs' s2 \<Longrightarrow> esRun eth worlds s (txs @ txs') s2"
proof (induction rule: esRun.induct)
  case (halt s)
  then show ?case using esRun.onward [OF halt esRun.halt] by simp
next
  case (onward s txs s1 txs1 s2')
  then show ?case using esRun.onward [OF onward.hyps(1)] by simp
qed

section \<open>A scan that nothing disturbs\<close>

text \<open>The scan of \<open>LiquidationService\<close> is a run of this system.\<close>

lemma refreshAll_run:
  assumes "es_pc s = Refreshing order"
    and "refreshAll (currentLiquidityIndex (svcRate (es_svc s))) (currentBorrowIndex (svcRate (es_svc s))) (es_time s) order (es_scanner s) = Some sc"
  shows "\<exists>m. esRun eth worlds s [] (with_scanner sc s\<lparr>es_pc := Refreshed, es_rates := m\<rparr>)"
  using assms
proof (induction order arbitrary: s)
  case Nil
  then have "with_scanner sc s\<lparr>es_pc := Refreshed, es_rates := es_rates s\<rparr> = s\<lparr>es_pc := Refreshed\<rparr>" by (cases s) simp
  moreover have "esRun eth worlds s [] (s\<lparr>es_pc := Refreshed\<rparr>)"
    using esRun.onward [OF esStep.unlocks [OF Nil.prems(1)] esRun.halt] by simp
  ultimately show ?case by metis
next
  case (Cons a order)
  obtain sc1 where r: "refreshOne (currentLiquidityIndex (svcRate (es_svc s))) (currentBorrowIndex (svcRate (es_svc s))) (es_time s) a (es_scanner s) = Some sc1"
      "refreshAll (currentLiquidityIndex (svcRate (es_svc s))) (currentBorrowIndex (svcRate (es_svc s))) (es_time s) order sc1 = Some sc"
    using Cons.prems(2) by (auto simp: bind_eq_Some_conv)
  let ?s1 = "with_scanner sc1 s\<lparr>es_pc := Refreshing order, es_rates := fmupd a (svcRate (es_svc s)) (es_rates s)\<rparr>"
  obtain m where "esRun eth worlds ?s1 [] (with_scanner sc ?s1\<lparr>es_pc := Refreshed, es_rates := m\<rparr>)"
    using Cons.IH [of ?s1] r(2) by auto
  with esRun.onward [OF esStep.refreshes [OF Cons.prems(1) r(1)] this] show ?case by auto
qed

lemma liquidateLoop_one:
  "\<not> cancelled i \<Longrightarrow> liquidateLoop eth cancelled env i (p # ps) ex = do {
     (ex1, txs) \<leftarrow> liquidateLoop eth (\<lambda>_. False) env i [p] ex;
     (ex2, txs') \<leftarrow> liquidateLoop eth cancelled env (Suc i) ps ex1;
     Some (ex2, txs @ txs')
   }"
  by (auto simp: Let_def apsnd_def map_prod_def split: list.split option.split)
     (auto simp: option.map_sel split: option.split bind_splits)
lemma liquidateLoop_run:
  assumes "es_pc s = Turns i (map (\<lambda>p. Live (userAddress p)) ps)" and "\<forall>p\<in>set ps. fmlookup (positions (es_scanner s)) (userAddress p) = Some p"
    and "env \<in> worlds" and "liquidateLoop eth cancelled env i ps (svcExecutor (es_svc s)) = Some (ex, txs)"
  shows "esRun eth worlds s txs (s\<lparr>es_svc := es_svc s\<lparr>svcExecutor := ex\<rparr>, es_pc := Idle\<rparr>)"
  using assms(1,2,4)
proof (induction ps arbitrary: s i txs)
  case Nil
  then have "ex = svcExecutor (es_svc s)" "txs = []" by simp_all
  then show ?case using esRun.onward [OF esStep.ends [OF Nil.prems(1)] esRun.halt] by simp
next
  case (Cons p ps)
  show ?case
  proof (cases "cancelled i")
    case True
    then have "ex = svcExecutor (es_svc s)" "txs = []" using Cons.prems(3) by simp_all
    then show ?thesis using esRun.onward [OF esStep.ends [OF Cons.prems(1)] esRun.halt] by simp
  next
    case False
    obtain ex1 txs1 txs2 where l: "liquidateLoop eth (\<lambda>_. False) env i [p] (svcExecutor (es_svc s)) = Some (ex1, txs1)"
        "liquidateLoop eth cancelled env (Suc i) ps ex1 = Some (ex, txs2)" "txs = txs1 @ txs2"
      using Cons.prems(3) unfolding liquidateLoop_one [of cancelled i, OF False] by (auto simp: bind_eq_Some_conv)
    define s1 where "s1 = s\<lparr>es_svc := es_svc s\<lparr>svcExecutor := ex1\<rparr>, es_pc := Turns (Suc i) (map (\<lambda>p. Live (userAddress p)) ps)\<rparr>"
    have "esStep eth worlds s txs1 s1"
      unfolding s1_def using Cons.prems(1,2) assms(3) l(1) by (intro esStep.turn [of _ i "Live (userAddress p)" _ p]) simp_all
    moreover have "esRun eth worlds s1 txs2 (s1\<lparr>es_svc := es_svc s1\<lparr>svcExecutor := ex\<rparr>, es_pc := Idle\<rparr>)"
      using Cons.prems(2) l(2) by (intro Cons.IH [of s1 "Suc i"]) (simp_all add: s1_def)
    moreover have "s1\<lparr>es_svc := es_svc s1\<lparr>svcExecutor := ex\<rparr>, es_pc := Idle\<rparr> = s\<lparr>es_svc := es_svc s\<lparr>svcExecutor := ex\<rparr>, es_pc := Idle\<rparr>"
      by (simp add: s1_def)
    ultimately show ?thesis unfolding l(3) by (metis esRun.onward)
  qed
qed

lemma esRun_append: "esRun eth worlds s txs s1 \<Longrightarrow> esRun eth worlds s1 txs' s2 \<Longrightarrow> esRun eth worlds s (txs @ txs') s2"
  by (induction rule: esRun.induct) (simp_all add: esRun.onward)

lemma found_run:
  assumes "es_pc s = Idle" and "set order = fmdom' (positions (es_scanner s))"
    and "refreshAll (currentLiquidityIndex (svcRate (es_svc s))) (currentBorrowIndex (svcRate (es_svc s))) now order (es_scanner s) = Some sc"
  shows "\<exists>s'. esRun eth worlds s [] s' \<and> es_pc s' = Turns 0 (map (\<lambda>p. Live (userAddress p)) (findLiquidatable order' sc))
    \<and> es_svc s' = es_svc s\<lparr>svcScanner := sc\<rparr>"
proof -
  define s1 where "s1 = s\<lparr>es_pc := Refreshing order, es_time := now, es_rates := fmempty, es_touched := {}\<rparr>"
  have r1: "esStep eth worlds s [] s1" unfolding s1_def by (rule esStep.begins [OF assms(1,2)])
  obtain m where r2: "esRun eth worlds s1 [] (with_scanner sc s1\<lparr>es_pc := Refreshed, es_rates := m\<rparr>)"
    using refreshAll_run [of s1 order sc eth worlds] assms(3) by (auto simp: s1_def)
  define s2 where "s2 = with_scanner sc s1\<lparr>es_pc := Refreshed, es_rates := m\<rparr>"
  have "es_pc s2 = Refreshed" "es_svc s2 = es_svc s\<lparr>svcScanner := sc\<rparr>" by (simp_all add: s2_def s1_def)
  with esRun_snoc [OF esRun.onward [OF r1 r2 [folded s2_def]] esStep.finds [of s2 eth worlds order']] show ?thesis by fastforce
qed

text \<open>The scan in steps does what the scan as one step does: whatever an undisturbed scan sends and changes, the
  system can send and change with the locks taken and released as in the code. So what holds for every run
  of the system holds for scans that are not disturbed.\<close>

theorem scan_is_run:
  assumes "es_pc s = Idle" and "engine_ok (es_svc s)" and "set order = fmdom' (positions (es_scanner s))" and "env \<in> worlds"
    and "scan eth cancelled env order order' now (es_svc s) = Some (svc', txs)"
  shows "\<exists>s'. esRun eth worlds s txs s' \<and> es_svc s' = svc' \<and> es_pc s' = Idle"
proof -
  let ?l = "currentLiquidityIndex (svcRate (es_svc s))" and ?b = "currentBorrowIndex (svcRate (es_svc s))"
  have sc: "scanner_ok (es_scanner s)" using assms(2) by (simp add: engine_ok_def)
  obtain sc' where r: "refreshAll ?l ?b now order (es_scanner s) = Some sc'" "scanner_ok sc'"
    using refreshAll_refines [OF sc assms(3)] by blast
  define cs where "cs = findLiquidatable order' sc'"
  obtain ex where l: "liquidateLoop eth cancelled env 0 cs (svcExecutor (es_svc s)) = Some (ex, txs)"
      and svc': "svc' = es_svc s\<lparr>svcScanner := sc', svcExecutor := ex\<rparr>"
    using assms(5) r(1) by (cases "cs = []") (auto simp: scan_def Let_def cs_def bind_eq_Some_conv)
  obtain s3 where r3: "esRun eth worlds s [] s3" and s3: "es_pc s3 = Turns 0 (map (\<lambda>p. Live (userAddress p)) cs)"
      "es_svc s3 = es_svc s\<lparr>svcScanner := sc'\<rparr>"
    using found_run [OF assms(1,3) r(1)] unfolding cs_def by blast
  have "\<forall>p\<in>set cs. fmlookup (positions sc') (userAddress p) = Some p"
    using r(2) findLiquidatable_stored by (fastforce simp: cs_def scanner_ok_def addr_ok_def)
  then have "esRun eth worlds s3 txs (s3\<lparr>es_svc := es_svc s3\<lparr>svcExecutor := ex\<rparr>, es_pc := Idle\<rparr>)"
    using l assms(4) s3 by (intro liquidateLoop_run) simp_all
  from esRun_append [OF r3 this] show ?thesis
    by (intro exI [of _ "s3\<lparr>es_svc := es_svc s3\<lparr>svcExecutor := ex\<rparr>, es_pc := Idle\<rparr>"]) (simp add: svc' s3)
qed

text \<open>Only the turns of the loop send, and only the job of the target's present value.\<close>

lemma step_sends:
  assumes "eth_ok eth" and "\<forall>env\<in>worlds. \<forall>i. signer_ok (env i)" and "es_ok s" and "esStep eth worlds s txs s'"
  shows "length txs \<le> 1 \<and> (\<forall>tx\<in>set txs. \<exists>i t ts p d ds c cs.
    es_pc s = Turns i (t # ts) \<and> targetValue (es_scanner s) t = Some p \<and> debts p = d # ds \<and> collaterals p = c # cs
    \<and> liquidation_tx_ok eth (cfg (svcExecutor (es_svc s))) (c_assetAddress c) (d_assetAddress d) (userAddress p)
        (d_borrowBalance d div 2) tx
    \<and> (userAddress p \<notin> es_touched s \<longrightarrow> (\<exists>rc hf. fmlookup (es_rates s) (userAddress p) = Some rc \<and> hf < RAY
         \<and> calculateHealthFactor p (currentLiquidityIndex rc) (currentBorrowIndex rc) (es_time s) = Some hf)))"
  using assms(4)
proof cases
  case (turn i t ts p env ex)
  have fits: "debt_fits p" and own: "userAddress p \<notin> es_touched s \<Longrightarrow> t = Live (userAddress p) \<and> unhealthy p"
    using target_value [OF assms(3), of t] turn(2,3) by auto
  have sent: "length txs \<le> 1" "\<forall>tx\<in>set txs. \<exists>j. job p = Some j \<and> job_tx_ok eth (cfg (svcExecutor (es_svc s))) j tx"
    using turn_returns [OF assms(1) bspec [OF assms(2) turn(4)] fits, of i "svcExecutor (es_svc s)"] turn(5) by auto
  have low: "\<exists>rc hf. fmlookup (es_rates s) (userAddress p) = Some rc \<and> hf < RAY
      \<and> calculateHealthFactor p (currentLiquidityIndex rc) (currentBorrowIndex rc) (es_time s) = Some hf"
    if clean: "userAddress p \<notin> es_touched s"
  proof -
    have view: "fmlookup (posView (es_scanner s)) (userAddress p) = Some (p\<lparr>heapIndex := 0\<rparr>)"
      using own [OF clean] turn(3) by (simp add: lookup_posView)
    have "as_refreshed s (userAddress p) (p\<lparr>heapIndex := 0\<rparr>)"
      using assms(3) view clean turn(2) by (simp add: es_ok_def)
    then show ?thesis using own [OF clean] healthFactor_entries [of "p\<lparr>heapIndex := 0\<rparr>" p]
      by (auto simp: as_refreshed_def unhealthy_def split: option.splits)
  qed
  have "\<exists>d ds c cs. debts p = d # ds \<and> collaterals p = c # cs \<and> liquidation_tx_ok eth (cfg (svcExecutor (es_svc s)))
      (c_assetAddress c) (d_assetAddress d) (userAddress p) (d_borrowBalance d div 2) tx" if tx: "tx \<in> set txs" for tx
    using bspec [OF sent(2) tx] by (auto simp: job_def job_tx_ok_def split: list.splits)
  then show ?thesis using sent(1) low turn(2,3) by blast
qed simp_all

lemma turn_sends:
  assumes "eth_ok eth" and "env \<in> worlds" and "\<forall>i. signer_ok (env i) \<and> willing (env i)"
    and "es_pc s = Turns i (t # ts)" and "targetValue (es_scanner s) t = Some p" and "debt_fits p" and "job p = Some j"
  shows "\<exists>s' tx. esStep eth worlds s [tx] s' \<and> job_tx_ok eth (cfg (svcExecutor (es_svc s))) j tx"
proof -
  have signers: "\<forall>i. signer_ok (env i)" and wills: "\<forall>i. willing (env i)" using assms(3) by simp_all
  obtain ex tx where l: "liquidateLoop eth (\<lambda>_. False) env i [p] (svcExecutor (es_svc s)) = Some (ex, [tx])"
      and tx: "job_tx_ok eth (cfg (svcExecutor (es_svc s))) j tx"
    using turn_returns [OF assms(1) signers assms(6), of i "svcExecutor (es_svc s)"] wills assms(7) by fast
  from esStep.turn [OF assms(4,5,2) l] tx show ?thesis by (intro exI conjI)
qed

lemma set_data:
  assumes "scanner_ok sc"
  shows "\<exists>q. fmlookup (positions (setPosition pos sc)) (userAddress pos) = Some q \<and> same_data pos q"
proof -
  obtain k where "fmlookup (posView (setPosition pos sc)) (userAddress pos) = Some (pos\<lparr>chainID := k, heapIndex := 0\<rparr>)"
    using setPosition_refines [OF assms, of pos] by (simp add: specSet_def)
  then obtain q where q: "fmlookup (positions (setPosition pos sc)) (userAddress pos) = Some q" and e: "q\<lparr>heapIndex := 0\<rparr> = pos\<lparr>chainID := k, heapIndex := 0\<rparr>"
    by (auto simp: lookup_posView)
  from arg_cong [OF e, of debts] arg_cong [OF e, of collaterals] arg_cong [OF e, of userAddress] have "same_data pos q"
    by (simp add: same_data_def)
  with q show ?thesis by blast
qed

section \<open>Properties\<close>


text \<open>C32: The health of a candidate is not looked at again. While it waits for its turn, the user may repay until
  the position is sound, or be removed from the scanner; with a willing node its turn sends the transaction
  all the same, for half of whatever debt the new position starts with, or the old one had.\<close>

theorem recovered_still_liquidated:
  assumes "eth_ok eth" and "env \<in> worlds" and "\<forall>i. signer_ok (env i) \<and> willing (env i)" and "engine_ok svc"
    and "esRun eth worlds (esStart svc) sent s" and "es_pc s = Turns i (Live a # ts)"
    and "userAddress pos = a" and "debt_fits pos" and "debts pos = d # ds" and "collaterals pos = c # cs"
  shows "(\<exists>s1 s2 tx. esStep eth worlds s [] s1 \<and> es_scanner s1 = setPosition pos (es_scanner s) \<and> esStep eth worlds s1 [tx] s2
      \<and> liquidation_tx_ok eth (cfg (svcExecutor (es_svc s))) (c_assetAddress c) (d_assetAddress d) a (d_borrowBalance d div 2) tx)
    \<and> (\<exists>p. fmlookup (positions (es_scanner s)) a = Some p \<and> (\<forall>j. job p = Some j \<longrightarrow>
        (\<exists>s1 s2 tx. esStep eth worlds s [] s1 \<and> es_scanner s1 = removePosition a (es_scanner s) \<and> esStep eth worlds s1 [tx] s2
          \<and> job_tx_ok eth (cfg (svcExecutor (es_svc s))) j tx)))"
proof (rule conjI)
  have ok: "es_ok s" using esRun_ok [OF assms(5,1) esStart_ok [OF assms(4)]] .
  then have eng: "engine_ok (es_svc s)" by (simp add: es_ok_def)
  then have sc: "scanner_ok (es_scanner s)" by (simp add: engine_ok_def)
  have free: "\<not> locked (es_pc s)" by (simp add: assms(6))
  show "\<exists>s1 s2 tx. esStep eth worlds s [] s1 \<and> es_scanner s1 = setPosition pos (es_scanner s) \<and> esStep eth worlds s1 [tx] s2
      \<and> liquidation_tx_ok eth (cfg (svcExecutor (es_svc s))) (c_assetAddress c) (d_assetAddress d) a (d_borrowBalance d div 2) tx"
  proof -
    define s1 where "s1 = with_scanner (setPosition pos (es_scanner s)) s\<lparr>es_touched := insert (userAddress pos) (es_touched s)\<rparr>"
    obtain q where q: "fmlookup (positions (es_scanner s1)) a = Some q" "same_data pos q"
      using set_data [OF sc, of pos] assms(7) by (auto simp: s1_def)
    have "job pos = Some (c_assetAddress c, d_assetAddress d, a, d_borrowBalance d div 2)" using assms(7,9,10) by (simp add: job_def)
    then obtain s2 tx where "esStep eth worlds s1 [tx] s2"
        "job_tx_ok eth (cfg (svcExecutor (es_svc s1))) (c_assetAddress c, d_assetAddress d, a, d_borrowBalance d div 2) tx"
      using turn_sends [OF assms(1-3), of s1 i "Live a" ts q] assms(6,8) q by (auto simp: s1_def)
    moreover have "esStep eth worlds s [] s1" unfolding s1_def by (rule esStep.sets [OF free assms(8)])
    ultimately show ?thesis by (intro exI [of _ s1] exI [of _ s2] exI [of _ tx]) (simp add: s1_def job_tx_ok_def)
  qed
  obtain p where p: "fmlookup (positions (es_scanner s)) a = Some p" "debt_fits p"
    using target_value [OF ok, of "Live a"] assms(6) by auto
  show "\<exists>p. fmlookup (positions (es_scanner s)) a = Some p \<and> (\<forall>j. job p = Some j \<longrightarrow>
        (\<exists>s1 s2 tx. esStep eth worlds s [] s1 \<and> es_scanner s1 = removePosition a (es_scanner s) \<and> esStep eth worlds s1 [tx] s2
          \<and> job_tx_ok eth (cfg (svcExecutor (es_svc s))) j tx))"
  proof (intro exI [of _ p] conjI allI impI p(1))
    fix j assume j: "job p = Some j"
    define s1 where "s1 = with_scanner (removePosition a (es_scanner s)) s\<lparr>es_pc := mapTargets (detach a (es_scanner s)) (es_pc s),
       es_touched := insert a (es_touched s)\<rparr>"
    have "es_pc s1 = Turns i (Detached p # map (detach a (es_scanner s)) ts)" using p(1) by (simp add: s1_def assms(6))
    from turn_sends [OF assms(1-3) this _ p(2) j] obtain s2 tx where
      "esStep eth worlds s1 [tx] s2" "job_tx_ok eth (cfg (svcExecutor (es_svc s1))) j tx" by auto
    moreover have "esStep eth worlds s [] s1" unfolding s1_def by (rule esStep.removes [OF free])
    ultimately show "\<exists>s1 s2 tx. esStep eth worlds s [] s1 \<and> es_scanner s1 = removePosition a (es_scanner s) \<and> esStep eth worlds s1 [tx] s2
          \<and> job_tx_ok eth (cfg (svcExecutor (es_svc s))) j tx"
      by (intro exI [of _ s1] exI [of _ s2] exI [of _ tx]) (simp add: s1_def)
  qed
qed
section \<open>Example\<close>

text \<open>The second position is below water; with a debt of one dollar it would be sound.\<close>

lemma example_found:
  "case refreshAll (currentLiquidityIndex (svcRate exampleService)) (currentBorrowIndex (svcRate exampleService)) 2000 [2, 1] (svcScanner exampleService) of
     None \<Rightarrow> False | Some sc \<Rightarrow> map userAddress (findLiquidatable [1, 2] sc) = [2]"
  by code_simp

lemma example_recovered:
  "case calculateHealthFactor (examplePosition 2 (10 ^ 6)) (currentLiquidityIndex (svcRate exampleService)) (currentBorrowIndex (svcRate exampleService)) 2000 of
     None \<Rightarrow> False | Some hf \<Rightarrow> RAY < hf"
  by code_simp

lemma example_candidate:
  "\<exists>s. esRun exampleEth {\<lambda>_. exampleEnv} (esStart exampleService) [] s \<and> es_pc s = Turns 0 [Live 2]"
proof -
  obtain sc where sc: "refreshAll (currentLiquidityIndex (svcRate exampleService)) (currentBorrowIndex (svcRate exampleService)) 2000 [2, 1] (svcScanner exampleService) = Some sc"
      "map userAddress (findLiquidatable [1, 2] sc) = [2]"
    using example_found by (cases "refreshAll (currentLiquidityIndex (svcRate exampleService)) (currentBorrowIndex (svcRate exampleService)) 2000 [2, 1] (svcScanner exampleService)") simp_all
  have "map (\<lambda>p. Live (userAddress p)) (findLiquidatable [1, 2] sc) = map Live (map userAddress (findLiquidatable [1, 2] sc))"
    by (simp del: findLiquidatable.simps)
  also have "\<dots> = [Live 2]" unfolding sc(2) by simp
  finally have "map (\<lambda>p. Live (userAddress p)) (findLiquidatable [1, 2] sc) = [Live 2]" .
  moreover have "set [2, 1] = fmdom' (positions (es_scanner (esStart exampleService)))"
    using exampleService_ready by (simp add: scan_ready_def esStart_def)
  ultimately show ?thesis
    using found_run [of "esStart exampleService" "[2, 1]" 2000 sc exampleEth "{\<lambda>_. exampleEnv}" "[1, 2]"] sc(1)
    by (fastforce simp: esStart_def simp del: findLiquidatable.simps)
qed

theorem scan_is_run_witness:
  "\<exists>txs s'. esRun exampleEth {\<lambda>_. exampleEnv} (esStart exampleService) txs s' \<and> es_pc s' = Idle \<and> length txs \<le> 2"
proof -
  obtain svc' txs where r: "scan exampleEth (\<lambda>_. False) (\<lambda>_. exampleEnv) [2, 1] [1, 2] 2000 exampleService = Some (svc', txs)" "length txs \<le> 2"
    using scan_outcome [OF exampleEth_ok _ exampleService_ready, of "\<lambda>_. exampleEnv" "\<lambda>_. False" "[1, 2]" 2000] by auto
  have "set [2, 1] = fmdom' (positions (es_scanner (esStart exampleService)))"
    using exampleService_ready by (simp add: scan_ready_def esStart_def)
  with scan_is_run [of "esStart exampleService" "[2, 1]" "\<lambda>_. exampleEnv" "{\<lambda>_. exampleEnv}" exampleEth "\<lambda>_. False" "[1, 2]" 2000 svc' txs]
    exampleService_ok r show ?thesis by (auto simp: esStart_def)
qed


theorem recovered_still_liquidated_witness:
  "\<exists>s s1 s2 tx. esRun exampleEth {\<lambda>_. exampleEnv} (esStart exampleService) [] s
     \<and> es_scanner s1 = setPosition (examplePosition 2 (10 ^ 6)) (es_scanner s) \<and> esStep exampleEth {\<lambda>_. exampleEnv} s [] s1
     \<and> esStep exampleEth {\<lambda>_. exampleEnv} s1 [tx] s2"
proof -
  obtain s where s: "esRun exampleEth {\<lambda>_. exampleEnv} (esStart exampleService) [] s" "es_pc s = Turns 0 [Live 2]"
    using example_candidate by blast
  let ?pos = "examplePosition 2 (10 ^ 6)"
  have w: "\<forall>i::nat. signer_ok exampleEnv \<and> willing exampleEnv" by (simp add: exampleEnv_willing)
  have f: "userAddress ?pos = 2" "debt_fits ?pos" by (simp_all add: examplePosition_def debt_fits_def)
  obtain d c where dc: "debts ?pos = [d]" "collaterals ?pos = [c]" by (simp add: examplePosition_def)
  from conjunct1 [OF recovered_still_liquidated [OF exampleEth_ok _ w exampleService_ok s f dc]] s(1) show ?thesis by blast
qed

end
