(* ===== verification/HealthAccuracy.thy ===== *)
theory HealthAccuracy
  imports LiquidationService
begin

text \<open>
  How far the health factor of \<open>internal/liquidation/scanner/scanner.go\<close> is from the one it stands for. The
  scanner rounds in every step: the growth of an index, the balance, its value in dollars, the weighted
  collateral and the quotient. Here the same quantities are rational numbers without rounding, and the
  theory bounds the difference; then what a scan liquidates is said in terms of the exact quantities.
\<close>

section \<open>The exact quantities\<close>

text \<open>A balance with its interest; the value of an amount of a token, in dollars with eight decimals; and the
  weighted collateral and the debt of a position, both with nine decimals more, as the scanner has them.\<close>

definition exactAmount :: "int \<Rightarrow> int option \<Rightarrow> int \<Rightarrow> rat" where
  "exactAmount bal idx cur = (case idx of
     None \<Rightarrow> of_int bal
   | Some i \<Rightarrow> if 0 < i then of_int bal * of_int cur / of_int i else of_int bal)"

definition exactUsd :: "rat \<Rightarrow> int \<Rightarrow> int \<Rightarrow> rat" where
  "exactUsd amount price d = amount * of_int price / of_int (decimalsFactor d)"

definition exactCollateral :: "indexFn \<Rightarrow> i64 \<Rightarrow> collateralEntry \<Rightarrow> rat" where
  "exactCollateral l now c =
     exactUsd (exactAmount (c_supplyBalance c) (c_supplyIndex c) (indexOrRay (l (c_marketID c) now))) (c_priceUSD c) (c_decimals c)
       * 10 ^ 9 * (of_int (c_liquidationThreshold c) / of_int RAY)"

definition exactDebt :: "indexFn \<Rightarrow> i64 \<Rightarrow> debtEntry \<Rightarrow> rat" where
  "exactDebt b now d =
     exactUsd (exactAmount (d_borrowBalance d) (d_borrowIndex d) (indexOrRay (b (d_marketID d) now))) (d_priceUSD d) (d_decimals d) * 10 ^ 9"

text \<open>What rounding may do to a balance, in the token's smallest unit: a half and, for a balance below 2 * RAY,
  at most one more; and to what a position has and owes.\<close>

definition amountError :: "int \<Rightarrow> rat" where
  "amountError bal = of_int \<bar>bal\<bar> / (2 * of_int RAY) + 1 / 2 + 1 / (2 * 10 ^ 9)"

definition usdError :: "int \<Rightarrow> int \<Rightarrow> int \<Rightarrow> rat" where
  "usdError bal price d = exactUsd (amountError bal) price d + 1"

definition collateralError :: "collateralEntry \<Rightarrow> rat" where
  "collateralError c = usdError (c_supplyBalance c) (c_priceUSD c) (c_decimals c) * 10 ^ 9
     * (of_int (c_liquidationThreshold c) / of_int RAY) + 1 / 2"

definition debtError :: "debtEntry \<Rightarrow> rat" where
  "debtError d = usdError (d_borrowBalance d) (d_priceUSD d) (d_decimals d) * 10 ^ 9"

definition collateralOf :: "indexFn \<Rightarrow> i64 \<Rightarrow> userPosition \<Rightarrow> rat" where
  "collateralOf l now p = sum_list (map (exactCollateral l now) (collaterals p))"

definition debtOf :: "indexFn \<Rightarrow> i64 \<Rightarrow> userPosition \<Rightarrow> rat" where
  "debtOf b now p = sum_list (map (exactDebt b now) (debts p))"

definition roundingError :: "userPosition \<Rightarrow> rat" where
  "roundingError p = sum_list (map collateralError (collaterals p)) + sum_list (map debtError (debts p))"

section \<open>The rounding of each step\<close>

lemma round_div_exact:
  assumes "0 < d"
  shows "\<bar>of_int (round_div x d) - of_int x / of_int d\<bar> \<le> (1 / 2 :: rat)"
proof -
  have d: "(0 :: rat) < of_int d" using assms by simp
  have "of_int \<bar>2 * (x - round_div x d * d)\<bar> \<le> (of_int d :: rat)" using round_div_error [OF assms, of x] by (simp only: of_int_le_iff)
  then have "\<bar>2 * (of_int x - of_int (round_div x d) * of_int d)\<bar> \<le> (of_int d :: rat)" by simp
  then have e: "2 * \<bar>of_int x - of_int (round_div x d) * of_int d\<bar> \<le> (of_int d :: rat)" by (simp only: abs_mult abs_numeral)
  have "of_int x / of_int d - of_int (round_div x d) = (of_int x - of_int (round_div x d) * of_int d) / (of_int d :: rat)"
    using d by (simp add: field_simps)
  also have "\<bar>\<dots>\<bar> = \<bar>of_int x - of_int (round_div x d) * of_int d\<bar> / (of_int d :: rat)" using d by simp
  also have "\<dots> \<le> 1 / 2" using e d by (simp add: pos_divide_le_eq)
  finally show ?thesis by (simp add: abs_minus_commute)
qed

lemma abs_sum3:
  "\<bar>x\<bar> \<le> a \<Longrightarrow> \<bar>y\<bar> \<le> b \<Longrightarrow> \<bar>z\<bar> \<le> c \<Longrightarrow> \<bar>x + y + z\<bar> \<le> a + c + b" for x :: rat
  by linarith

lemma div_exact:
  assumes "0 < d"
  shows "of_int (x div d) \<le> (of_int x / of_int d :: rat)" and "of_int x / of_int d < (of_int (x div d) + 1 :: rat)"
proof -
  show "of_int (x div d) \<le> (of_int x / of_int d :: rat)" "of_int x / of_int d < (of_int (x div d) + 1 :: rat)"
    using floor_correct [of "of_int x / of_int d :: rat"] by (simp_all add: floor_divide_of_int_eq)
qed

text \<open>Each routine of the scanner, with the error it adds.\<close>

lemma actualAmount_exact:
  assumes "actualAmount bal idx cur = Some a"
  shows "\<bar>of_int a - exactAmount bal idx cur\<bar> \<le> amountError bal"
proof (cases "\<exists>i. idx = Some i \<and> 0 < i")
  case False
  then have "a = bal" "exactAmount bal idx cur = of_int bal"
    using assms by (auto simp: actualAmount_def exactAmount_def split: option.splits)
  moreover have "0 \<le> amountError bal" by (simp add: amountError_def)
  ultimately show ?thesis by simp
next
  case True
  then obtain i where i: "idx = Some i" "0 < i" by blast
  define q where "q = round_div (cur * RAY) i"
  define m where "m = round_div (wadToRay bal * q) RAY"
  have a: "a = round_div m (10 ^ 9)"
    using assms i by (simp add: actualAmount_def rayDiv_round rayMul_round rayToWad_round q_def m_def Let_def)
  have r: "(0 :: rat) < of_int RAY" by simp
  define e1 where "e1 = of_int q - of_int cur * of_int RAY / (of_int i :: rat)"
  define e2 where "e2 = of_int m - of_int bal * 10 ^ 9 * of_int q / (of_int RAY :: rat)"
  define e3 where "e3 = of_int a - of_int m / (10 ^ 9 :: rat)"
  have e: "\<bar>e1\<bar> \<le> 1 / 2" "\<bar>e2\<bar> \<le> 1 / 2" "\<bar>e3\<bar> \<le> 1 / 2"
    using round_div_exact [OF i(2), of "cur * RAY"] round_div_exact [OF RAY_pos, of "wadToRay bal * q"] round_div_exact [of "10 ^ 9" m]
    by (simp_all add: e1_def e2_def e3_def q_def m_def a wadToRay_def)
  have "of_int a = of_int m / 10 ^ 9 + e3" by (simp add: e3_def)
  also have "of_int m = of_int bal * 10 ^ 9 * of_int q / of_int RAY + e2" by (simp add: e2_def)
  also have "of_int q = of_int cur * of_int RAY / of_int i + e1" by (simp add: e1_def)
  finally have "of_int a - exactAmount bal idx cur = of_int bal * e1 / of_int RAY + e2 / 10 ^ 9 + e3"
    using i r by (simp add: exactAmount_def field_simps)
  moreover have "\<bar>of_int bal * e1 / of_int RAY\<bar> \<le> of_int \<bar>bal\<bar> / (2 * of_int RAY)"
  proof -
    have "\<bar>of_int bal * e1 / of_int RAY\<bar> = of_int \<bar>bal\<bar> * \<bar>e1\<bar> / (of_int RAY :: rat)" by (simp add: abs_mult)
    also have "\<dots> \<le> of_int \<bar>bal\<bar> * (1 / 2) / of_int RAY" using e(1) r by (intro divide_right_mono mult_left_mono) simp_all
    finally show ?thesis by simp
  qed
  moreover have "\<bar>e2 / 10 ^ 9\<bar> \<le> 1 / (2 * 10 ^ 9)" using e(2) by simp
  ultimately show ?thesis using e(3) unfolding amountError_def by (simp only: abs_sum3)
qed

lemma exactUsd_diff: "exactUsd x price d - exactUsd y price d = exactUsd (x - y) price d"
  by (simp add: exactUsd_def left_diff_distrib diff_divide_distrib)

lemma exactUsd_mono: "0 \<le> price \<Longrightarrow> x \<le> y \<Longrightarrow> exactUsd x price d \<le> exactUsd y price d"
  by (simp add: exactUsd_def divide_right_mono mult_right_mono less_imp_le)

lemma exactUsd_abs: "0 \<le> price \<Longrightarrow> \<bar>x\<bar> \<le> y \<Longrightarrow> \<bar>exactUsd x price d\<bar> \<le> exactUsd y price d"
  using exactUsd_mono [of price x y d] exactUsd_mono [of price "- x" y d] by (simp add: abs_le_iff) (simp add: exactUsd_def)

lemma usdValue_exact:
  assumes "0 \<le> price" and "\<bar>of_int a - x\<bar> \<le> amountError bal"
  shows "\<bar>of_int (usdValue a price d) - exactUsd x price d\<bar> \<le> usdError bal price d"
proof -
  have "usdValue a price d = a * price div decimalsFactor d" by (simp add: usdValue_def)
  then have "\<bar>of_int (usdValue a price d) - exactUsd (of_int a) price d\<bar> \<le> 1"
    using div_exact [of "decimalsFactor d" "a * price"] by (simp add: exactUsd_def)
  moreover have "\<bar>exactUsd (of_int a) price d - exactUsd x price d\<bar> \<le> exactUsd (amountError bal) price d"
    unfolding exactUsd_diff using assms by (rule exactUsd_abs)
  ultimately show ?thesis unfolding usdError_def by linarith
qed

lemma scaled: "\<bar>x - y\<bar> \<le> e \<Longrightarrow> 0 \<le> t \<Longrightarrow> \<bar>x * t - y * t\<bar> \<le> e * t" for x :: rat
  by (simp add: abs_mult mult_right_mono flip: left_diff_distrib)

lemma abs_chain: "\<bar>x - y\<bar> \<le> e \<Longrightarrow> \<bar>z - x\<bar> \<le> f \<Longrightarrow> \<bar>z - y\<bar> \<le> e + f" for x :: rat
  by linarith

lemma collateral_exact:
  assumes "collateral_nonneg c" and "actualAmount (c_supplyBalance c) (c_supplyIndex c) (indexOrRay (l (c_marketID c) now)) = Some a"
  shows "\<bar>of_int (rayMul (wadToRay (usdValue a (c_priceUSD c) (c_decimals c))) (c_liquidationThreshold c)) - exactCollateral l now c\<bar>
    \<le> collateralError c"
proof -
  let ?u = "usdValue a (c_priceUSD c) (c_decimals c)"
  let ?x = "exactUsd (exactAmount (c_supplyBalance c) (c_supplyIndex c) (indexOrRay (l (c_marketID c) now))) (c_priceUSD c) (c_decimals c)"
  let ?t = "of_int (c_liquidationThreshold c) / of_int RAY :: rat"
  have t: "0 \<le> ?t" using assms(1) by (simp add: collateral_nonneg_def)
  have u: "\<bar>of_int ?u - ?x\<bar> \<le> usdError (c_supplyBalance c) (c_priceUSD c) (c_decimals c)"
    using usdValue_exact [OF _ actualAmount_exact [OF assms(2)]] assms(1) by (simp add: collateral_nonneg_def)
  have v: "\<bar>of_int ?u * 10 ^ 9 * ?t - ?x * 10 ^ 9 * ?t\<bar> \<le> usdError (c_supplyBalance c) (c_priceUSD c) (c_decimals c) * 10 ^ 9 * ?t"
    using scaled [OF u, of "10 ^ 9 * ?t"] t by (simp only: mult.assoc) simp
  have "\<bar>of_int (rayMul (wadToRay ?u) (c_liquidationThreshold c)) - of_int ?u * 10 ^ 9 * ?t\<bar> \<le> 1 / 2"
    using round_div_exact [OF RAY_pos, of "wadToRay ?u * c_liquidationThreshold c"] by (simp add: rayMul_round wadToRay_def)
  from abs_chain [OF v this] show ?thesis unfolding collateralError_def exactCollateral_def .
qed

lemma debt_exact:
  assumes "debt_nonneg d" and "actualAmount (d_borrowBalance d) (d_borrowIndex d) (indexOrRay (b (d_marketID d) now)) = Some a"
  shows "\<bar>of_int (wadToRay (usdValue a (d_priceUSD d) (d_decimals d))) - exactDebt b now d\<bar> \<le> debtError d"
proof -
  let ?u = "usdValue a (d_priceUSD d) (d_decimals d)"
  let ?x = "exactUsd (exactAmount (d_borrowBalance d) (d_borrowIndex d) (indexOrRay (b (d_marketID d) now))) (d_priceUSD d) (d_decimals d)"
  have u: "\<bar>of_int ?u - ?x\<bar> \<le> usdError (d_borrowBalance d) (d_priceUSD d) (d_decimals d)"
    using usdValue_exact [OF _ actualAmount_exact [OF assms(2)]] assms(1) by (simp add: debt_nonneg_def)
  show ?thesis using scaled [OF u, of "10 ^ 9"] unfolding exactDebt_def debtError_def by (simp add: wadToRay_def)
qed

lemma weightedCollateral_exact:
  "list_all collateral_nonneg cs \<Longrightarrow> weightedCollateral l now cs acc = Some w \<Longrightarrow>
     \<bar>of_int w - of_int acc - sum_list (map (exactCollateral l now) cs)\<bar> \<le> sum_list (map collateralError cs)"
proof (induction cs arbitrary: acc)
  case (Cons c cs)
  obtain a where a: "actualAmount (c_supplyBalance c) (c_supplyIndex c) (indexOrRay (l (c_marketID c) now)) = Some a"
    using actualAmount_returns by blast
  let ?r = "rayMul (wadToRay (usdValue a (c_priceUSD c) (c_decimals c))) (c_liquidationThreshold c)"
  have "\<bar>of_int w - of_int (acc + ?r) - sum_list (map (exactCollateral l now) cs)\<bar> \<le> sum_list (map collateralError cs)"
  proof (rule Cons.IH)
    show "list_all collateral_nonneg cs" using Cons.prems(1) by simp
    show "weightedCollateral l now cs (acc + ?r) = Some w" using Cons.prems(2) by (simp only: weightedCollateral.simps a bind.bind_lunit Let_def)
  qed
  moreover have "\<bar>of_int ?r - exactCollateral l now c\<bar> \<le> collateralError c"
    using collateral_exact [of c l now a] a Cons.prems(1) by simp
  ultimately show ?case by simp
qed simp

lemma sumDebt_exact:
  "list_all debt_nonneg ds \<Longrightarrow> sumDebt b now ds acc = Some t \<Longrightarrow>
     \<bar>of_int t - of_int acc - sum_list (map (exactDebt b now) ds)\<bar> \<le> sum_list (map debtError ds)"
proof (induction ds arbitrary: acc)
  case (Cons d ds)
  obtain a where a: "actualAmount (d_borrowBalance d) (d_borrowIndex d) (indexOrRay (b (d_marketID d) now)) = Some a"
    using actualAmount_returns by blast
  let ?r = "wadToRay (usdValue a (d_priceUSD d) (d_decimals d))"
  have "\<bar>of_int t - of_int (acc + ?r) - sum_list (map (exactDebt b now) ds)\<bar> \<le> sum_list (map debtError ds)"
  proof (rule Cons.IH)
    show "list_all debt_nonneg ds" using Cons.prems(1) by simp
    show "sumDebt b now ds (acc + ?r) = Some t" using Cons.prems(2) by (simp only: sumDebt.simps a bind.bind_lunit Let_def)
  qed
  moreover have "\<bar>of_int ?r - exactDebt b now d\<bar> \<le> debtError d"
    using debt_exact [of d b now a] a Cons.prems(1) by simp
  ultimately show ?case by simp
qed simp
section \<open>The health factor\<close>

lemma exactAmount_nonneg: "0 \<le> bal \<Longrightarrow> 0 \<le> cur \<Longrightarrow> 0 \<le> exactAmount bal idx cur"
  by (simp add: exactAmount_def split: option.split)

lemma exactUsd_nonneg: "0 \<le> x \<Longrightarrow> 0 \<le> price \<Longrightarrow> 0 \<le> exactUsd x price d"
  by (simp add: exactUsd_def less_imp_le)

lemma collateralOf_nonneg:
  assumes "list_all collateral_nonneg (collaterals p)" and "index_le l l now"
  shows "0 \<le> collateralOf l now p"
proof -
  have "0 \<le> exactCollateral l now c" if "collateral_nonneg c" for c
    using that assms(2) exactUsd_nonneg [OF exactAmount_nonneg]
    by (simp add: exactCollateral_def collateral_nonneg_def index_le_def)
  then show ?thesis using assms(1) unfolding collateralOf_def by (intro sum_list_nonneg) (auto simp: list_all_iff)
qed

text \<open>A health factor below one means that the position has less than it owes, up to the rounding; and a
  position that has less than it owes, by more than the rounding, has a health factor below one, as long as
  it owes less than twenty billion dollars.\<close>

lemma healthFactor_exact:
  assumes "list_all collateral_nonneg (collaterals p)" and "list_all debt_nonneg (debts p)"
    and "index_le l l now" and "index_le b b now"
  shows "\<exists>hf. calculateHealthFactor p l b now = Some hf
    \<and> (hf < RAY \<longrightarrow> collateralOf l now p < debtOf b now p + roundingError p)
    \<and> (collateralOf l now p + roundingError p < debtOf b now p \<longrightarrow> debtOf b now p + roundingError p < 2 * of_int RAY \<longrightarrow> hf < RAY)"
proof -
  obtain wc td where r: "weightedCollateral l now (collaterals p) 0 = Some wc" "sumDebt b now (debts p) 0 = Some td"
    using weightedCollateral_returns sumDebt_returns by metis
  let ?ce = "sum_list (map collateralError (collaterals p))" and ?de = "sum_list (map debtError (debts p))"
  have wc: "\<bar>of_int wc - collateralOf l now p\<bar> \<le> ?ce"
    using weightedCollateral_exact [OF assms(1) r(1)] by (simp add: collateralOf_def)
  have td: "\<bar>of_int td - debtOf b now p\<bar> \<le> ?de"
    using sumDebt_exact [OF assms(2) r(2)] by (simp add: debtOf_def)
  have "0 \<le> td" using sumDebt_mono [OF assms(4,2) order_refl order_refl r(2) r(2)] by simp
  from healthFactor_threshold [OF r this] obtain hf where hf: "calculateHealthFactor p l b now = Some hf"
      "td = 0 \<longrightarrow> hf = 1000 * RAY" "0 < td \<longrightarrow> (hf < RAY \<longrightarrow> wc < td) \<and> (wc < td \<longrightarrow> td < 2 * RAY \<longrightarrow> hf < RAY)"
    by blast
  have "collateralOf l now p < debtOf b now p + roundingError p" if "hf < RAY"
  proof -
    have "0 < td" using hf(2) that \<open>0 \<le> td\<close> by (cases "td = 0") simp_all
    with hf(3) that have "(of_int wc :: rat) < of_int td" by simp
    then show ?thesis using wc td unfolding roundingError_def by linarith
  qed
  moreover have "hf < RAY" if "collateralOf l now p + roundingError p < debtOf b now p" "debtOf b now p + roundingError p < 2 * of_int RAY"
  proof -
    have err: "0 \<le> ?ce" "0 \<le> ?de" using wc td by linarith+
    have "(of_int wc :: rat) < of_int td" using that(1) wc td unfolding roundingError_def by linarith
    moreover have "(of_int td :: rat) < of_int (2 * RAY)" using that(2) td err unfolding roundingError_def by (simp only: of_int_mult of_int_numeral)
    moreover have "(0 :: rat) < of_int td"
      using that(1) td err collateralOf_nonneg [OF assms(1,3)] unfolding roundingError_def by linarith
    ultimately show ?thesis using hf(3) by (simp only: of_int_less_iff of_int_0_less_iff)
  qed
  ultimately show ?thesis using hf(1) by blast
qed

section \<open>Properties\<close>


text \<open>For the example with one ether against 2000 dollars of a token with six decimals the rounding is less than
  a millionth of a dollar.\<close>

lemma example_rounding: "roundingError (examplePosition a (2000 * 10 ^ 6)) < 10 ^ 2 * 10 ^ 9"
  by (simp add: roundingError_def examplePosition_def collateralError_def debtError_def usdError_def exactUsd_def amountError_def
      decimalsFactor_def RAY_def)

lemma example_nonneg:
  "list_all (\<lambda>a. case fmlookup (positions exampleScanner) a of None \<Rightarrow> True
     | Some p \<Rightarrow> list_all collateral_nonneg (collaterals p) \<and> list_all debt_nonneg (debts p)) [1, 2]"
  by code_simp


end
