(* ===== verification/ChainTypes.thy ===== *)
theory ChainTypes
  imports Prelude
begin

text \<open>\<open>internal/common/types/types.go\<close>: the data the indexer's components exchange.\<close>

type_synonym chainId = i64

datatype eventType = EventDeposit | EventWithdraw | EventBorrow | EventRepay | EventLiquidation
  | EventReserveDataUpdated | EventAccrueInterest

definition eventTypeName :: "eventType \<Rightarrow> string" where
  "eventTypeName t = (case t of EventDeposit \<Rightarrow> ''Deposit'' | EventWithdraw \<Rightarrow> ''Withdraw''
     | EventBorrow \<Rightarrow> ''Borrow'' | EventRepay \<Rightarrow> ''Repay'' | EventLiquidation \<Rightarrow> ''Liquidation''
     | EventReserveDataUpdated \<Rightarrow> ''ReserveDataUpdated'' | EventAccrueInterest \<Rightarrow> ''AccrueInterest'')"

record blockHeader =
  h_chainID :: chainId
  h_number :: u64
  h_hash :: hash
  h_parentHash :: hash
  h_timestamp :: i64

record chainEvent =
  e_chainID :: chainId
  e_blockNumber :: u64
  e_txHash :: hash
  e_logIndex :: u64
  e_eventType :: eventType
  e_contractAddress :: address
  e_userAddress :: address
  e_marketAddress :: address
  e_amount :: "int option"
  e_data :: "(string, string) fmap"
  e_timestamp :: i64

text \<open>The read models. No operation of the repository uses them.\<close>

record syncStatusRow =
  srow_chainID :: chainId
  srow_lastIndexedBlock :: u64
  srow_lastConfirmedBlock :: u64
  srow_updatedAt :: i64

record marketStateRow =
  mrow_marketID :: i64
  mrow_totalSupply :: int
  mrow_totalBorrow :: int
  mrow_supplyRate :: int
  mrow_borrowRate :: int
  mrow_liquidityIndex :: int
  mrow_borrowIndex :: int
  mrow_lastUpdateTimestamp :: u64
  mrow_utilizationRate :: int

record positionRow =
  prow_ID :: i64
  prow_chainID :: chainId
  prow_userAddress :: address
  prow_marketID :: i64
  prow_supplyBalance :: int
  prow_borrowBalance :: int
  prow_supplyIndex :: int
  prow_borrowIndex :: int
  prow_updatedAt :: i64

end
