(* ===== verification/ReorgDetector.thy ===== *)
theory ReorgDetector
  imports ChainTypes
begin

text \<open>
  \<open>internal/indexer/reorg/detector.go\<close>: the recent block hashes and the detection of chain
  reorganisations. Every method holds the detector's mutex.
\<close>

record detector =
  blockHashes :: "(u64, hash) fmap"
  maxBlocks :: int

definition newDetector :: "int \<Rightarrow> detector" where
  "newDetector m = \<lparr>blockHashes = fmempty, maxBlocks = m\<rparr>"

text \<open>\<open>header.Number - uint64(d.maxBlocks)\<close> is computed in 64 bits and wraps below zero.\<close>

definition recordBlock :: "blockHeader \<Rightarrow> detector \<Rightarrow> detector" where
  "recordBlock h d =
     (let hs = fmupd (h_number h) (h_hash h) (blockHashes d) in
      if maxBlocks d < int (fmsize hs)
      then (let oldest = h_number h - word_of_int (maxBlocks d)
            in d\<lparr>blockHashes := fmfilter (\<lambda>num. \<not> num \<le> oldest) hs\<rparr>)
      else d\<lparr>blockHashes := hs\<rparr>)"

definition detectReorg :: "blockHeader \<Rightarrow> detector \<Rightarrow> u64 \<times> bool" where
  "detectReorg h d =
     (case fmlookup (blockHashes d) (h_number h) of
        Some existingHash \<Rightarrow> if existingHash \<noteq> h_hash h then (h_number h, True) else (0, False)
      | None \<Rightarrow>
          (let parentNum = h_number h - 1 in
           case fmlookup (blockHashes d) parentNum of
             Some parentHash \<Rightarrow> if parentHash \<noteq> h_parentHash h then (parentNum, True) else (0, False)
           | None \<Rightarrow> (0, False)))"

definition rollback :: "u64 \<Rightarrow> detector \<Rightarrow> detector" where
  "rollback fromBlock d = d\<lparr>blockHashes := fmfilter (\<lambda>num. \<not> fromBlock \<le> num) (blockHashes d)\<rparr>"

text \<open>The detector's part of the indexer's loop: detect, roll back to the fork, record.\<close>

definition detectorStep :: "blockHeader \<Rightarrow> detector \<Rightarrow> detector" where
  "detectorStep h d = recordBlock h
     (case detectReorg h d of (fork, isReorg) \<Rightarrow> if isReorg then rollback fork d else d)"

section \<open>Basic facts\<close>

lemma maxBlocks_frame [simp]: "maxBlocks (recordBlock h d) = maxBlocks d"
  "maxBlocks (rollback n d) = maxBlocks d" "maxBlocks (detectorStep h d) = maxBlocks d"
  by (simp_all add: recordBlock_def rollback_def detectorStep_def Let_def split: prod.split)

lemma rollback_lookup [simp]:
  "fmlookup (blockHashes (rollback n d)) k = (if n \<le> k then None else fmlookup (blockHashes d) k)"
  by (simp add: rollback_def)

text \<open>Numbers as natural numbers.\<close>

definition storedNumbers :: "detector \<Rightarrow> nat set" where
  "storedNumbers d = unat ` fmdom' (blockHashes d)"

lemma fmsize_stored: "fmsize (blockHashes d) = card (storedNumbers d)"
  by (simp add: fmsize_def storedNumbers_def fcard.rep_eq fmdom'_alt_def card_image [OF unat_inj])

lemma storedNumbers_finite [simp]: "finite (storedNumbers d)"
  by (simp add: storedNumbers_def)

lemma stored_iff: "unat n \<in> storedNumbers d \<longleftrightarrow> fmlookup (blockHashes d) n \<noteq> None"
  using inj_image_mem_iff [OF unat_inj, of n "fmdom' (blockHashes d)"]
  by (auto simp: storedNumbers_def fmlookup_dom'_iff)

lemma storedNumbers_rollback: "storedNumbers (rollback n d) = {k \<in> storedNumbers d. k < unat n}"
  by (auto simp: storedNumbers_def fmlookup_dom'_iff rollback_def word_le_nat_alt)

text \<open>Recording, with the pruning written out over the numbers.\<close>

lemma storedNumbers_record:
  "storedNumbers (recordBlock h d) =
     (let ns = insert (unat (h_number h)) (storedNumbers d) in
      if maxBlocks d < int (card ns) then {k \<in> ns. unat (h_number h - word_of_int (maxBlocks d)) < k} else ns)"
proof -
  define hs where "hs = fmupd (h_number h) (h_hash h) (blockHashes d)"
  define ns where "ns = insert (unat (h_number h)) (storedNumbers d)"
  define x where "x = h_number h - word_of_int (maxBlocks d)"
  have ns: "unat ` fmdom' hs = ns" by (simp add: hs_def ns_def storedNumbers_def)
  have "fmsize hs = card ns"
    using fmsize_stored [of "d\<lparr>blockHashes := hs\<rparr>"] ns by (simp add: storedNumbers_def)
  then have rec: "recordBlock h d = (if maxBlocks d < int (card ns)
      then d\<lparr>blockHashes := fmfilter (\<lambda>num. \<not> num \<le> x) hs\<rparr> else d\<lparr>blockHashes := hs\<rparr>)"
    unfolding recordBlock_def Let_def hs_def [symmetric] x_def [symmetric] by simp
  have "unat ` fmdom' (fmfilter (\<lambda>num. \<not> num \<le> x) hs) = {k \<in> unat ` fmdom' hs. unat x < k}"
    by (auto simp: fmlookup_dom'_iff word_le_nat_alt)
  then have "storedNumbers (recordBlock h d) = (if maxBlocks d < int (card ns) then {k \<in> ns. unat x < k} else ns)"
    unfolding rec using ns by (simp add: storedNumbers_def)
  then show ?thesis by (simp add: Let_def ns_def x_def)
qed

section \<open>The window of recorded blocks\<close>

text \<open>A header in order: its height is known, or is above every recorded one.\<close>

definition in_order :: "blockHeader \<Rightarrow> detector \<Rightarrow> bool" where
  "in_order h d \<longleftrightarrow> unat (h_number h) \<in> storedNumbers d \<or> (\<forall>k\<in>storedNumbers d. k < unat (h_number h))"

definition window_ok :: "detector \<Rightarrow> bool" where
  "window_ok d \<longleftrightarrow> 0 < maxBlocks d \<and> maxBlocks d < 2 ^ 63 \<and> int (card (storedNumbers d)) \<le> maxBlocks d"

lemma window_ok_new: "0 < m \<Longrightarrow> m < 2 ^ 63 \<Longrightarrow> window_ok (newDetector m)"
  by (simp add: window_ok_def newDetector_def storedNumbers_def)

lemma card_below: "(\<forall>k\<in>A. k \<le> n) \<Longrightarrow> card A \<le> Suc (n :: nat)"
proof -
  assume "\<forall>k\<in>A. k \<le> n"
  then have "A \<subseteq> {..n}" by auto
  then have "card A \<le> card {..n}" by (intro card_mono) simp_all
  then show ?thesis by simp
qed

text \<open>The subtraction of \<open>RecordBlock\<close> does not wrap when no higher block is recorded.\<close>

lemma oldest_no_wrap:
  assumes "0 \<le> m" and "m \<le> int (unat n)"
  shows "unat (n - word_of_int m :: u64) = unat n - nat m"
proof -
  have "word_of_int m = (word_of_nat (nat m) :: u64)" using assms(1) by simp
  moreover have "nat m \<le> unat n" using assms by linarith
  then have "nat m < 2 ^ 64" using unsigned_less [of n, where ?'a = nat] by simp
  then have "unat (word_of_nat (nat m) :: u64) = nat m" by (simp add: unat_of_nat)
  ultimately have u: "unat (word_of_int m :: u64) = nat m" by simp
  then have "(word_of_int m :: u64) \<le> n" using \<open>nat m \<le> unat n\<close> by (simp only: word_le_nat_alt)
  then show ?thesis by (simp only: unat_sub u)
qed

lemma record_window:
  assumes "window_ok d" and "in_order h d"
  shows "window_ok (recordBlock h d) \<and> fmlookup (blockHashes (recordBlock h d)) (h_number h) = Some (h_hash h)"
proof -
  let ?n = "unat (h_number h)" and ?m = "maxBlocks d"
  define ns where "ns = insert ?n (storedNumbers d)"
  have m: "0 < ?m" "?m < 2 ^ 63" "int (card (storedNumbers d)) \<le> ?m" using assms(1) by (simp_all add: window_ok_def)
  show ?thesis
  proof (cases "?m < int (card ns)")
    case False
    then have "storedNumbers (recordBlock h d) = ns" by (simp add: storedNumbers_record ns_def)
    moreover have "\<not> ?m < int (fmsize (fmupd (h_number h) (h_hash h) (blockHashes d)))"
      using False fmsize_stored [of "d\<lparr>blockHashes := fmupd (h_number h) (h_hash h) (blockHashes d)\<rparr>"]
      by (simp add: storedNumbers_def ns_def)
    ultimately show ?thesis using False m by (simp add: window_ok_def recordBlock_def)
  next
    case True
    with m(3) have "?n \<notin> storedNumbers d" by (auto simp: ns_def insert_absorb)
    with assms(2) have "\<forall>k\<in>storedNumbers d. k < ?n" by (simp add: in_order_def)
    then have le: "\<forall>k\<in>ns. k \<le> ?n" by (auto simp: ns_def)
    then have "?m \<le> int ?n" using True card_below [OF le] by linarith
    then have old: "unat (h_number h - word_of_int ?m) = ?n - nat ?m" using m by (intro oldest_no_wrap) simp_all
    then have st: "storedNumbers (recordBlock h d) = {k \<in> ns. ?n - nat ?m < k}"
      using True by (simp add: storedNumbers_record flip: ns_def)
    then have "storedNumbers (recordBlock h d) \<subseteq> {?n - nat ?m <.. ?n}" using le by auto
    then have "card (storedNumbers (recordBlock h d)) \<le> card {?n - nat ?m <.. ?n}" by (intro card_mono) simp_all
    then have "window_ok (recordBlock h d)" using m by (simp add: window_ok_def)
    moreover have "\<not> h_number h \<le> h_number h - word_of_int ?m"
      unfolding word_le_nat_alt old using m(1) \<open>?m \<le> int ?n\<close> by linarith
    then have "fmlookup (blockHashes (recordBlock h d)) (h_number h) = Some (h_hash h)"
      by (simp add: recordBlock_def Let_def)
    ultimately show ?thesis by blast
  qed
qed

text \<open>A detected fork is at the height of the header or at its parent's.\<close>

lemma detectReorg_cases:
  "detectReorg h d = (f, True) \<longleftrightarrow>
     (f = h_number h \<and> (\<exists>x. fmlookup (blockHashes d) (h_number h) = Some x \<and> x \<noteq> h_hash h))
     \<or> (f = h_number h - 1 \<and> fmlookup (blockHashes d) (h_number h) = None
         \<and> (\<exists>x. fmlookup (blockHashes d) (h_number h - 1) = Some x \<and> x \<noteq> h_parentHash h))"
  by (auto simp: detectReorg_def Let_def split: option.split)

lemma detectReorg_bool: "\<exists>f b. detectReorg h d = (f, b)"
  by (cases "detectReorg h d") simp

lemma step_keeps_order:
  assumes "in_order h d"
  shows "in_order h (case detectReorg h d of (fork, isReorg) \<Rightarrow> if isReorg then rollback fork d else d)"
proof (cases "snd (detectReorg h d)")
  case False
  then obtain f where "detectReorg h d = (f, False)" by (cases "detectReorg h d") simp
  with assms show ?thesis by simp
next
  case True
  then obtain f where f: "detectReorg h d = (f, True)" by (cases "detectReorg h d") simp
  have "\<forall>k\<in>storedNumbers (rollback f d). k < unat (h_number h)"
  proof -
    from f consider "f = h_number h" | "f = h_number h - 1" "unat (h_number h) \<notin> storedNumbers d"
      unfolding detectReorg_cases stored_iff by auto
    then show ?thesis
    proof cases
      case 1
      then show ?thesis by (simp add: storedNumbers_rollback)
    next
      case 2
      with assms show ?thesis by (auto simp: in_order_def storedNumbers_rollback)
    qed
  qed
  with f show ?thesis by (simp add: in_order_def)
qed

lemma rollback_window: "window_ok d \<Longrightarrow> window_ok (rollback n d)"
proof -
  assume ok: "window_ok d"
  have "card (storedNumbers (rollback n d)) \<le> card (storedNumbers d)"
    by (intro card_mono) (auto simp: storedNumbers_rollback)
  with ok show ?thesis by (simp add: window_ok_def)
qed

text \<open>For headers in order the detector never holds more than its limit of blocks, its
  subtraction never wraps, and the block just seen is always among those it remembers, so its
  child and any competing block of its height can be checked.\<close>

theorem detector_window:
  assumes "window_ok d" and "in_order h d"
  shows "window_ok (detectorStep h d)
    \<and> fmlookup (blockHashes (detectorStep h d)) (h_number h) = Some (h_hash h)
    \<and> int (fmsize (blockHashes (detectorStep h d))) \<le> maxBlocks d"
proof -
  let ?d = "case detectReorg h d of (fork, isReorg) \<Rightarrow> if isReorg then rollback fork d else d"
  have "window_ok ?d" using assms(1) by (simp add: rollback_window split: prod.split)
  from record_window [OF this step_keeps_order [OF assms(2)]]
  have r: "window_ok (detectorStep h d) \<and> fmlookup (blockHashes (detectorStep h d)) (h_number h) = Some (h_hash h)"
    by (simp add: detectorStep_def)
  then show ?thesis using fmsize_stored [of "detectorStep h d"] by (simp add: window_ok_def)
qed

definition exampleHeader :: "u64 \<Rightarrow> hash \<Rightarrow> hash \<Rightarrow> blockHeader" where
  "exampleHeader n x parent = \<lparr>h_chainID = 1, h_number = n, h_hash = x, h_parentHash = parent, h_timestamp = 0\<rparr>"

theorem detector_window_witness:
  "window_ok (detectorStep (exampleHeader 5 50 40) (newDetector 2))
    \<and> fmlookup (blockHashes (detectorStep (exampleHeader 5 50 40) (newDetector 2))) 5 = Some 50"
  using detector_window [OF window_ok_new, of 2 "exampleHeader 5 50 40"]
  by (simp add: in_order_def newDetector_def storedNumbers_def exampleHeader_def)

text \<open>Out of order the limit fails. A block far below the recorded ones makes the subtraction wrap
  once the limit is passed, and then everything is forgotten, the block itself included.\<close>

theorem record_underflow:
  assumes "0 \<le> maxBlocks d" and "maxBlocks d = int (fmsize (blockHashes d))" and "int (unat (h_number h)) < maxBlocks d"
    and "maxBlocks d < 2 ^ 63" and "fmlookup (blockHashes d) (h_number h) = None"
    and "\<forall>k\<in>storedNumbers d. k < 2 ^ 63"
  shows "blockHashes (recordBlock h d) = fmempty"
proof -
  let ?m = "maxBlocks d" and ?n = "h_number h"
  have p64: "(2 :: int) ^ 64 = 2 * 2 ^ 63" by simp
  have big: "2 ^ 63 \<le> unat (?n - word_of_int ?m)"
  proof -
    have "uint (?n - word_of_int ?m) = (uint ?n - ?m) mod 2 ^ 64"
      by (simp add: uint_word_ariths uint_word_of_int mod_diff_right_eq)
    also have "(uint ?n - ?m) mod 2 ^ 64 = uint ?n - ?m + 2 ^ 64"
    proof -
      have "0 \<le> uint ?n - ?m + 2 ^ 64 \<and> uint ?n - ?m + 2 ^ 64 < 2 ^ 64"
        using assms(3,4) by (simp, use uint_ge_0 [of ?n] in linarith)
      then have "(uint ?n - ?m + 2 ^ 64) mod 2 ^ 64 = uint ?n - ?m + 2 ^ 64" by (intro mod_pos_pos_trivial) simp_all
      then show ?thesis by (rule trans [OF mod_add_self2 [symmetric]])
    qed
    finally have "uint (?n - word_of_int ?m) = uint ?n - ?m + 2 ^ 64" .
    then have "2 ^ 63 \<le> uint (?n - word_of_int ?m)" using assms(4) uint_ge_0 [of ?n] p64 by linarith
    then have "int (2 ^ 63) \<le> int (unat (?n - word_of_int ?m))" by simp
    then show ?thesis by (simp only: of_nat_le_iff)
  qed
  have "int (unat ?n) < int (2 ^ 63)" using assms(3,4) by simp
  then have n63: "unat ?n < 2 ^ 63" by (simp only: of_nat_less_iff)
  have "card (insert (unat ?n) (storedNumbers d)) = Suc (card (storedNumbers d))"
    using assms(5) by (intro card_insert_disjoint) (simp_all add: stored_iff)
  then have "storedNumbers (recordBlock h d) = {k \<in> insert (unat ?n) (storedNumbers d). unat (?n - word_of_int ?m) < k}"
    using assms(2) fmsize_stored [of d] by (simp add: storedNumbers_record)
  also have "\<dots> = {}" using big n63 assms(6) by (auto dest!: bspec)
  finally have "fmdom' (blockHashes (recordBlock h d)) = {}" by (simp add: storedNumbers_def)
  then show ?thesis by (intro fmap_ext) (metis empty_iff fmdom'_notD fmempty_lookup)
qed

theorem record_underflow_witness:
  "blockHashes (recordBlock (exampleHeader 1 10 0) \<lparr>blockHashes = fmupd 100 1 (fmupd 101 2 fmempty), maxBlocks = 2\<rparr>) = fmempty"
  by (rule record_underflow)
    (simp_all add: exampleHeader_def fmsize_upd storedNumbers_def)

section \<open>Following a chain\<close>

text \<open>A chain of headers from height \<open>s\<close> on, each naming its predecessor's hash as parent.\<close>

definition linked_chain :: "(nat \<Rightarrow> blockHeader) \<Rightarrow> nat \<Rightarrow> nat \<Rightarrow> bool" where
  "linked_chain hdr s len \<longleftrightarrow> (\<forall>i<len. unat (h_number (hdr i)) = s + i)
     \<and> (\<forall>i. Suc i < len \<longrightarrow> h_parentHash (hdr (Suc i)) = h_hash (hdr i))"

abbreviation follow :: "(nat \<Rightarrow> blockHeader) \<Rightarrow> nat \<Rightarrow> int \<Rightarrow> detector" where
  "follow hdr i m \<equiv> fold detectorStep (map hdr [0..<i]) (newDetector m)"

text \<open>What the detector remembers after the first \<open>i\<close> headers: the last \<open>m\<close> of them.\<close>

definition remembers :: "(nat \<Rightarrow> blockHeader) \<Rightarrow> nat \<Rightarrow> int \<Rightarrow> nat \<Rightarrow> detector \<Rightarrow> bool" where
  "remembers hdr s m i d \<longleftrightarrow> maxBlocks d = m \<and> (\<forall>k. fmlookup (blockHashes d) k =
     (if s + (i - nat m) \<le> unat k \<and> unat k < s + i then Some (h_hash (hdr (unat k - s))) else None))"

lemma recordBlock_lookup:
  "fmlookup (blockHashes (recordBlock h d)) k =
     (if maxBlocks d < int (card (insert (unat (h_number h)) (storedNumbers d)))
         \<and> k \<le> h_number h - word_of_int (maxBlocks d) then None
      else if k = h_number h then Some (h_hash h) else fmlookup (blockHashes d) k)"
proof -
  have "fmsize (fmupd (h_number h) (h_hash h) (blockHashes d)) = card (insert (unat (h_number h)) (storedNumbers d))"
    using fmsize_stored [of "d\<lparr>blockHashes := fmupd (h_number h) (h_hash h) (blockHashes d)\<rparr>"]
    by (simp add: storedNumbers_def)
  then show ?thesis by (simp add: recordBlock_def Let_def)
qed

lemma remembers_stored:
  assumes "linked_chain hdr s len" and "i \<le> len" and "remembers hdr s m i d"
  shows "storedNumbers d = {s + (i - nat m) ..< s + i}"
proof -
  have "k \<in> storedNumbers d" if k: "s + (i - nat m) \<le> k" "k < s + i" for k
  proof -
    have "unat (h_number (hdr (k - s))) = k" using assms(1,2) k by (simp add: linked_chain_def)
    with assms(3) k have "fmlookup (blockHashes d) (h_number (hdr (k - s))) \<noteq> None" by (simp add: remembers_def)
    then show ?thesis using \<open>unat _ = k\<close> unfolding stored_iff [symmetric] by simp
  qed
  moreover have "s + (i - nat m) \<le> k \<and> k < s + i" if "k \<in> storedNumbers d" for k
    using that assms(3) by (auto simp: storedNumbers_def fmlookup_dom'_iff remembers_def split: if_splits)
  ultimately show ?thesis by auto
qed

lemma remembers_parent:
  assumes "linked_chain hdr s len" and "i < len" and "0 < m" and "remembers hdr s m i d"
  shows "detectReorg (hdr i) d = (0, False)"
proof -
  have n: "unat (h_number (hdr i)) = s + i" using assms(1,2) by (simp add: linked_chain_def)
  have "fmlookup (blockHashes d) (h_number (hdr i)) = None" using assms(4) n by (simp add: remembers_def)
  moreover have "fmlookup (blockHashes d) (h_number (hdr i) - 1) \<in> {None, Some (h_parentHash (hdr i))}"
  proof (cases i)
    case 0
    with assms(4) show ?thesis by (auto simp: remembers_def)
  next
    case (Suc j)
    then have "h_number (hdr i) \<noteq> 0" using n by auto
    then have p: "unat (h_number (hdr i) - 1) = s + j" using n Suc by (simp add: unat_minus_one)
    have "h_parentHash (hdr i) = h_hash (hdr j)" using assms(1,2) Suc by (simp add: linked_chain_def)
    moreover have "fmlookup (blockHashes d) (h_number (hdr i) - 1) \<in> {None, Some (h_hash (hdr j))}"
      using assms(4) p by (simp add: remembers_def)
    ultimately show ?thesis by simp
  qed
  ultimately show ?thesis by (auto simp: detectReorg_def Let_def)
qed

lemma remembers_step:
  assumes c: "linked_chain hdr s len" and i: "i < len" and m: "0 < m" "m < 2 ^ 63" and d: "remembers hdr s m i d"
  shows "remembers hdr s m (Suc i) (detectorStep (hdr i) d)"
proof -
  have n: "unat (h_number (hdr i)) = s + i" using c i by (simp add: linked_chain_def)
  have step: "detectorStep (hdr i) d = recordBlock (hdr i) d"
    using remembers_parent [OF c i m(1) d] by (simp add: detectorStep_def)
  have mb: "maxBlocks d = m" using d by (simp add: remembers_def)
  have "card (insert (s + i) (storedNumbers d)) = Suc (i - (i - nat m))"
    using remembers_stored [OF c _ d] i by simp
  then have prune: "m < int (card (insert (s + i) (storedNumbers d))) \<longleftrightarrow> nat m \<le> i" using m by auto
  have old: "k \<le> h_number (hdr i) - word_of_int m \<longleftrightarrow> unat k \<le> s + i - nat m" if "nat m \<le> i" for k
    using that m n oldest_no_wrap [of m "h_number (hdr i)"] by (simp add: word_le_nat_alt)
  have eq: "k = h_number (hdr i) \<longleftrightarrow> unat k = s + i" for k
    using n by (simp add: word_unat_eq_iff)
  have "fmlookup (blockHashes (recordBlock (hdr i) d)) k =
      (if s + (Suc i - nat m) \<le> unat k \<and> unat k < s + Suc i then Some (h_hash (hdr (unat k - s))) else None)" for k
  proof -
    have "fmlookup (blockHashes (recordBlock (hdr i) d)) k =
       (if nat m \<le> i \<and> unat k \<le> s + i - nat m then None
        else if unat k = s + i then Some (h_hash (hdr i))
        else if s + (i - nat m) \<le> unat k \<and> unat k < s + i then Some (h_hash (hdr (unat k - s))) else None)"
      unfolding recordBlock_lookup mb n prune eq using d old by (auto simp: remembers_def)
    then show ?thesis using m by auto
  qed
  then show ?thesis using mb by (simp add: step remembers_def)
qed

lemma follow_remembers:
  "linked_chain hdr s len \<Longrightarrow> 0 < m \<Longrightarrow> m < 2 ^ 63 \<Longrightarrow> i \<le> len \<Longrightarrow> remembers hdr s m i (follow hdr i m)"
proof (induction i)
  case 0
  then show ?case by (simp add: remembers_def newDetector_def)
next
  case (Suc i)
  then show ?case using remembers_step [of hdr s len i m] by simp
qed

lemma detectReorg_next:
  assumes "fmlookup (blockHashes d) (h_number h) = None" and "fmlookup (blockHashes d) (h_number h - 1) = Some x"
  shows "detectReorg h d = (if h_parentHash h = x then (0, False) else (h_number h - 1, True))"
  using assms by (simp add: detectReorg_def Let_def)

text \<open>Below everything that is recorded the detector is silent, block zero included, whose parent's
  number wraps.\<close>

lemma detectReorg_below:
  assumes "\<And>k. fmlookup (blockHashes d) k \<noteq> None \<Longrightarrow> lo \<le> unat k \<and> unat k < hi"
    and "unat (h_number h) < lo" and "hi < 2 ^ 64"
  shows "\<not> snd (detectReorg h d)"
proof -
  have "fmlookup (blockHashes d) (h_number h - 1) = None"
  proof (cases "h_number h = 0")
    case True
    then have "unat (h_number h - 1) = 2 ^ 64 - 1"
      by (simp add: unsigned_minus_1_eq_mask mask_eq_exp_minus_1)
    then show ?thesis using assms(1) [of "h_number h - 1"] assms(3) by fastforce
  next
    case False
    then show ?thesis using assms(1) [of "h_number h - 1"] assms(2) by (fastforce simp: unat_minus_one)
  qed
  moreover have "fmlookup (blockHashes d) (h_number h) = None" using assms(1) [of "h_number h"] assms(2) by fastforce
  ultimately show ?thesis by (simp add: detectReorg_def Let_def)
qed

text \<open>C13: fed a linked chain of consecutive blocks, the detector never reports a reorganisation,
  and afterwards it answers exactly: a competing block at one of the last \<open>m\<close> heights is
  reported at its height if and only if its hash differs, the next block is reported at its
  parent's height if and only if it does not name the last block as parent, and a competing
  block below the window is never reported.\<close>

theorem detector_tracks_chain:
  assumes "linked_chain hdr s len" and "0 < m" and "m < 2 ^ 63" and "0 < len" and "s + len < 2 ^ 64"
    and "d = follow hdr len m"
  shows "(\<forall>i<len. detectReorg (hdr i) (follow hdr i m) = (0, False))
    \<and> (\<forall>i<len. len \<le> i + nat m \<longrightarrow> (\<forall>h. h_number h = h_number (hdr i) \<longrightarrow>
         detectReorg h d = (if h_hash h = h_hash (hdr i) then (0, False) else (h_number h, True))))
    \<and> (\<forall>h. h_number h = h_number (hdr (len - 1)) + 1 \<longrightarrow>
         detectReorg h d = (if h_parentHash h = h_hash (hdr (len - 1)) then (0, False) else (h_number (hdr (len - 1)), True)))
    \<and> (\<forall>i. i + nat m < len \<longrightarrow> (\<forall>h. h_number h = h_number (hdr i) \<longrightarrow> \<not> snd (detectReorg h d)))"
proof -
  have r: "remembers hdr s m i (follow hdr i m)" if "i \<le> len" for i
    using follow_remembers [OF assms(1-3) that] .
  have num: "unat (h_number (hdr i)) = s + i" if "i < len" for i
    using assms(1) that by (simp add: linked_chain_def)
  have look: "fmlookup (blockHashes d) k =
     (if s + (len - nat m) \<le> unat k \<and> unat k < s + len then Some (h_hash (hdr (unat k - s))) else None)" for k
    using r [of len] by (simp add: remembers_def assms(6))
  have "detectReorg (hdr i) (follow hdr i m) = (0, False)" if "i < len" for i
    using that assms(1,2) r [of i] by (intro remembers_parent) simp_all
  moreover have "detectReorg h d = (if h_hash h = h_hash (hdr i) then (0, False) else (h_number h, True))"
    if "i < len" "len \<le> i + nat m" "h_number h = h_number (hdr i)" for i h
  proof -
    have "fmlookup (blockHashes d) (h_number h) = Some (h_hash (hdr i))"
      using that num [of i] look [of "h_number h"] by auto
    then show ?thesis by (auto simp: detectReorg_def)
  qed
  moreover have "detectReorg h d = (if h_parentHash h = h_hash (hdr (len - 1)) then (0, False)
      else (h_number (hdr (len - 1)), True))"
    if that: "s + len < 2 ^ 64" "h_number h = h_number (hdr (len - 1)) + 1" for h
  proof -
    have last: "unat (h_number (hdr (len - 1))) = s + len - 1" using num [of "len - 1"] assms(4) by simp
    have "unat (h_number h) = s + len"
      unfolding that(2) using last that(1) assms(4) by (simp add: unat_word_ariths)
    then have "fmlookup (blockHashes d) (h_number h) = None" using look [of "h_number h"] by simp
    moreover have "fmlookup (blockHashes d) (h_number h - 1) = Some (h_hash (hdr (len - 1)))"
      using look [of "h_number h - 1"] last assms(2,4) by (auto simp: that(2))
    ultimately show ?thesis using detectReorg_next [of d h] by (simp add: that(2))
  qed
  moreover have "\<not> snd (detectReorg h d)"
    if "i + nat m < len" "h_number h = h_number (hdr i)" for i h
    by (rule detectReorg_below [of d "s + (len - nat m)" "s + len"])
      (use that num [of i] look assms(5) in \<open>auto split: if_splits\<close>)
  ultimately show ?thesis using assms(5) by blast
qed

definition exampleChain :: "nat \<Rightarrow> blockHeader" where
  "exampleChain i = exampleHeader (100 + of_nat i) (1000 + of_nat i) (999 + of_nat i)"

theorem detector_tracks_chain_witness:
  "detectReorg (exampleHeader 103 7 6) (follow exampleChain 3 2) = (102, True)"
proof -
  have c: "linked_chain exampleChain 100 3"
    by (auto simp: linked_chain_def exampleChain_def exampleHeader_def numeral_3_eq_3 less_Suc_eq)
  from detector_tracks_chain [OF c, of 2 "follow exampleChain 3 2"] show ?thesis
    by (simp add: exampleChain_def exampleHeader_def)
qed



end
