(* ===== verification/EventParser.thy ===== *)
theory EventParser
  imports ChainTypes GoBytes GoStrings
begin

text \<open>
  \<open>internal/indexer/parser/event_parser.go\<close>: decoding of raw EVM logs.

  What it calls of go-ethereum is the parameter \<open>evmLib\<close>. The values the code puts into the
  event's \<open>Data\<close> map are all strings.
\<close>

section \<open>What the code calls of go-ethereum\<close>

record evmLib =
  keccak256Hash :: "byte list \<Rightarrow> hash"
  hashHex :: "hash \<Rightarrow> string"
  hexToAddress :: "string \<Rightarrow> address"
  addressHex :: "address \<Rightarrow> string"

text \<open>\<open>HexToAddress\<close> of a 32 byte hexadecimal string keeps its last 20 bytes.\<close>

definition evm_ok :: "evmLib \<Rightarrow> bool" where
  "evm_ok lib \<longleftrightarrow> (\<forall>h. hexToAddress lib (hashHex lib h) = ucast h)"

record evmLog =
  lg_address :: address
  lg_topics :: "hash list"
  lg_data :: "byte list"
  lg_blockNumber :: u64
  lg_txHash :: hash
  lg_index :: u64

section \<open>The parser\<close>

definition ErrUnknownEvent :: err where
  "ErrUnknownEvent = ''unknown event signature''"

definition eventDefs :: "(eventType \<times> string) list" where
  "eventDefs = [
     (EventDeposit, ''Deposit(address,address,uint256)''),
     (EventWithdraw, ''Withdraw(address,address,uint256)''),
     (EventBorrow, ''Borrow(address,address,uint256)''),
     (EventRepay, ''Repay(address,address,uint256)''),
     (EventLiquidation, ''LiquidationCall(address,address,address,uint256,uint256)''),
     (EventReserveDataUpdated, ''ReserveDataUpdated(address,uint256,uint256,uint256,uint256)''),
     (EventAccrueInterest, ''AccrueInterest(uint256,uint256,uint256)'')]"

record eventParser =
  sigToType :: "(hash, eventType) fmap"
  typeToSig :: "(eventType, hash) fmap"

text \<open>The loop over \<open>eventDefs\<close>, in the order Go's map iteration takes.\<close>

fun registerEvents :: "evmLib \<Rightarrow> (eventType \<times> string) list \<Rightarrow> eventParser \<Rightarrow> eventParser" where
  "registerEvents lib [] p = p"
| "registerEvents lib ((evtType, sigStr) # rest) p =
     (let sig = keccak256Hash lib (bytesOf sigStr) in
      registerEvents lib rest \<lparr>sigToType = fmupd sig evtType (sigToType p),
        typeToSig = fmupd evtType sig (typeToSig p)\<rparr>)"

definition newEventParser :: "evmLib \<Rightarrow> (eventType \<times> string) list \<Rightarrow> eventParser" where
  "newEventParser lib order = registerEvents lib order \<lparr>sigToType = fmempty, typeToSig = fmempty\<rparr>"

text \<open>A missing key of a Go map reads as the zero hash.\<close>

definition eventSignature :: "eventParser \<Rightarrow> eventType \<Rightarrow> hash" where
  "eventSignature p t = (case fmlookup (typeToSig p) t of None \<Rightarrow> 0 | Some sig \<Rightarrow> sig)"

text \<open>The list has the keys in the order of the map iteration; as a set it is this.\<close>

definition allSignatures :: "eventParser \<Rightarrow> hash set" where
  "allSignatures p = fmdom' (sigToType p)"

definition expectedTopics :: "nat \<Rightarrow> evmLog \<Rightarrow> err" where
  "expectedTopics n lg = ''expected '' @ show_nat n @ '' topics, got '' @ show_nat (length (lg_topics lg))"

text \<open>\<open>new(big.Int).SetBytes(log.Data[lo:hi])\<close>, for slices within the data.\<close>

definition dataInt :: "evmLog \<Rightarrow> nat \<Rightarrow> nat \<Rightarrow> int" where
  "dataInt lg lo hi = int (be_val (take (hi - lo) (drop lo (lg_data lg))))"

definition topicAddress :: "evmLib \<Rightarrow> evmLog \<Rightarrow> nat \<Rightarrow> address" where
  "topicAddress lib lg i = hexToAddress lib (hashHex lib (lg_topics lg ! i))"

definition parseSimpleEvent :: "evmLib \<Rightarrow> evmLog \<Rightarrow> chainEvent \<Rightarrow> err + chainEvent" where
  "parseSimpleEvent lib lg event =
     (if length (lg_topics lg) < 3 then Inl (expectedTopics 3 lg)
      else (let event1 = event\<lparr>e_marketAddress := topicAddress lib lg 1,
                               e_userAddress := topicAddress lib lg 2\<rparr> in
            Inr (if 32 \<le> length (lg_data lg) then event1\<lparr>e_amount := Some (dataInt lg 0 32)\<rparr> else event1)))"

definition putData :: "string \<Rightarrow> string \<Rightarrow> chainEvent \<Rightarrow> chainEvent" where
  "putData k v event = event\<lparr>e_data := fmupd k v (e_data event)\<rparr>"

definition parseLiquidationEvent :: "evmLib \<Rightarrow> evmLog \<Rightarrow> chainEvent \<Rightarrow> err + chainEvent" where
  "parseLiquidationEvent lib lg event =
     (if length (lg_topics lg) < 4 then Inl (expectedTopics 4 lg)
      else (let event1 = putData ''collateral_asset'' (addressHex lib (topicAddress lib lg 1)) event;
                event2 = putData ''debt_asset'' (addressHex lib (topicAddress lib lg 2)) event1;
                event3 = event2\<lparr>e_userAddress := topicAddress lib lg 3\<rparr>
            in Inr (if 64 \<le> length (lg_data lg)
                    then putData ''collateral_seized'' (show_int (dataInt lg 32 64))
                           (event3\<lparr>e_amount := Some (dataInt lg 0 32)\<rparr>)
                    else event3)))"

definition parseReserveDataUpdated :: "evmLib \<Rightarrow> evmLog \<Rightarrow> chainEvent \<Rightarrow> err + chainEvent" where
  "parseReserveDataUpdated lib lg event =
     (if length (lg_topics lg) < 2 then Inl (expectedTopics 2 lg)
      else (let event1 = event\<lparr>e_marketAddress := topicAddress lib lg 1\<rparr>
            in Inr (if 128 \<le> length (lg_data lg)
                    then putData ''liquidity_index'' (show_int (dataInt lg 96 128))
                          (putData ''variable_borrow_rate'' (show_int (dataInt lg 64 96))
                            (putData ''stable_borrow_rate'' (show_int (dataInt lg 32 64))
                              (putData ''liquidity_rate'' (show_int (dataInt lg 0 32)) event1)))
                    else event1)))"

definition parseAccrueInterest :: "evmLib \<Rightarrow> evmLog \<Rightarrow> chainEvent \<Rightarrow> err + chainEvent" where
  "parseAccrueInterest lib lg event =
     Inr (if 96 \<le> length (lg_data lg)
          then putData ''borrow_index'' (show_int (dataInt lg 64 96))
                (putData ''interest_accumulated'' (show_int (dataInt lg 32 64))
                  (putData ''cash_prior'' (show_int (dataInt lg 0 32)) event))
          else event)"

definition wrapErr :: "string \<Rightarrow> err + 'a \<Rightarrow> err + 'a" where
  "wrapErr prefix r = (case r of Inl e \<Rightarrow> Inl (prefix @ '': '' @ e) | Inr x \<Rightarrow> Inr x)"

definition parseLog :: "evmLib \<Rightarrow> eventParser \<Rightarrow> i64 \<Rightarrow> chainId \<Rightarrow> evmLog \<Rightarrow> err + chainEvent" where
  "parseLog lib p now cid lg =
     (case lg_topics lg of
        [] \<Rightarrow> Inl ErrUnknownEvent
      | topic0 # _ \<Rightarrow>
          (case fmlookup (sigToType p) topic0 of
             None \<Rightarrow> Inl ErrUnknownEvent
           | Some evtType \<Rightarrow>
               (let event = \<lparr>e_chainID = cid, e_blockNumber = lg_blockNumber lg, e_txHash = lg_txHash lg,
                      e_logIndex = lg_index lg, e_eventType = evtType, e_contractAddress = lg_address lg,
                      e_userAddress = 0, e_marketAddress = 0, e_amount = None, e_data = fmempty,
                      e_timestamp = now\<rparr>
                in (case evtType of
                      EventLiquidation \<Rightarrow> wrapErr ''parse liquidation event'' (parseLiquidationEvent lib lg event)
                    | EventReserveDataUpdated \<Rightarrow> wrapErr ''parse reserve data updated'' (parseReserveDataUpdated lib lg event)
                    | EventAccrueInterest \<Rightarrow> wrapErr ''parse accrue interest'' (parseAccrueInterest lib lg event)
                    | _ \<Rightarrow> wrapErr (''parse '' @ eventTypeName evtType @ '' event'') (parseSimpleEvent lib lg event)))))"

section \<open>The signature tables\<close>

lemma registerEvents_lookup:
  "distinct (map (keccak256Hash lib \<circ> bytesOf \<circ> snd) ds) \<Longrightarrow> distinct (map fst ds) \<Longrightarrow>
     fmlookup (sigToType (registerEvents lib ds p)) h =
       (case find (\<lambda>d. keccak256Hash lib (bytesOf (snd d)) = h) ds of
          Some d \<Rightarrow> Some (fst d) | None \<Rightarrow> fmlookup (sigToType p) h)
     \<and> fmlookup (typeToSig (registerEvents lib ds p)) t =
       (case find (\<lambda>d. fst d = t) ds of
          Some d \<Rightarrow> Some (keccak256Hash lib (bytesOf (snd d))) | None \<Rightarrow> fmlookup (typeToSig p) t)"
proof (induction lib ds p rule: registerEvents.induct)
  case (2 lib evtType sigStr rest p)
  let ?k = "\<lambda>d. keccak256Hash lib (bytesOf (snd d))"
  have "find (\<lambda>d. ?k d = keccak256Hash lib (bytesOf sigStr)) rest = None"
    using 2(2) by (force simp: find_None_iff)
  moreover have "find (\<lambda>d. fst d = evtType) rest = None"
    using 2(3) by (force simp: find_None_iff)
  ultimately show ?case using 2 by (auto simp: Let_def split: option.split)
qed simp

text \<open>The seven signatures, none of which collide.\<close>

definition no_collision :: "evmLib \<Rightarrow> bool" where
  "no_collision lib \<longleftrightarrow> inj_on (\<lambda>d. keccak256Hash lib (bytesOf (snd d))) (set eventDefs)"

lemma find_unique:
  assumes "x \<in> set xs" and "P x" and "\<forall>y\<in>set xs. P y \<longrightarrow> y = x"
  shows "find P xs = Some x"
proof (cases "find P xs")
  case None
  with assms(1,2) show ?thesis by (auto simp: find_None_iff)
next
  case (Some y)
  then have "y \<in> set xs" "P y" by (auto simp: find_Some_iff)
  with assms(3) Some show ?thesis by blast
qed

definition eventDef :: "eventType \<Rightarrow> eventType \<times> string" where
  "eventDef t = (t, the (map_of eventDefs t))"

lemma eventDefs_keys: "map fst eventDefs = [EventDeposit, EventWithdraw, EventBorrow, EventRepay, EventLiquidation,
    EventReserveDataUpdated, EventAccrueInterest]"
  by (simp only: eventDefs_def list.map fst_conv)

lemma eventDefs_dom: "dom (map_of eventDefs) = UNIV"
proof -
  have "t \<in> set (map fst eventDefs)" for t by (cases t) (simp_all add: eventDefs_keys del: set_map)
  then show ?thesis by (auto simp: dom_map_of_conv_image_fst)
qed

lemma eventDef_mem: "eventDef t \<in> set eventDefs \<and> fst (eventDef t) = t"
proof -
  obtain s where "map_of eventDefs t = Some s" using eventDefs_dom by blast
  then show ?thesis by (simp add: eventDef_def map_of_SomeD)
qed

lemma eventDef_unique: "d \<in> set eventDefs \<Longrightarrow> d = eventDef (fst d)"
proof -
  have "distinct (map fst eventDefs)" by (simp add: eventDefs_keys)
  then show "d \<in> set eventDefs \<Longrightarrow> d = eventDef (fst d)"
    by (cases d) (simp add: eventDef_def)
qed

lemma parser_tables:
  assumes "no_collision lib" and "set order = set eventDefs" and "distinct order"
  shows "fmlookup (sigToType (newEventParser lib order)) (keccak256Hash lib (bytesOf (snd (eventDef t)))) = Some t
    \<and> fmlookup (typeToSig (newEventParser lib order)) t = Some (keccak256Hash lib (bytesOf (snd (eventDef t))))
    \<and> (fmlookup (sigToType (newEventParser lib order)) h \<noteq> None \<longleftrightarrow>
         (\<exists>t. h = keccak256Hash lib (bytesOf (snd (eventDef t)))))"
proof -
  let ?k = "\<lambda>d. keccak256Hash lib (bytesOf (snd d))"
  have inj: "inj_on ?k (set order)" using assms(1,2) by (simp add: no_collision_def)
  have d1: "distinct (map (keccak256Hash lib \<circ> bytesOf \<circ> snd) order)"
    using inj assms(3) by (simp add: distinct_map comp_def)
  have "inj_on fst (set order)" unfolding assms(2) by (metis eventDef_unique inj_onI)
  then have d2: "distinct (map fst order)" using assms(3) by (simp add: distinct_map)
  note look = registerEvents_lookup [OF d1 d2, of "\<lparr>sigToType = fmempty, typeToSig = fmempty\<rparr>", folded newEventParser_def]
  have mem: "eventDef t \<in> set order" "fst (eventDef t) = t" for t using eventDef_mem assms(2) by auto
  have f1: "find (\<lambda>d. ?k d = ?k (eventDef t)) order = Some (eventDef t)"
    using mem inj by (intro find_unique) (auto dest: inj_onD)
  have f2: "find (\<lambda>d. fst d = t) order = Some (eventDef t)"
    using mem assms(2) by (intro find_unique) (auto dest: eventDef_unique)
  have "(find (\<lambda>d. ?k d = h) order \<noteq> None) = (\<exists>t. h = ?k (eventDef t))"
    using mem assms(2) unfolding find_None_iff by (metis eventDef_unique)
  then show ?thesis using look [of "?k (eventDef t)" t] look [of h t] f1 f2 mem
    by (auto split: option.splits)
qed

text \<open>In whatever order Go iterates over the definitions, if no two of the seven signatures
  collide under the hash, the parser recognises exactly the seven topics, each as the event it
  belongs to, and the filter asks the node for exactly these.\<close>

theorem parser_signatures:
  assumes "no_collision lib" and "set order = set eventDefs" and "distinct order"
  shows "(\<forall>t. fmlookup (sigToType (newEventParser lib order)) (eventSignature (newEventParser lib order) t) = Some t)
    \<and> allSignatures (newEventParser lib order) = range (eventSignature (newEventParser lib order))
    \<and> card (allSignatures (newEventParser lib order)) = 7"
proof -
  let ?p = "newEventParser lib order"
  have sig: "eventSignature ?p t = keccak256Hash lib (bytesOf (snd (eventDef t)))" for t
    using parser_tables [OF assms, of t 0] by (simp add: eventSignature_def)
  have inv: "fmlookup (sigToType ?p) (eventSignature ?p t) = Some t" for t
    using parser_tables [OF assms, of t 0] by (simp add: sig)
  have all: "allSignatures ?p = range (eventSignature ?p)"
  proof (rule set_eqI)
    fix h
    have "h \<in> allSignatures ?p \<longleftrightarrow> fmlookup (sigToType ?p) h \<noteq> None"
      by (simp add: allSignatures_def fmlookup_dom'_iff)
    also have "\<dots> \<longleftrightarrow> (\<exists>t. h = eventSignature ?p t)"
      using parser_tables [OF assms, of EventDeposit h] by (simp add: sig)
    finally show "h \<in> allSignatures ?p \<longleftrightarrow> h \<in> range (eventSignature ?p)" by blast
  qed
  have "inj (eventSignature ?p)" by (rule injI) (metis inv option.inject)
  then have "card (range (eventSignature ?p)) = card (UNIV :: eventType set)" by (rule card_image)
  moreover have u: "(UNIV :: eventType set) = {EventDeposit, EventWithdraw, EventBorrow, EventRepay, EventLiquidation,
      EventReserveDataUpdated, EventAccrueInterest}" using eventType.exhaust by blast
  have "card (UNIV :: eventType set) = 7" unfolding u by simp
  ultimately have "card (range (eventSignature ?p)) = 7" by simp
  with inv all show ?thesis by metis
qed

text \<open>A library for examples. Its hash is the length of the text, which differs for the seven
  signatures; a topic prints as its decimal numeral.\<close>

definition exampleEvm :: evmLib where
  "exampleEvm = \<lparr>keccak256Hash = (\<lambda>bs. word_of_nat (length bs)),
     hashHex = (\<lambda>h. show_nat (unat h)),
     hexToAddress = (\<lambda>s. case read_digits 0 s of Some n \<Rightarrow> word_of_nat n | None \<Rightarrow> 0),
     addressHex = (\<lambda>a. show_nat (unat a))\<rparr>"

lemma exampleEvm_ok [simp]: "evm_ok exampleEvm"
  by (simp add: evm_ok_def exampleEvm_def read_show_nat)

lemma exampleEvm_no_collision [simp]: "no_collision exampleEvm"
proof -
  have "distinct (map (\<lambda>d. keccak256Hash exampleEvm (bytesOf (snd d))) eventDefs)"
    by code_simp
  then show ?thesis by (simp add: no_collision_def distinct_map)
qed

lemma eventDefs_distinct [simp]: "distinct eventDefs"
  using eventDefs_keys distinct_map [of fst eventDefs] by simp

theorem parser_signatures_witness:
  "card (allSignatures (newEventParser exampleEvm eventDefs)) = 7"
  using parser_signatures [of exampleEvm eventDefs, OF exampleEvm_no_collision refl eventDefs_distinct] by blast

section \<open>What a log decodes to\<close>

text \<open>A number as one 32 byte word of log data.\<close>

lemma dataInt_0: "n < 2 ^ 256 \<Longrightarrow> lg_data lg = abiWord n @ rest \<Longrightarrow> dataInt lg 0 32 = int n"
  by (simp add: dataInt_def abiWord_length)

lemma dataInt_32:
  "n < 2 ^ 256 \<Longrightarrow> m < 2 ^ 256 \<Longrightarrow> lg_data lg = abiWord n @ abiWord m @ rest \<Longrightarrow> dataInt lg 32 64 = int m"
  by (simp add: dataInt_def abiWord_length)

lemma topicAddress_ucast: "evm_ok lib \<Longrightarrow> lg_topics lg ! i = ucast (a :: address) \<Longrightarrow> topicAddress lib lg i = a"
proof -
  assume "evm_ok lib" "lg_topics lg ! i = ucast (a :: address)"
  then have "topicAddress lib lg i = ucast (ucast a :: hash)" by (simp add: topicAddress_def evm_ok_def)
  also have "\<dots> = a" by (rule ucast_up_ucast_id) (simp add: is_up)
  finally show ?thesis .
qed

definition baseEvent :: "i64 \<Rightarrow> chainId \<Rightarrow> evmLog \<Rightarrow> eventType \<Rightarrow> chainEvent" where
  "baseEvent now cid lg t = \<lparr>e_chainID = cid, e_blockNumber = lg_blockNumber lg, e_txHash = lg_txHash lg,
     e_logIndex = lg_index lg, e_eventType = t, e_contractAddress = lg_address lg, e_userAddress = 0,
     e_marketAddress = 0, e_amount = None, e_data = fmempty, e_timestamp = now\<rparr>"

definition isSimple :: "eventType \<Rightarrow> bool" where
  "isSimple t \<longleftrightarrow> t \<in> {EventDeposit, EventWithdraw, EventBorrow, EventRepay}"

lemma parseLog_known:
  assumes "lg_topics lg = topic0 # topics" and "fmlookup (sigToType p) topic0 = Some t"
  shows "isSimple t \<Longrightarrow> parseLog lib p now cid lg
      = wrapErr (''parse '' @ eventTypeName t @ '' event'') (parseSimpleEvent lib lg (baseEvent now cid lg t))"
    and "t = EventLiquidation \<Longrightarrow> parseLog lib p now cid lg
      = wrapErr ''parse liquidation event'' (parseLiquidationEvent lib lg (baseEvent now cid lg t))"
    and "t = EventReserveDataUpdated \<Longrightarrow> parseLog lib p now cid lg
      = wrapErr ''parse reserve data updated'' (parseReserveDataUpdated lib lg (baseEvent now cid lg t))"
    and "t = EventAccrueInterest \<Longrightarrow> parseLog lib p now cid lg
      = wrapErr ''parse accrue interest'' (parseAccrueInterest lib lg (baseEvent now cid lg t))"
  using assms by (auto simp: parseLog_def isSimple_def Let_def simp flip: baseEvent_def)

lemma parse_simple:
  assumes "evm_ok lib" and "no_collision lib" and "set order = set eventDefs" and "distinct order"
    and "isSimple t" and "amt < 2 ^ 256"
    and "lg_topics lg = eventSignature (newEventParser lib order) t # ucast (market :: address) # ucast (user :: address) # ts"
    and "lg_data lg = abiWord amt @ rest"
  shows "parseLog lib (newEventParser lib order) now cid lg = Inr \<lparr>e_chainID = cid, e_blockNumber = lg_blockNumber lg,
    e_txHash = lg_txHash lg, e_logIndex = lg_index lg, e_eventType = t, e_contractAddress = lg_address lg,
    e_userAddress = user, e_marketAddress = market, e_amount = Some (int amt), e_data = fmempty, e_timestamp = now\<rparr>"
proof -
  have "fmlookup (sigToType (newEventParser lib order)) (eventSignature (newEventParser lib order) t) = Some t"
    using parser_tables [OF assms(2-4), of t 0] by (simp add: eventSignature_def)
  note p = parseLog_known(1) [OF assms(7) this assms(5)]
  have "topicAddress lib lg 1 = market" "topicAddress lib lg 2 = user"
    using assms(7) by (auto intro!: topicAddress_ucast [OF assms(1)])
  then show ?thesis unfolding p
    using assms(6-8) dataInt_0 [OF assms(6,8)] abiWord_length [OF assms(6)]
    by (simp add: parseSimpleEvent_def wrapErr_def baseEvent_def)
qed

text \<open>C23: a deposit, withdrawal, borrowing or repayment as the contract emits it (market and user as
  indexed addresses, the amount as the first data word) decodes to exactly that market, user and
  amount, with the log's position on the chain.\<close>

theorem parse_simple_roundtrip:
  assumes "evm_ok lib" and "no_collision lib" and "set order = set eventDefs" and "distinct order"
    and "isSimple t" and "amt < 2 ^ 256"
    and "lg_topics lg = eventSignature (newEventParser lib order) t # ucast (market :: address) # ucast (user :: address) # ts"
    and "lg_data lg = abiWord amt @ rest"
  shows "parseLog lib (newEventParser lib order) now cid lg = Inr \<lparr>e_chainID = cid, e_blockNumber = lg_blockNumber lg,
    e_txHash = lg_txHash lg, e_logIndex = lg_index lg, e_eventType = t, e_contractAddress = lg_address lg,
    e_userAddress = user, e_marketAddress = market, e_amount = Some (int amt), e_data = fmempty, e_timestamp = now\<rparr>"
  using assms by (rule parse_simple)

definition exampleLog :: evmLog where
  "exampleLog = \<lparr>lg_address = 7, lg_topics = [eventSignature (newEventParser exampleEvm eventDefs) EventBorrow,
     ucast (11 :: address), ucast (12 :: address)], lg_data = abiWord 1000, lg_blockNumber = 9, lg_txHash = 3, lg_index = 0\<rparr>"

lemma exampleLog_parses: "\<exists>ev. parseLog exampleEvm (newEventParser exampleEvm eventDefs) now cid exampleLog = Inr ev"
  using parse_simple [of exampleEvm eventDefs EventBorrow 1000 exampleLog 11 12 "[]" "[]" now cid]
  by (simp add: exampleLog_def isSimple_def)

theorem parse_simple_roundtrip_witness:
  "\<exists>ev. parseLog exampleEvm (newEventParser exampleEvm eventDefs) 0 1 exampleLog = Inr ev
    \<and> e_userAddress ev = 12 \<and> e_marketAddress ev = 11 \<and> e_amount ev = Some 1000"
  using parse_simple_roundtrip [of exampleEvm eventDefs EventBorrow 1000 exampleLog 11 12 "[]" "[]" 0 1]
  by (simp add: exampleLog_def isSimple_def)

text \<open>A liquidation as the contract emits it decodes to its borrower, the debt covered and, in the
  data map, both assets and the collateral seized, whose decimal numeral reads back as the number.\<close>

theorem parse_liquidation_roundtrip:
  assumes "evm_ok lib" and "no_collision lib" and "set order = set eventDefs" and "distinct order"
    and "amt < 2 ^ 256" and "seized < 2 ^ 256"
    and "lg_topics lg = eventSignature (newEventParser lib order) EventLiquidation # ucast (coll :: address)
       # ucast (debt :: address) # ucast (user :: address) # ts"
    and "lg_data lg = abiWord amt @ abiWord seized @ rest"
  shows "\<exists>ev. parseLog lib (newEventParser lib order) now cid lg = Inr ev \<and> e_eventType ev = EventLiquidation
    \<and> e_userAddress ev = user \<and> e_amount ev = Some (int amt)
    \<and> fmlookup (e_data ev) ''collateral_asset'' = Some (addressHex lib coll)
    \<and> fmlookup (e_data ev) ''debt_asset'' = Some (addressHex lib debt)
    \<and> Option.bind (fmlookup (e_data ev) ''collateral_seized'') read_int = Some (int seized)"
proof -
  have "fmlookup (sigToType (newEventParser lib order)) (eventSignature (newEventParser lib order) EventLiquidation)
      = Some EventLiquidation"
    using parser_tables [OF assms(2-4), of EventLiquidation 0] by (simp add: eventSignature_def)
  note p = parseLog_known(2) [OF assms(7) this refl]
  have "topicAddress lib lg 1 = coll" "topicAddress lib lg 2 = debt" "topicAddress lib lg 3 = user"
    using assms(7) by (auto intro!: topicAddress_ucast [OF assms(1)])
  then show ?thesis unfolding p
    using assms(5-8) dataInt_0 [OF assms(5,8)] dataInt_32 [OF assms(5,6,8)] abiWord_length [OF assms(5)]
      abiWord_length [OF assms(6)]
    by (simp add: parseLiquidationEvent_def wrapErr_def baseEvent_def putData_def)
qed

theorem parse_liquidation_roundtrip_witness:
  "\<exists>ev. parseLog exampleEvm (newEventParser exampleEvm eventDefs) 0 1
      (exampleLog\<lparr>lg_topics := [eventSignature (newEventParser exampleEvm eventDefs) EventLiquidation,
         ucast (11 :: address), ucast (12 :: address), ucast (13 :: address)], lg_data := abiWord 5 @ abiWord 6\<rparr>) = Inr ev
    \<and> e_userAddress ev = 13 \<and> e_amount ev = Some 5"
  using parse_liquidation_roundtrip [of exampleEvm eventDefs 5 6
      "exampleLog\<lparr>lg_topics := [eventSignature (newEventParser exampleEvm eventDefs) EventLiquidation,
         ucast (11 :: address), ucast (12 :: address), ucast (13 :: address)], lg_data := abiWord 5 @ abiWord 6\<rparr>"
      11 12 13 "[]" "[]" 0 1] by auto

text \<open>The topics an event of a type needs, its own signature included, and the data bytes from which
  the amount is read.\<close>

definition requiredTopics :: "eventType \<Rightarrow> nat" where
  "requiredTopics t = (case t of EventLiquidation \<Rightarrow> 4 | EventReserveDataUpdated \<Rightarrow> 2 | EventAccrueInterest \<Rightarrow> 1 | _ \<Rightarrow> 3)"

text \<open>A log is rejected exactly when it has no topic, an unknown first topic, or fewer topics
  than its event needs; anything else decodes, and keeps the log's block, transaction, index and
  contract. Data that is too short is not an error: the event then has no amount at all.\<close>

theorem parse_total:
  "case lg_topics lg of [] \<Rightarrow> parseLog lib p now cid lg = Inl ErrUnknownEvent
   | topic0 # _ \<Rightarrow> (case fmlookup (sigToType p) topic0 of
       None \<Rightarrow> parseLog lib p now cid lg = Inl ErrUnknownEvent
     | Some t \<Rightarrow> (if length (lg_topics lg) < requiredTopics t then isl (parseLog lib p now cid lg)
         else (\<exists>ev. parseLog lib p now cid lg = Inr ev \<and> e_eventType ev = t \<and> e_chainID ev = cid
           \<and> e_blockNumber ev = lg_blockNumber lg \<and> e_txHash ev = lg_txHash lg \<and> e_logIndex ev = lg_index lg
           \<and> e_contractAddress ev = lg_address lg
           \<and> e_amount ev = (if isSimple t \<and> 32 \<le> length (lg_data lg) \<or> t = EventLiquidation \<and> 64 \<le> length (lg_data lg)
                then Some (dataInt lg 0 32) else None))))"
proof (cases "lg_topics lg")
  case Nil
  then show ?thesis by (simp add: parseLog_def)
next
  case (Cons topic0 topics)
  show ?thesis
  proof (cases "fmlookup (sigToType p) topic0")
    case None
    with Cons show ?thesis by (simp add: parseLog_def)
  next
    case (Some t)
    note k = parseLog_known [OF Cons Some, of lib now cid]
    have len: "length (lg_topics lg) = Suc (length topics)" using Cons by simp
    consider "isSimple t" "requiredTopics t = 3" | "t = EventLiquidation" | "t = EventReserveDataUpdated" | "t = EventAccrueInterest"
      by (cases t) (simp_all add: isSimple_def requiredTopics_def)
    then show ?thesis
    proof cases
      case 1
      with k(1) Cons Some show ?thesis
        by (auto simp: parseSimpleEvent_def wrapErr_def baseEvent_def Let_def isSimple_def)
    next
      case 2
      with k(2) Cons Some show ?thesis
        by (auto simp: parseLiquidationEvent_def wrapErr_def baseEvent_def putData_def Let_def isSimple_def requiredTopics_def)
    next
      case 3
      with k(3) Cons Some show ?thesis
        by (auto simp: parseReserveDataUpdated_def wrapErr_def baseEvent_def putData_def Let_def isSimple_def requiredTopics_def)
    next
      case 4
      with k(4) Cons Some show ?thesis
        by (auto simp: parseAccrueInterest_def wrapErr_def baseEvent_def putData_def Let_def isSimple_def requiredTopics_def)
    qed
  qed
qed

end
