(* ===== verification/EventConsumer.thy ===== *)
theory EventConsumer
  imports ChainTypes
begin

text \<open>
  \<open>internal/indexer/consumer/event_consumer.go\<close>: the persistence interface of the indexer and
  the consumer on top of it, with the store of \<open>cmd/indexer/main.go\<close> behind it.
\<close>

section \<open>The interface\<close>

text \<open>\<open>EventStore\<close>: each operation on a store state returns an error or none, and the new state;
  \<open>getSyncStatus\<close> only reads.\<close>

record 's eventStore =
  saveEvent :: "chainEvent \<Rightarrow> 's \<Rightarrow> err option \<times> 's"
  saveBlock :: "blockHeader \<Rightarrow> 's \<Rightarrow> err option \<times> 's"
  updateSyncStatus :: "chainId \<Rightarrow> u64 \<Rightarrow> 's \<Rightarrow> err option \<times> 's"
  deleteEventsFromBlock :: "chainId \<Rightarrow> u64 \<Rightarrow> 's \<Rightarrow> err option \<times> 's"
  deleteBlocksFromBlock :: "chainId \<Rightarrow> u64 \<Rightarrow> 's \<Rightarrow> err option \<times> 's"
  getSyncStatus :: "chainId \<Rightarrow> 's \<Rightarrow> u64 \<times> err option"

section \<open>The consumer\<close>

definition processEvent :: "'s eventStore \<Rightarrow> chainEvent \<Rightarrow> 's \<Rightarrow> err option \<times> 's" where
  "processEvent st event s = saveEvent st event s"

definition processBlock :: "'s eventStore \<Rightarrow> blockHeader \<Rightarrow> 's \<Rightarrow> err option \<times> 's" where
  "processBlock st header s =
     (case saveBlock st header s of
        (Some e, s1) \<Rightarrow> (Some e, s1)
      | (None, s1) \<Rightarrow> updateSyncStatus st (h_chainID header) (h_number header) s1)"

definition handleReorg :: "'s eventStore \<Rightarrow> chainId \<Rightarrow> u64 \<Rightarrow> 's \<Rightarrow> err option \<times> 's" where
  "handleReorg st cid fromBlock s =
     (case deleteEventsFromBlock st cid fromBlock s of
        (Some e, s1) \<Rightarrow> (Some e, s1)
      | (None, s1) \<Rightarrow>
          (case deleteBlocksFromBlock st cid fromBlock s1 of
             (Some e, s2) \<Rightarrow> (Some e, s2)
           | (None, s2) \<Rightarrow>
               if 0 < fromBlock then updateSyncStatus st cid (fromBlock - 1) s2 else (None, s2)))"

section \<open>What the indexer relies on\<close>

text \<open>The laws of a store as far as the sync status goes: an update that succeeds is read back and
  leaves other chains alone, no other operation changes it, and a failed update changes nothing.\<close>

locale sync_store =
  fixes st :: "'s eventStore"
    and sync :: "'s \<Rightarrow> chainId \<Rightarrow> u64"
  assumes read_sync: "getSyncStatus st c s = (sync s c, None)"
    and update_sync: "updateSyncStatus st c n s = (None, s') \<Longrightarrow> sync s' = (sync s)(c := n)"
    and update_sync_failed: "updateSyncStatus st c n s = (Some e, s') \<Longrightarrow> sync s' = sync s"
    and save_sync: "saveEvent st ev s = (r, s') \<Longrightarrow> sync s' = sync s"
      "saveBlock st h s = (r, s') \<Longrightarrow> sync s' = sync s"
    and delete_sync: "deleteEventsFromBlock st c n s = (r, s') \<Longrightarrow> sync s' = sync s"
      "deleteBlocksFromBlock st c n s = (r, s') \<Longrightarrow> sync s' = sync s"
begin

lemma processBlock_sync:
  "processBlock st h s = (None, s') \<Longrightarrow> sync s' = (sync s)(h_chainID h := h_number h)"
  "processBlock st h s = (Some e, s') \<Longrightarrow> sync s' = sync s"
  by (auto simp: processBlock_def split: prod.splits option.splits)
    (metis save_sync(2) update_sync update_sync_failed)+

lemma handleReorg_sync:
  "handleReorg st c n s = (None, s') \<Longrightarrow> sync s' = (if 0 < n then (sync s)(c := n - 1) else sync s)"
  "handleReorg st c n s = (Some e, s') \<Longrightarrow> sync s' = sync s"
  by (auto simp: handleReorg_def split: prod.splits option.splits if_splits)
    (metis delete_sync update_sync update_sync_failed)+

lemma processEvent_sync: "processEvent st ev s = (r, s') \<Longrightarrow> sync s' = sync s"
  by (auto simp: processEvent_def dest: save_sync)

end

section \<open>The in-memory store\<close>

text \<open>\<open>inMemoryStore\<close> of \<open>cmd/indexer/main.go\<close>: it keeps the sync status only. A missing key of a Go
  map reads as zero.\<close>

record memStore =
  syncStatus :: "(chainId, u64) fmap"

definition newInMemoryStore :: memStore where
  "newInMemoryStore = \<lparr>syncStatus = fmempty\<rparr>"

definition memSync :: "memStore \<Rightarrow> chainId \<Rightarrow> u64" where
  "memSync s c = (case fmlookup (syncStatus s) c of None \<Rightarrow> 0 | Some n \<Rightarrow> n)"

definition inMemoryStore :: "memStore eventStore" where
  "inMemoryStore = \<lparr>
     saveEvent = (\<lambda>_ s. (None, s)),
     saveBlock = (\<lambda>_ s. (None, s)),
     updateSyncStatus = (\<lambda>c n s. (None, s\<lparr>syncStatus := fmupd c n (syncStatus s)\<rparr>)),
     deleteEventsFromBlock = (\<lambda>_ _ s. (None, s)),
     deleteBlocksFromBlock = (\<lambda>_ _ s. (None, s)),
     getSyncStatus = (\<lambda>c s. (memSync s c, None))\<rparr>"

interpretation mem: sync_store inMemoryStore memSync
  by unfold_locales (auto simp: inMemoryStore_def memSync_def fun_eq_iff)

end
