(* ===== verification/IndexerService.thy ===== *)
theory IndexerService
  imports ReorgDetector EventParser EventConsumer
begin

text \<open>
  \<open>internal/indexer/service.go\<close>: \<open>runChain\<close>, the loop over the headers of one chain, with the
  reorg detector, the consumer and the parser it drives. The node's answers to \<open>FilterLogs\<close> and
  Kafka's to \<open>Publish\<close> are parameters of a turn; the messages published are part of the state.
\<close>

section \<open>One header\<close>

record 's chainIndexer =
  ciDetector :: detector
  ciStore :: 's
  ciPublished :: "(string \<times> chainEvent) list"

text \<open>What the outside answers during one turn, and the clock \<open>ParseLog\<close> reads.\<close>

record turnEnv =
  filterLogs :: "err + evmLog list"
  publishErr :: "chainEvent \<Rightarrow> err option"
  clock :: i64

text \<open>\<open>fmt.Sprintf("%d-%d", chainID, blockNum)\<close>.\<close>

definition messageKey :: "chainId \<Rightarrow> u64 \<Rightarrow> string" where
  "messageKey cid n = show_int (sint cid) @ ''-'' @ show_nat (unat n)"

text \<open>The loop over the logs of a block. A log that does not parse is skipped, an event that cannot
  be saved is not published, an error of \<open>Publish\<close> is only logged.\<close>

fun indexLogs ::
  "evmLib \<Rightarrow> eventParser \<Rightarrow> 's eventStore \<Rightarrow> turnEnv \<Rightarrow> chainId \<Rightarrow> blockHeader \<Rightarrow> evmLog list \<Rightarrow>
     's chainIndexer \<Rightarrow> 's chainIndexer" where
  "indexLogs lib p st env cid header [] ci = ci"
| "indexLogs lib p st env cid header (rawLog # logs) ci =
     (case parseLog lib p (clock env) cid rawLog of
        Inl _ \<Rightarrow> indexLogs lib p st env cid header logs ci
      | Inr ev \<Rightarrow>
          (let event = ev\<lparr>e_timestamp := h_timestamp header\<rparr> in
           (case processEvent st event (ciStore ci) of
              (Some _, s1) \<Rightarrow> indexLogs lib p st env cid header logs (ci\<lparr>ciStore := s1\<rparr>)
            | (None, s1) \<Rightarrow>
                (let ci1 = (case publishErr env event of
                      None \<Rightarrow> ci\<lparr>ciStore := s1,
                        ciPublished := ciPublished ci @ [(messageKey cid (h_number header), event)]\<rparr>
                    | Some _ \<Rightarrow> ci\<lparr>ciStore := s1\<rparr>)
                 in indexLogs lib p st env cid header logs ci1))))"

definition indexBlock ::
  "evmLib \<Rightarrow> eventParser \<Rightarrow> 's eventStore \<Rightarrow> turnEnv \<Rightarrow> chainId \<Rightarrow> blockHeader \<Rightarrow>
     's chainIndexer \<Rightarrow> 's chainIndexer" where
  "indexBlock lib p st env cid header ci =
     (let ci1 = ci\<lparr>ciDetector := recordBlock header (ciDetector ci)\<rparr> in
      (case processBlock st header (ciStore ci1) of
         (Some _, s1) \<Rightarrow> ci1\<lparr>ciStore := s1\<rparr>
       | (None, s1) \<Rightarrow>
           (case filterLogs env of
              Inl _ \<Rightarrow> ci1\<lparr>ciStore := s1\<rparr>
            | Inr logs \<Rightarrow> indexLogs lib p st env cid header logs (ci1\<lparr>ciStore := s1\<rparr>))))"

definition onHeader ::
  "evmLib \<Rightarrow> eventParser \<Rightarrow> 's eventStore \<Rightarrow> turnEnv \<Rightarrow> chainId \<Rightarrow> blockHeader \<Rightarrow>
     's chainIndexer \<Rightarrow> 's chainIndexer" where
  "onHeader lib p st env cid header ci =
     (case detectReorg header (ciDetector ci) of
        (forkBlock, isReorg) \<Rightarrow>
          if isReorg
          then (case handleReorg st cid forkBlock (ciStore ci) of
                  (Some _, s1) \<Rightarrow> ci\<lparr>ciStore := s1\<rparr>
                | (None, s1) \<Rightarrow> indexBlock lib p st env cid header
                    (ci\<lparr>ciStore := s1, ciDetector := rollback forkBlock (ciDetector ci)\<rparr>))
          else indexBlock lib p st env cid header ci)"

text \<open>The whole loop, over the headers the listener delivers with the answers of their turns, and
  where it starts: one after the stored status, or at block one when it cannot be read.\<close>

definition runChain ::
  "evmLib \<Rightarrow> eventParser \<Rightarrow> 's eventStore \<Rightarrow> chainId \<Rightarrow> (turnEnv \<times> blockHeader) list \<Rightarrow>
     's chainIndexer \<Rightarrow> 's chainIndexer" where
  "runChain lib p st cid turns ci = fold (\<lambda>(env, header). onHeader lib p st env cid header) turns ci"

definition startBlock :: "'s eventStore \<Rightarrow> chainId \<Rightarrow> 's \<Rightarrow> u64" where
  "startBlock st cid s = fst (getSyncStatus st cid s) + 1"

definition newChainIndexer :: "int \<Rightarrow> 's \<Rightarrow> 's chainIndexer" where
  "newChainIndexer confirmations s =
     \<lparr>ciDetector = newDetector (confirmations * 2), ciStore = s, ciPublished = []\<rparr>"

section \<open>The sync status\<close>

context sync_store
begin

lemma indexLogs_sync: "sync (ciStore (indexLogs lib p st env cid h logs ci)) = sync (ciStore ci)"
proof (induction logs arbitrary: ci)
  case (Cons l logs)
  show ?case
  proof (cases "parseLog lib p (clock env) cid l")
    case (Inr ev)
    obtain r s1 where r: "processEvent st (ev\<lparr>e_timestamp := h_timestamp h\<rparr>) (ciStore ci) = (r, s1)" by force
    with Inr show ?thesis
      by (cases r) (simp_all add: Let_def Cons.IH processEvent_sync [OF r] split: option.split)
  qed (simp add: Cons.IH)
qed simp

lemma indexBlock_sync:
  assumes "h_chainID h = cid"
  shows "sync (ciStore (indexBlock lib p st env cid h ci)) =
    (case processBlock st h (ciStore ci) of (None, _) \<Rightarrow> (sync (ciStore ci))(cid := h_number h)
     | (Some _, _) \<Rightarrow> sync (ciStore ci))"
proof -
  obtain r s1 where r: "processBlock st h (ciStore ci) = (r, s1)" by force
  show ?thesis
  proof (cases r)
    case None
    with processBlock_sync(1) [of h "ciStore ci" s1] r assms show ?thesis
      by (simp add: indexBlock_def indexLogs_sync Let_def split: sum.split)
  next
    case (Some e)
    with processBlock_sync(2) [of h "ciStore ci" e s1] r show ?thesis by (simp add: indexBlock_def)
  qed
qed

text \<open>A turn touches the status of its own chain only.\<close>

lemma onHeader_sync_other:
  assumes "h_chainID h = cid" and "c \<noteq> cid"
  shows "sync (ciStore (onHeader lib p st env cid h ci)) c = sync (ciStore ci) c"
proof -
  have ib: "sync (ciStore (indexBlock lib p st env cid h ci')) c = sync (ciStore ci') c" for ci'
    using indexBlock_sync [OF assms(1), of lib p env ci'] assms(2) by (simp split: prod.splits option.splits)
  obtain f b where d: "detectReorg h (ciDetector ci) = (f, b)" by force
  obtain r s1 where r: "handleReorg st cid f (ciStore ci) = (r, s1)" by force
  have "sync s1 c = sync (ciStore ci) c"
    using r assms(2) by (cases r) (auto dest!: handleReorg_sync)
  with d r show ?thesis by (cases r) (simp_all add: onHeader_def ib)
qed

end

section \<open>The indexer over the in-memory store\<close>

lemma mem_never_fails:
  "\<exists>s'. handleReorg inMemoryStore c n s = (None, s')"
  "\<exists>s'. processBlock inMemoryStore h s = (None, s')"
  "processEvent inMemoryStore ev s = (None, s)"
  by (simp_all add: handleReorg_def processBlock_def processEvent_def inMemoryStore_def)

lemma mem_onHeader_sync:
  assumes "h_chainID h = cid"
  shows "memSync (ciStore (onHeader lib p inMemoryStore env cid h ci)) cid = h_number h"
proof -
  have ib: "memSync (ciStore (indexBlock lib p inMemoryStore env cid h ci')) cid = h_number h" for ci'
    using mem.indexBlock_sync [OF assms, of lib p env ci'] mem_never_fails(2) [of h "ciStore ci'"]
    by (auto split: prod.splits option.splits)
  obtain f b where d: "detectReorg h (ciDetector ci) = (f, b)" by force
  obtain s1 where r: "handleReorg inMemoryStore cid f (ciStore ci) = (None, s1)"
    using mem_never_fails(1) by blast
  from d r show ?thesis by (simp add: onHeader_def ib)
qed

lemma runChain_snoc: "runChain lib p st cid (ts @ [(env, h)]) ci = onHeader lib p st env cid h (runChain lib p st cid ts ci)"
  by (simp add: runChain_def)

lemma mem_runChain_other:
  "\<forall>(env, h)\<in>set ts. h_chainID h = cid \<Longrightarrow> c \<noteq> cid \<Longrightarrow>
     memSync (ciStore (runChain lib p inMemoryStore cid ts ci)) c = memSync (ciStore ci) c"
proof (induction ts rule: rev_induct)
  case (snoc t ts)
  then show ?case
    by (cases t) (simp add: runChain_snoc mem.onHeader_sync_other)
qed (simp add: runChain_def)

text \<open>The sync status follows the feed. After any run over headers of a chain, reorganisations
  and failures of the node and of Kafka included, the chain's status is the height of the last
  header and a restart continues right after it; the status of every other chain is untouched.\<close>

theorem indexer_sync:
  assumes "\<forall>(env, h)\<in>set (ts @ [(env, h)]). h_chainID h = cid"
    and "ci' = runChain lib p inMemoryStore cid (ts @ [(env, h)]) ci"
  shows "getSyncStatus inMemoryStore cid (ciStore ci') = (h_number h, None)
    \<and> startBlock inMemoryStore cid (ciStore ci') = h_number h + 1
    \<and> (\<forall>c. c \<noteq> cid \<longrightarrow> getSyncStatus inMemoryStore c (ciStore ci') = getSyncStatus inMemoryStore c (ciStore ci))"
proof -
  have "memSync (ciStore ci') cid = h_number h"
    using assms(1) by (simp add: assms(2) runChain_snoc mem_onHeader_sync)
  moreover have "memSync (ciStore ci') c = memSync (ciStore ci) c" if "c \<noteq> cid" for c
    unfolding assms(2) using assms(1) that by (rule mem_runChain_other)
  ultimately show ?thesis by (simp add: mem.read_sync startBlock_def)
qed

definition exampleTurn :: turnEnv where
  "exampleTurn = \<lparr>filterLogs = Inr [exampleLog], publishErr = (\<lambda>_. None), clock = 50\<rparr>"

abbreviation "exampleIndexer \<equiv> newChainIndexer 1 newInMemoryStore"

theorem indexer_sync_witness:
  "startBlock inMemoryStore 1 (ciStore (runChain exampleEvm (newEventParser exampleEvm eventDefs) inMemoryStore 1
      ([] @ [(exampleTurn, exampleHeader 9 90 80)]) exampleIndexer)) = 10"
  using indexer_sync [of "[]" exampleTurn "exampleHeader 9 90 80" 1 _ exampleEvm "newEventParser exampleEvm eventDefs" exampleIndexer]
  by (simp add: exampleHeader_def)

lemma mem_indexLogs_published:
  assumes "\<forall>ev. publishErr env ev = None"
  shows "ciPublished (indexLogs lib p inMemoryStore env cid h logs ci) = ciPublished ci @
     List.map_filter (\<lambda>lg. case parseLog lib p (clock env) cid lg of Inl _ \<Rightarrow> None
       | Inr ev \<Rightarrow> Some (messageKey cid (h_number h), ev\<lparr>e_timestamp := h_timestamp h\<rparr>)) logs"
  by (induction logs arbitrary: ci)
    (simp_all add: map_filter_simps mem_never_fails(3) assms Let_def split: sum.split)

text \<open>For a block that extends the chain, every log that parses is published exactly once, in the
  order of the logs, under the key of its chain and block and with the block's timestamp; the
  logs that do not parse are skipped without disturbing the others.\<close>

theorem indexer_publishes:
  assumes "detectReorg h (ciDetector ci) = (f, False)" and "filterLogs env = Inr logs"
    and "\<forall>ev. publishErr env ev = None"
  shows "ciPublished (onHeader lib p inMemoryStore env cid h ci) = ciPublished ci @
     List.map_filter (\<lambda>lg. case parseLog lib p (clock env) cid lg of Inl _ \<Rightarrow> None
       | Inr ev \<Rightarrow> Some (messageKey cid (h_number h), ev\<lparr>e_timestamp := h_timestamp h\<rparr>)) logs"
proof -
  obtain s1 where "processBlock inMemoryStore h (ciStore ci) = (None, s1)" using mem_never_fails(2) by blast
  then show ?thesis using assms
    by (simp add: onHeader_def indexBlock_def Let_def mem_indexLogs_published)
qed

theorem indexer_publishes_witness:
  "length (ciPublished (onHeader exampleEvm (newEventParser exampleEvm eventDefs) inMemoryStore exampleTurn 1
      (exampleHeader 9 90 80) exampleIndexer)) = 1"
proof -
  have "detectReorg (exampleHeader 9 90 80) (ciDetector exampleIndexer) = (0, False)"
    by (simp add: newChainIndexer_def newDetector_def detectReorg_def)
  moreover have "filterLogs exampleTurn = Inr [exampleLog]" "\<forall>ev. publishErr exampleTurn ev = None"
    by (simp_all add: exampleTurn_def)
  moreover obtain ev where "parseLog exampleEvm (newEventParser exampleEvm eventDefs) (clock exampleTurn) 1 exampleLog = Inr ev"
    using exampleLog_parses by blast
  ultimately show ?thesis
    using indexer_publishes [of "exampleHeader 9 90 80" exampleIndexer 0 exampleTurn "[exampleLog]" exampleEvm
        "newEventParser exampleEvm eventDefs" 1]
    by (simp add: map_filter_simps newChainIndexer_def)
qed



text \<open>The replaced parent is not indexed again. When a block does not name the recorded parent,
  everything from the parent on is rolled back and only the block itself is indexed: the
  detector then knows no block at the parent's height, and the status is past it.\<close>

theorem reorg_leaves_gap:
  assumes "fmlookup (blockHashes (ciDetector ci)) (h_number h) = None"
    and "fmlookup (blockHashes (ciDetector ci)) (h_number h - 1) = Some parent" and "parent \<noteq> h_parentHash h"
    and "h_number h \<noteq> 0" and "h_chainID h = cid"
  shows "fmlookup (blockHashes (ciDetector (onHeader lib p inMemoryStore env cid h ci))) (h_number h - 1) = None
    \<and> startBlock inMemoryStore cid (ciStore (onHeader lib p inMemoryStore env cid h ci)) = h_number h + 1"
proof -
  have det: "detectReorg h (ciDetector ci) = (h_number h - 1, True)"
    using assms(1-3) by (simp add: detectReorg_def Let_def)
  have logs: "ciDetector (indexLogs lib p st env cid h ls c) = ciDetector c" for st :: "memStore eventStore" and ls c
    by (induction ls arbitrary: c) (simp_all add: Let_def split: sum.split prod.split option.split)
  have blk: "ciDetector (indexBlock lib p inMemoryStore env cid h c) = recordBlock h (ciDetector c)" for c
    by (simp add: indexBlock_def Let_def logs split: prod.split option.split sum.split)
  obtain s1 where "handleReorg inMemoryStore cid (h_number h - 1) (ciStore ci) = (None, s1)"
    using mem_never_fails(1) by blast
  then have "ciDetector (onHeader lib p inMemoryStore env cid h ci)
      = recordBlock h (rollback (h_number h - 1) (ciDetector ci))"
    using det by (simp add: onHeader_def blk)
  moreover have "h_number h - 1 \<noteq> h_number h" by simp
  ultimately have "fmlookup (blockHashes (ciDetector (onHeader lib p inMemoryStore env cid h ci))) (h_number h - 1) = None"
    by (simp add: recordBlock_lookup)
  then show ?thesis using mem_onHeader_sync [OF assms(5), of lib p env ci]
    by (simp add: startBlock_def mem.read_sync)
qed

theorem reorg_leaves_gap_witness:
  "startBlock inMemoryStore 1 (ciStore (onHeader exampleEvm (newEventParser exampleEvm eventDefs) inMemoryStore exampleTurn 1
      (exampleHeader 9 90 80) (exampleIndexer\<lparr>ciDetector := recordBlock (exampleHeader 8 81 70) (newDetector 2)\<rparr>))) = 10"
  using reorg_leaves_gap [of "exampleIndexer\<lparr>ciDetector := recordBlock (exampleHeader 8 81 70) (newDetector 2)\<rparr>"
      "exampleHeader 9 90 80" 81 1]
  by (simp add: exampleHeader_def recordBlock_def newDetector_def fmsize_upd)

end
