(* ===== verification/BlockListener.thy ===== *)
theory BlockListener
  imports ChainTypes
begin

text \<open>
  \<open>internal/indexer/listener/block_listener.go\<close>: polling for headers, and the WebSocket
  subscription with its backfill and its fallback to polling.

  A header is the node's (type \<open>'h\<close>). The k-th \<open>BlockByNumber\<close> call for block \<open>n\<close> answers
  \<open>fetch k n\<close>; \<open>stopped k\<close> says whether the context is done when the header of that call is to be
  sent. The goroutine's output is the list of headers it sends.
\<close>

section \<open>Polling\<close>

text \<open>Why a loop over block numbers ended: the context is done, or there is nothing more to fetch now.\<close>

datatype loopEnd = Stopped | Exhausted

text \<open>The inner loop of \<open>Poll\<close>, which is also the backfill loop of \<open>Subscribe\<close>: from \<open>next\<close> up to the
  latest block, until a header cannot be fetched. The counter has 64 bits: for a latest block of
  2^64 - 1 the condition never fails and the loop need not end, hence the option.\<close>

partial_function (option) fetchBlocks ::
  "(nat \<Rightarrow> u64 \<Rightarrow> err + 'h) \<Rightarrow> (nat \<Rightarrow> bool) \<Rightarrow> u64 \<Rightarrow> nat \<Rightarrow> u64 \<Rightarrow> (loopEnd \<times> nat \<times> u64 \<times> 'h list) option" where
  "fetchBlocks fetch stopped latest k nextBlock =
     (if nextBlock \<le> latest
      then (case fetch k nextBlock of
              Inl _ \<Rightarrow> Some (Exhausted, Suc k, nextBlock, [])
            | Inr header \<Rightarrow>
                if stopped k then Some (Stopped, Suc k, nextBlock, [])
                else Option.bind (fetchBlocks fetch stopped latest (Suc k) (nextBlock + 1))
                       (\<lambda>(e, k', n', hs). Some (e, k', n', header # hs)))
      else Some (Exhausted, k, nextBlock, []))"

declare fetchBlocks.simps [code]

text \<open>What wakes the polling goroutine up: the context, or the ticker with the answer of
  \<open>LatestBlockNumber\<close>.\<close>

datatype pollWake = PollDone | PollTick "err + u64"

text \<open>The outer loop over the wake-ups so far, with the next block to ask for and the headers sent.\<close>

fun poll ::
  "(nat \<Rightarrow> u64 \<Rightarrow> err + 'h) \<Rightarrow> (nat \<Rightarrow> bool) \<Rightarrow> pollWake list \<Rightarrow> nat \<Rightarrow> u64 \<Rightarrow> (u64 \<times> 'h list) option" where
  "poll fetch stopped [] k nextBlock = Some (nextBlock, [])"
| "poll fetch stopped (PollDone # ws) k nextBlock = Some (nextBlock, [])"
| "poll fetch stopped (PollTick (Inl e) # ws) k nextBlock = poll fetch stopped ws k nextBlock"
| "poll fetch stopped (PollTick (Inr latest) # ws) k nextBlock =
     (case fetchBlocks fetch stopped latest k nextBlock of
        None \<Rightarrow> None
      | Some (Stopped, k', n', hs) \<Rightarrow> Some (n', hs)
      | Some (Exhausted, k', n', hs) \<Rightarrow>
          map_option (\<lambda>(n'', hs'). (n'', hs @ hs')) (poll fetch stopped ws k' n'))"

section \<open>Subscribing\<close>

text \<open>What wakes the subscription's goroutine up: the context, an error of the subscription followed
  by the wake-ups of the polling it falls back to, or a header (possibly nil).\<close>

datatype 'h subWake = SubDone | SubError "pollWake list" | NewHead "'h option"

text \<open>The live loop; \<open>latest\<close> is the answer \<open>LatestBlockNumber\<close> gave before the backfill. \<open>sendStopped\<close>
  says whether the context is done when the i-th live header is to be sent.\<close>

fun live ::
  "(nat \<Rightarrow> u64 \<Rightarrow> err + 'h) \<Rightarrow> (nat \<Rightarrow> bool) \<Rightarrow> (nat \<Rightarrow> bool) \<Rightarrow> u64 \<Rightarrow> u64 \<Rightarrow> 'h subWake list \<Rightarrow> nat \<Rightarrow> nat \<Rightarrow>
     'h list option" where
  "live fetch stopped sendStopped startBlock latest [] k i = Some []"
| "live fetch stopped sendStopped startBlock latest (SubDone # ws) k i = Some []"
| "live fetch stopped sendStopped startBlock latest (SubError ps # ws) k i =
     (let nextBlock = (if 0 < latest then latest + 1 else startBlock)
      in map_option snd (poll fetch stopped ps k nextBlock))"
| "live fetch stopped sendStopped startBlock latest (NewHead None # ws) k i =
     live fetch stopped sendStopped startBlock latest ws k i"
| "live fetch stopped sendStopped startBlock latest (NewHead (Some h) # ws) k i =
     (if sendStopped i then Some []
      else map_option ((#) h) (live fetch stopped sendStopped startBlock latest ws k (Suc i)))"

text \<open>\<open>SubscribeNewHead\<close> may fail, and then everything is polled. \<open>LatestBlockNumber\<close> returns a number
  and an error; the number is used for the fallback even when there is an error.\<close>

definition subscribe ::
  "(nat \<Rightarrow> u64 \<Rightarrow> err + 'h) \<Rightarrow> (nat \<Rightarrow> bool) \<Rightarrow> (nat \<Rightarrow> bool) \<Rightarrow> err + 'h subWake list \<Rightarrow> pollWake list \<Rightarrow>
     u64 \<times> err option \<Rightarrow> u64 \<Rightarrow> 'h list option" where
  "subscribe fetch stopped sendStopped subscription ps latestAnswer startBlock =
     (case subscription of
        Inl _ \<Rightarrow> map_option snd (poll fetch stopped ps 0 startBlock)
      | Inr wakes \<Rightarrow>
          (case latestAnswer of
             (latest, Some _) \<Rightarrow> live fetch stopped sendStopped startBlock latest wakes 0 0
           | (latest, None) \<Rightarrow>
               (case fetchBlocks fetch stopped latest 0 startBlock of
                  None \<Rightarrow> None
                | Some (Stopped, k, n, hs) \<Rightarrow> Some hs
                | Some (Exhausted, k, n, hs) \<Rightarrow>
                    map_option ((@) hs) (live fetch stopped sendStopped startBlock latest wakes k 0))))"

section \<open>The inner loop\<close>

text \<open>The heights of a run of \<open>len\<close> headers from \<open>n\<close> on, and a node that answers with the block asked for.\<close>

definition heights :: "u64 \<Rightarrow> nat \<Rightarrow> u64 list" where
  "heights n len = map (\<lambda>i. n + of_nat i) [0..<len]"

definition node_ok :: "('h \<Rightarrow> u64) \<Rightarrow> (nat \<Rightarrow> u64 \<Rightarrow> err + 'h) \<Rightarrow> bool" where
  "node_ok num fetch \<longleftrightarrow> (\<forall>k n h. fetch k n = Inr h \<longrightarrow> num h = n)"

lemma heights_0 [simp]: "heights n 0 = []"
  by (simp add: heights_def)

lemma heights_Suc: "heights n (Suc len) = n # heights (n + 1) len"
proof -
  have "[0..<Suc len] = 0 # map Suc [0..<len]" by (simp only: upt_conv_Cons map_Suc_upt)
  then show ?thesis by (simp add: heights_def comp_def ac_simps del: upt_Suc)
qed

lemma heights_append: "heights n len @ heights (n + of_nat len) m = heights n (len + m)"
proof (induction len arbitrary: n)
  case (Suc len)
  from Suc.IH [of "n + 1"] show ?case by (simp add: heights_Suc add.assoc)
qed simp

text \<open>It returns for every latest block but the largest number; the headers sent are consecutive
  from the block asked for first, none is beyond the latest block, and without failure or
  cancellation none up to there is missing.\<close>

lemma fetchBlocks_correct:
  assumes "node_ok num fetch" and "latest \<noteq> - 1"
  shows "\<exists>e k' n' hs. fetchBlocks fetch stopped latest k nextBlock = Some (e, k', n', hs)
    \<and> map num hs = heights nextBlock (length hs) \<and> n' = nextBlock + of_nat (length hs)
    \<and> unat n' = unat nextBlock + length hs
    \<and> unat n' \<le> max (unat nextBlock) (Suc (unat latest))
    \<and> ((\<forall>k n. \<exists>h. fetch k n = Inr h) \<and> (\<forall>k. \<not> stopped k) \<longrightarrow>
         e = Exhausted \<and> unat n' = max (unat nextBlock) (Suc (unat latest)))"
proof (induction "Suc (unat latest) - unat nextBlock" arbitrary: k nextBlock rule: less_induct)
  case less
  note step = fetchBlocks.simps [of fetch stopped latest k nextBlock]
  show ?case
  proof (cases "nextBlock \<le> latest")
    case False
    then have "Suc (unat latest) \<le> unat nextBlock" by (simp add: word_le_nat_alt)
    with False show ?thesis unfolding step by simp
  next
    case True
    then have le: "unat nextBlock \<le> unat latest" by (simp add: word_le_nat_alt)
    have "1 + nextBlock \<noteq> 0" using True assms(2) by (metis add.commute add_eq_0_iff word_order.extremum_unique)
    from unatSuc [OF this] have up: "unat (nextBlock + 1) = Suc (unat nextBlock)" by (simp add: add.commute)
    show ?thesis
    proof (cases "fetch k nextBlock")
      case (Inl e)
      then have "\<not> (\<forall>k n. \<exists>h. fetch k n = Inr h)" by (metis Inl_Inr_False)
      with True le Inl show ?thesis unfolding step by simp
    next
      case (Inr h)
      show ?thesis
      proof (cases "stopped k")
        case stop: True
        with True Inr le show ?thesis unfolding step by auto
      next
        case False
        have lt: "Suc (unat latest) - unat (nextBlock + 1) < Suc (unat latest) - unat nextBlock" using up le by simp
        obtain e k' n' hs where r: "fetchBlocks fetch stopped latest (Suc k) (nextBlock + 1) = Some (e, k', n', hs)"
          "map num hs = heights (nextBlock + 1) (length hs)" "n' = nextBlock + 1 + of_nat (length hs)"
          "unat n' = unat (nextBlock + 1) + length hs" "unat n' \<le> max (unat (nextBlock + 1)) (Suc (unat latest))"
          "(\<forall>k n. \<exists>h. fetch k n = Inr h) \<and> (\<forall>k. \<not> stopped k) \<longrightarrow>
             e = Exhausted \<and> unat n' = max (unat (nextBlock + 1)) (Suc (unat latest))"
          using less.hyps [OF lt, of "Suc k"] by blast
        have m: "max (unat (nextBlock + 1)) (Suc (unat latest)) = max (unat nextBlock) (Suc (unat latest))"
          using up le by simp
        show ?thesis
        proof (intro exI conjI)
          show "fetchBlocks fetch stopped latest k nextBlock = Some (e, k', n', h # hs)"
            unfolding step using True Inr False r(1) by simp
          have "num h = nextBlock" using assms(1) Inr by (simp add: node_ok_def)
          then show "map num (h # hs) = heights nextBlock (length (h # hs))" by (simp add: heights_Suc r(2))
          show "n' = nextBlock + word_of_nat (length (h # hs))" by (simp add: r(3) ac_simps)
          show "unat n' = unat nextBlock + length (h # hs)" by (simp add: r(4) up)
          show "unat n' \<le> max (unat nextBlock) (Suc (unat latest))" using r(5) unfolding m .
          show "(\<forall>k n. \<exists>h. fetch k n = Inr h) \<and> (\<forall>k. \<not> stopped k) \<longrightarrow>
             e = Exhausted \<and> unat n' = max (unat nextBlock) (Suc (unat latest))" using r(6) unfolding m .
        qed
      qed
    qed
  qed
qed

section \<open>Polling delivers every block once\<close>

definition wake_ok :: "pollWake \<Rightarrow> bool" where
  "wake_ok w \<longleftrightarrow> (\<forall>latest. w = PollTick (Inr latest) \<longrightarrow> latest \<noteq> - 1)"

lemma poll_heights:
  "node_ok num fetch \<Longrightarrow> list_all wake_ok ws \<Longrightarrow> \<exists>n' hs. poll fetch stopped ws k n = Some (n', hs)
     \<and> map num hs = heights n (length hs) \<and> n' = n + of_nat (length hs) \<and> unat n' = unat n + length hs"
proof (induction ws arbitrary: k n)
  case (Cons w ws)
  show ?case
  proof (cases w)
    case (PollTick r)
    show ?thesis
    proof (cases r)
      case (Inr latest)
      then have "latest \<noteq> - 1" using Cons.prems PollTick by (simp add: wake_ok_def)
      then obtain e k' n' hs where f: "fetchBlocks fetch stopped latest k n = Some (e, k', n', hs)"
          "map num hs = heights n (length hs)" "n' = n + of_nat (length hs)" "unat n' = unat n + length hs"
        using fetchBlocks_correct [OF Cons.prems(1), of latest stopped k n] by blast
      obtain n'' hs' where p: "poll fetch stopped ws k' n' = Some (n'', hs')" "map num hs' = heights n' (length hs')"
          "n'' = n' + of_nat (length hs')" "unat n'' = unat n' + length hs'"
        using Cons by fastforce
      from f p PollTick Inr show ?thesis
        by (cases e) (simp_all add: heights_append add.assoc)
    qed (use Cons PollTick in simp)
  qed simp
qed simp

text \<open>With a node that answers every call, no cancellation, and the last answer of
  \<open>LatestBlockNumber\<close> at or beyond the block wanted, polling has delivered everything up to it.\<close>

lemma poll_reaches:
  assumes "node_ok num fetch" and "\<forall>k n. \<exists>h. fetch k n = Inr h" and "\<forall>k. \<not> stopped k"
    and "list_all wake_ok ws" and "PollDone \<notin> set ws" and "PollTick (Inr latest) \<in> set ws"
  shows "\<exists>n' hs. poll fetch stopped ws k n = Some (n', hs) \<and> Suc (unat latest) \<le> unat n'"
  using assms(4-6)
proof (induction ws arbitrary: k n)
  case (Cons w ws)
  show ?case
  proof (cases w)
    case (PollTick r)
    show ?thesis
    proof (cases r)
      case (Inl e)
      with Cons PollTick show ?thesis by simp
    next
      case (Inr l)
      then have "l \<noteq> - 1" using Cons.prems PollTick by (simp add: wake_ok_def)
      then obtain k' n' hs where f: "fetchBlocks fetch stopped l k n = Some (Exhausted, k', n', hs)"
          "unat n' = max (unat n) (Suc (unat l))"
        using fetchBlocks_correct [OF assms(1), of l stopped k n] assms(2,3) by blast
      obtain n'' hs' where p: "poll fetch stopped ws k' n' = Some (n'', hs')" "unat n'' = unat n' + length hs'"
        using poll_heights [OF assms(1), of ws stopped k' n'] Cons.prems(1) by auto
      show ?thesis
      proof (cases "PollTick (Inr latest) \<in> set ws")
        case True
        with Cons f PollTick Inr show ?thesis by fastforce
      next
        case False
        with Cons.prems(3) PollTick Inr have "l = latest" by simp
        with f p PollTick Inr show ?thesis by simp
      qed
    qed
  qed (use Cons in simp)
qed simp


text \<open>A node whose headers are their heights and whose second call fails.\<close>

definition exampleFetch :: "nat \<Rightarrow> u64 \<Rightarrow> err + u64" where
  "exampleFetch k n = (if k = 1 then Inl ''timeout'' else Inr n)"


section \<open>The subscription's fallback\<close>

lemma live_heads:
  "live fetch stopped (\<lambda>_. False) startBlock latest (map (NewHead \<circ> Some) heads @ ws) k i =
     map_option ((@) heads) (live fetch stopped (\<lambda>_. False) startBlock latest ws k (i + length heads))"
proof (induction heads arbitrary: i)
  case Nil
  show ?case by (simp add: option.map_id0 [unfolded id_def] append_Nil [abs_def])
next
  case (Cons h heads)
  then show ?case by (simp add: option.map_comp comp_def)
qed

text \<open>After an error the subscription repeats itself. It backfills up to the latest block of the
  moment it started, then forwards live heads; when the subscription breaks it polls from the
  block after that first latest one, so every head it has already forwarded is sent again.\<close>

theorem subscribe_repeats_heads:
  assumes "node_ok num fetch" and "\<forall>k n. \<exists>h. fetch k n = Inr h" and "latest \<noteq> - 1" and "0 < latest"
    and "startBlock \<le> latest" and "list_all wake_ok ps"
  shows "\<exists>backfilled polled. subscribe fetch (\<lambda>_. False) (\<lambda>_. False) (Inr (map (NewHead \<circ> Some) heads @ [SubError ps])) ps2
      (latest, None) startBlock = Some (backfilled @ heads @ polled)
    \<and> map num backfilled = heights startBlock (length backfilled)
    \<and> unat startBlock + length backfilled = Suc (unat latest)
    \<and> map num polled = heights (latest + 1) (length polled)"
proof -
  obtain k' n' hs where f: "fetchBlocks fetch (\<lambda>_. False) latest 0 startBlock = Some (Exhausted, k', n', hs)"
      "map num hs = heights startBlock (length hs)" "unat n' = unat startBlock + length hs"
      "unat n' = max (unat startBlock) (Suc (unat latest))"
    using fetchBlocks_correct [OF assms(1,3), of "\<lambda>_. False" 0 startBlock] assms(2) by auto
  obtain n'' polled where p: "poll fetch (\<lambda>_. False) ps k' (latest + 1) = Some (n'', polled)"
      "map num polled = heights (latest + 1) (length polled)"
    using poll_heights [OF assms(1,6), of "\<lambda>_. False" k' "latest + 1"] by auto
  have "max (unat startBlock) (Suc (unat latest)) = Suc (unat latest)" using assms(5) by (simp add: word_le_nat_alt)
  with f p assms(4) show ?thesis
    by (intro exI [of _ hs] exI [of _ polled]) (simp add: subscribe_def live_heads Let_def)
qed

theorem subscribe_repeats_heads_witness:
  "\<exists>backfilled polled. subscribe (\<lambda>_ n. Inr n) (\<lambda>_. False) (\<lambda>_. False)
      (Inr (map (NewHead \<circ> Some) [8, 9] @ [SubError [PollTick (Inr 9)]])) [] (7, None) 5
      = Some (backfilled @ [8, 9] @ polled) \<and> polled = heights 8 (length polled)"
  using subscribe_repeats_heads [of id "\<lambda>_ n. Inr n" 7 5 "[PollTick (Inr 9)]" "[8, 9]" "[]"]
  by (fastforce simp: node_ok_def wake_ok_def)

section \<open>Termination\<close>

lemma fetchBlocks_bounded:
  assumes "latest \<noteq> - 1"
  shows "\<exists>e k' n' hs. fetchBlocks fetch stopped latest k nextBlock = Some (e, k', n', hs)
    \<and> k' - k \<le> Suc (unat latest) - unat nextBlock \<and> k \<le> k'"
proof (induction "Suc (unat latest) - unat nextBlock" arbitrary: k nextBlock rule: less_induct)
  case less
  note step = fetchBlocks.simps [of fetch stopped latest k nextBlock]
  show ?case
  proof (cases "nextBlock \<le> latest \<and> (\<exists>h. fetch k nextBlock = Inr h) \<and> \<not> stopped k")
    case False
    then consider "\<not> nextBlock \<le> latest" | e where "nextBlock \<le> latest" "fetch k nextBlock = Inl e"
      | h where "nextBlock \<le> latest" "fetch k nextBlock = Inr h" "stopped k"
      by (metis sum.exhaust)
    then show ?thesis unfolding step by cases (auto simp: word_le_nat_alt)
  next
    case True
    then obtain h where h: "fetch k nextBlock = Inr h" by blast
    have le: "unat nextBlock \<le> unat latest" using True by (simp add: word_le_nat_alt)
    have "1 + nextBlock \<noteq> 0" using True assms by (metis add.commute add_eq_0_iff word_order.extremum_unique)
    from unatSuc [OF this] have up: "unat (nextBlock + 1) = Suc (unat nextBlock)" by (simp add: add.commute)
    have lt: "Suc (unat latest) - unat (nextBlock + 1) < Suc (unat latest) - unat nextBlock" using up le by simp
    obtain e k' n' hs where "fetchBlocks fetch stopped latest (Suc k) (nextBlock + 1) = Some (e, k', n', hs)"
        "k' - Suc k \<le> Suc (unat latest) - unat (nextBlock + 1)" "Suc k \<le> k'"
      using less [OF lt, of "Suc k"] by blast
    then show ?thesis unfolding step using True h le up by simp
  qed
qed

lemma fetchBlocks_diverges:
  assumes "fetchBlocks fetch stopped latest k nextBlock = Some r"
  shows "\<not> (latest = - 1 \<and> (\<forall>k n. \<exists>h. fetch k n = Inr h) \<and> (\<forall>k. \<not> stopped k))"
proof (rule fetchBlocks.raw_induct [OF _ assms], goal_cases)
  case (1 loop fetch stopped latest k nextBlock r)
  show ?case
  proof
    assume a: "latest = - 1 \<and> (\<forall>k n. \<exists>h. fetch k n = Inr h) \<and> (\<forall>k. \<not> stopped k)"
    then obtain h where "fetch k nextBlock = Inr h" by blast
    with 1(2) a have "\<exists>r. loop fetch stopped latest (Suc k) (nextBlock + 1) = Some r"
      by (auto simp: bind_eq_Some_conv)
    then show False using 1(1) a by blast
  qed
qed

text \<open>C28: The loop over the new blocks ends, whatever the node answers and whenever the context is done,
  after at most one call for each block up to the latest; only for the latest block 2^64 - 1 it does
  not: then, with a node that answers and a context that goes on, it counts round for ever.\<close>

theorem fetchBlocks_ends:
  "(latest \<noteq> - 1 \<longrightarrow> (\<exists>e k' n' hs. fetchBlocks fetch stopped latest k nextBlock = Some (e, k', n', hs)
      \<and> k' - k \<le> Suc (unat latest) - unat nextBlock))
   \<and> ((\<forall>k n. \<exists>h. fetch k n = Inr h) \<and> (\<forall>k. \<not> stopped k) \<longrightarrow>
        (fetchBlocks fetch stopped latest k nextBlock = None \<longleftrightarrow> latest = - 1))"
proof (cases "latest = - 1")
  case True
  then show ?thesis using fetchBlocks_diverges [of fetch stopped latest k nextBlock]
    by (cases "fetchBlocks fetch stopped latest k nextBlock") simp_all
next
  case False
  from fetchBlocks_bounded [OF this] obtain e k' n' hs where
    "fetchBlocks fetch stopped latest k nextBlock = Some (e, k', n', hs)" "k' - k \<le> Suc (unat latest) - unat nextBlock"
    by blast
  then show ?thesis using False by simp
qed

theorem fetchBlocks_ends_witness:
  "fetchBlocks (\<lambda>_ n. Inr n) (\<lambda>_. False) (- 1) 0 5 = None \<and> fetchBlocks (\<lambda>_ n. Inr n) (\<lambda>_. False) 7 0 5 \<noteq> None"
  using fetchBlocks_ends [of "- 1" "\<lambda>_ n. Inr n" "\<lambda>_. False" 0 5] fetchBlocks_ends [of 7 "\<lambda>_ n. Inr n" "\<lambda>_. False" 0 5] by auto

end
