(* ===== verification/GoText.thy ===== *)
theory GoText
  imports GoStrings GoFloat
begin

text \<open>
  What the code uses of Go's \<open>strconv\<close>, \<open>strings\<close> and \<open>fmt\<close> beyond plain numerals: \<open>ParseInt\<close> with its
  range errors, \<open>ParseFloat\<close>, splitting, trimming, lower case, and the verbs \<open>%.2f\<close>, \<open>%.4f\<close>, \<open>%x\<close>. A Go string is
  the list of its bytes.
\<close>

section \<open>ParseInt\<close>

text \<open>\<open>ParseInt(s, 10, 64)\<close> returns a value with its error. Out of range the value is the nearest
  \<open>int64\<close>; the digits are read from the left, and an overflow ends the reading before a bad digit
  behind it is seen.\<close>

datatype parseError = ErrSyntax | ErrRange

fun scan_uint :: "int \<Rightarrow> string \<Rightarrow> parseError + int" where
  "scan_uint n [] = Inr n"
| "scan_uint n (c # cs) = (case digit_of c of
     None \<Rightarrow> Inl ErrSyntax
   | Some d \<Rightarrow> if 2 ^ 64 \<le> n * 10 + int d then Inl ErrRange else scan_uint (n * 10 + int d) cs)"

definition parseInt :: "string \<Rightarrow> int \<times> parseError option" where
  "parseInt s =
     (let neg = (s \<noteq> [] \<and> hd s = CHR ''-'');
          body = (if s \<noteq> [] \<and> (hd s = CHR ''-'' \<or> hd s = CHR ''+'') then tl s else s)
      in if body = [] then (0, Some ErrSyntax)
         else (case scan_uint 0 body of
             Inl ErrSyntax \<Rightarrow> (0, Some ErrSyntax)
           | Inl ErrRange \<Rightarrow> (if neg then - (2 ^ 63) else 2 ^ 63 - 1, Some ErrRange)
           | Inr n \<Rightarrow>
               if \<not> neg \<and> 2 ^ 63 \<le> n then (2 ^ 63 - 1, Some ErrRange)
               else if neg \<and> 2 ^ 63 < n then (- (2 ^ 63), Some ErrRange)
               else (if neg then - n else n, None)))"

section \<open>Strings\<close>

text \<open>\<open>ToLower\<close> on ASCII. A letter outside ASCII never becomes one of the ASCII letters the code compares with.\<close>

definition lower_char :: "char \<Rightarrow> char" where
  "lower_char c = (let k = (of_char c :: nat) in if 65 \<le> k \<and> k \<le> 90 then char_of (k + 32) else c)"

definition toLower :: "string \<Rightarrow> string" where
  "toLower s = map lower_char s"

text \<open>\<open>Split(s, sep)\<close> for a separator of one byte: always at least one piece.\<close>

fun splitOn :: "char \<Rightarrow> string \<Rightarrow> string list" where
  "splitOn sep [] = [[]]"
| "splitOn sep (c # cs) = (if c = sep then [] # splitOn sep cs
     else (case splitOn sep cs of [] \<Rightarrow> [[c]] | p # ps \<Rightarrow> (c # p) # ps))"

text \<open>\<open>SplitN(s, sep, 2)\<close>: at most two pieces.\<close>

fun splitTwo :: "char \<Rightarrow> string \<Rightarrow> string list" where
  "splitTwo sep [] = [[]]"
| "splitTwo sep (c # cs) = (if c = sep then [[], cs]
     else (case splitTwo sep cs of [] \<Rightarrow> [[c]] | p # ps \<Rightarrow> (c # p) # ps))"

text \<open>\<open>TrimSpace\<close> takes Unicode white space off both ends; these are the encodings of its characters.\<close>

definition goSpaces :: "string list" where
  "goSpaces = map (map char_of) ([[9], [10], [11], [12], [13], [32], [194, 133], [194, 160], [225, 154, 128],
     [226, 128, 168], [226, 128, 169], [226, 128, 175], [226, 129, 159], [227, 128, 128]]
     @ map (\<lambda>k. [226, 128, 128 + k]) [0..<11] :: nat list list)"

definition strip_prefix :: "string list \<Rightarrow> string \<Rightarrow> string option" where
  "strip_prefix ps s = map_option (\<lambda>p. drop (length p) s) (find (\<lambda>p. p \<noteq> [] \<and> take (length p) s = p) ps)"

lemma strip_prefix_shorter:
  assumes "strip_prefix ps s = Some t"
  shows "length t < length s"
proof -
  obtain p where p: "find (\<lambda>p. p \<noteq> [] \<and> take (length p) s = p) ps = Some p" and t: "t = drop (length p) s"
    using assms by (auto simp: strip_prefix_def)
  have "p \<noteq> []" "take (length p) s = p" using p by (auto simp: find_Some_iff)
  then have "s \<noteq> []" by auto
  with \<open>p \<noteq> []\<close> show ?thesis by (simp add: t)
qed

function trimLeft :: "string list \<Rightarrow> string \<Rightarrow> string" where
  "trimLeft ps s = (case strip_prefix ps s of None \<Rightarrow> s | Some t \<Rightarrow> trimLeft ps t)"
  by pat_completeness auto

termination by (relation "measure (length \<circ> snd)") (simp_all add: strip_prefix_shorter)

declare trimLeft.simps [simp del]

definition trimSpace :: "string \<Rightarrow> string" where
  "trimSpace s = rev (trimLeft (map rev goSpaces) (rev (trimLeft goSpaces s)))"

section \<open>Formatting\<close>

text \<open>A number with \<open>k\<close> decimals, correctly rounded, ties to even.\<close>

definition pad_left :: "nat \<Rightarrow> string \<Rightarrow> string" where
  "pad_left k s = replicate (k - length s) (CHR ''0'') @ s"

definition fmt_fixed :: "nat \<Rightarrow> rat \<Rightarrow> string" where
  "fmt_fixed k x = (let n = nat (round_half_even (\<bar>x\<bar> * 10 ^ k))
     in (if x < 0 then ''-'' else []) @ show_nat (n div 10 ^ k)
        @ (if k = 0 then [] else CHR ''.'' # pad_left k (show_nat (n mod 10 ^ k))))"

fun fmt_f2 :: "float64 \<Rightarrow> string" where
  "fmt_f2 (Finite x) = fmt_fixed 2 x"
| "fmt_f2 PosInf = ''+Inf''"
| "fmt_f2 NegInf = ''-Inf''"
| "fmt_f2 NaN = ''NaN''"

definition hex_digit :: "nat \<Rightarrow> char" where
  "hex_digit d = (if d < 10 then char_of (48 + d) else char_of (87 + d))"

definition fmt_hex :: "byte list \<Rightarrow> string" where
  "fmt_hex bs = concat (map (\<lambda>b. [hex_digit (unat b div 16), hex_digit (unat b mod 16)]) bs)"

section \<open>ParseFloat\<close>

definition hex_digit_of :: "char \<Rightarrow> nat option" where
  "hex_digit_of c = (case digit_of c of Some d \<Rightarrow> Some d
     | None \<Rightarrow> (let k = (of_char (lower_char c) :: nat) in if 97 \<le> k \<and> k \<le> 102 then Some (k - 87) else None))"

text \<open>The digits of the mantissa: their number so far, how many came after the point, whether there was
  a point, a digit, an underscore, and what is left.\<close>

record mantissa =
  m_value :: int
  m_frac :: nat
  m_dot :: bool
  m_digits :: bool
  m_under :: bool

fun scan_mantissa :: "bool \<Rightarrow> mantissa \<Rightarrow> string \<Rightarrow> mantissa \<times> string" where
  "scan_mantissa hex m [] = (m, [])"
| "scan_mantissa hex m (c # cs) =
     (if c = CHR ''_'' then scan_mantissa hex (m\<lparr>m_under := True\<rparr>) cs
      else if c = CHR ''.'' then (if m_dot m then (m, c # cs) else scan_mantissa hex (m\<lparr>m_dot := True\<rparr>) cs)
      else (case (if hex then hex_digit_of c else digit_of c) of
          None \<Rightarrow> (m, c # cs)
        | Some d \<Rightarrow> scan_mantissa hex (m\<lparr>m_value := m_value m * (if hex then 16 else 10) + int d,
            m_frac := m_frac m + (if m_dot m then 1 else 0), m_digits := True\<rparr>) cs))"

text \<open>The exponent, which stops growing beyond ten thousand.\<close>

fun scan_exponent :: "nat \<Rightarrow> bool \<Rightarrow> string \<Rightarrow> nat \<times> bool \<times> string" where
  "scan_exponent e u [] = (e, u, [])"
| "scan_exponent e u (c # cs) =
     (if c = CHR ''_'' then scan_exponent e True cs
      else (case digit_of c of None \<Rightarrow> (e, u, c # cs)
        | Some d \<Rightarrow> scan_exponent (if e < 10000 then e * 10 + d else e) u cs))"

text \<open>Underscores stand only between digits, or between the base prefix and a digit. The last
  character seen was a digit, an underscore or something else.\<close>

datatype seen = SawDigit | SawUnder | SawOther

fun under_scan :: "bool \<Rightarrow> seen \<Rightarrow> string \<Rightarrow> bool" where
  "under_scan hex saw [] = (saw \<noteq> SawUnder)"
| "under_scan hex saw (c # cs) =
     (if (if hex then hex_digit_of c else digit_of c) \<noteq> None then under_scan hex SawDigit cs
      else if c = CHR ''_'' then saw = SawDigit \<and> under_scan hex SawUnder cs
      else saw \<noteq> SawUnder \<and> under_scan hex SawOther cs)"

definition drop_sign :: "string \<Rightarrow> string" where
  "drop_sign s = (if s \<noteq> [] \<and> (hd s = CHR ''-'' \<or> hd s = CHR ''+'') then tl s else s)"

definition underscoreOK :: "string \<Rightarrow> bool" where
  "underscoreOK s =
     (let b = drop_sign s;
          letter = (if 2 \<le> length b \<and> b ! 0 = CHR ''0'' then lower_char (b ! 1) else CHR '' '')
      in if letter = CHR ''b'' \<or> letter = CHR ''o'' \<or> letter = CHR ''x''
         then under_scan (letter = CHR ''x'') SawDigit (drop 2 b) else under_scan False SawOther b)"

definition rat_power :: "nat \<Rightarrow> int \<Rightarrow> rat" where
  "rat_power b e = (if 0 \<le> e then of_nat b ^ nat e else 1 / of_nat b ^ nat (- e))"

text \<open>\<open>readFloat\<close> of a whole string: the exact value, or \<open>None\<close> for a syntax error. A hexadecimal mantissa
  needs an exponent, which is a power of two.\<close>

definition readFloat :: "string \<Rightarrow> rat option" where
  "readFloat s =
     (let b = drop_sign s;
          hex = (2 < length b \<and> b ! 0 = CHR ''0'' \<and> lower_char (b ! 1) = CHR ''x'');
          (m, rest) = scan_mantissa hex \<lparr>m_value = 0, m_frac = 0, m_dot = False, m_digits = False, m_under = False\<rparr>
             (if hex then drop 2 b else b);
          sign = (if s \<noteq> [] \<and> hd s = CHR ''-'' then - 1 else 1);
          base = (if hex then 2 else 10);
          frac = int (m_frac m) * (if hex then 4 else 1)
      in if \<not> m_digits m then None
         else if rest \<noteq> [] \<and> lower_char (hd rest) = (if hex then CHR ''p'' else CHR ''e'')
         then (let r = tl rest; esign = (if r \<noteq> [] \<and> hd r = CHR ''-'' then - 1 else 1); r1 = drop_sign r
               in if r1 = [] \<or> digit_of (hd r1) = None then None
                  else (let (e, u, rest') = scan_exponent 0 (m_under m) r1
                        in if rest' \<noteq> [] \<or> u \<and> \<not> underscoreOK s then None
                           else Some (sign * of_int (m_value m) * rat_power base (esign * int e - frac))))
         else if hex \<or> rest \<noteq> [] \<or> m_under m \<and> \<not> underscoreOK s then None
         else Some (sign * of_int (m_value m) * rat_power base (- frac)))"

text \<open>\<open>ParseFloat(s, 64)\<close>: infinities and NaN by name, otherwise the nearest \<open>float64\<close>; a value that
  rounds to an infinity is a range error.\<close>

definition parseFloat :: "string \<Rightarrow> parseError + float64" where
  "parseFloat s =
     (let l = toLower (drop_sign s)
      in if l = ''inf'' \<or> l = ''infinity'' then Inr (if hd s = CHR ''-'' then NegInf else PosInf)
         else if toLower s = ''nan'' then Inr NaN
         else (case readFloat s of
             None \<Rightarrow> Inl ErrSyntax
           | Some x \<Rightarrow> (let f = f64_of_rat x in if f = PosInf \<or> f = NegInf then Inl ErrRange else Inr f)))"

section \<open>ParseDuration\<close>

text \<open>\<open>time.ParseDuration\<close>: a sign, then numbers with a unit each. The sum is an \<open>uint64\<close>. The places behind
  a point count as far as they fit an \<open>int64\<close>, with \<open>float64\<close> arithmetic.\<close>

fun leadingInt :: "int \<Rightarrow> string \<Rightarrow> (int \<times> string) option" where
  "leadingInt x [] = Some (x, [])"
| "leadingInt x (c # cs) = (case digit_of c of
     None \<Rightarrow> Some (x, c # cs)
   | Some d \<Rightarrow> if 2 ^ 63 div 10 < x \<or> 2 ^ 63 < x * 10 + int d then None else leadingInt (x * 10 + int d) cs)"

fun leadingFraction :: "int \<Rightarrow> nat \<Rightarrow> bool \<Rightarrow> string \<Rightarrow> int \<times> nat \<times> string" where
  "leadingFraction x k overflow [] = (x, k, [])"
| "leadingFraction x k overflow (c # cs) = (case digit_of c of
     None \<Rightarrow> (x, k, c # cs)
   | Some d \<Rightarrow> if overflow \<or> (2 ^ 63 - 1) div 10 < x \<or> 2 ^ 63 < x * 10 + int d then leadingFraction x k True cs
       else leadingFraction (x * 10 + int d) (Suc k) False cs)"

definition durationUnit :: "string \<Rightarrow> int option" where
  "durationUnit u =
     (if u = ''ns'' then Some 1
      else if u = ''us'' \<or> u = map char_of [194, 181, 115 :: nat] \<or> u = map char_of [206, 188, 115 :: nat] then Some (10 ^ 3)
      else if u = ''ms'' then Some (10 ^ 6) else if u = ''s'' then Some (10 ^ 9)
      else if u = ''m'' then Some (60 * 10 ^ 9) else if u = ''h'' then Some (3600 * 10 ^ 9) else None)"

definition fractionOf :: "int \<Rightarrow> nat \<Rightarrow> int \<Rightarrow> int" where
  "fractionOf f k unit =
     (case f64_mul (f64_of_rat (of_int f)) (f64_of_rat (of_int unit / 10 ^ k)) of Finite x \<Rightarrow> \<lfloor>x\<rfloor> | _ \<Rightarrow> 0)"

definition inUnit :: "char \<Rightarrow> bool" where
  "inUnit c \<longleftrightarrow> c \<noteq> CHR ''.'' \<and> digit_of c = None"

text \<open>One number with its unit: the new sum and what is left.\<close>

definition durationStep :: "int \<Rightarrow> string \<Rightarrow> (int \<times> string) option" where
  "durationStep d s =
     (if inUnit (hd s) then None
      else case leadingInt 0 s of
          None \<Rightarrow> None
        | Some (v, s1) \<Rightarrow>
            (let (f, k, s2) = (if s1 \<noteq> [] \<and> hd s1 = CHR ''.'' then leadingFraction 0 0 False (tl s1) else (0, 0, s1));
                 pre = (length s1 \<noteq> length s);
                 post = (s1 \<noteq> [] \<and> hd s1 = CHR ''.'' \<and> length s2 \<noteq> length (tl s1));
                 u = takeWhile inUnit s2
             in if \<not> pre \<and> \<not> post \<or> u = [] then None
                else (case durationUnit u of
                    None \<Rightarrow> None
                  | Some unit \<Rightarrow>
                      if 2 ^ 63 div unit < v then None
                      else let v' = v * unit + (if 0 < f then fractionOf f k unit else 0); d' = (d + v') mod 2 ^ 64
                           in if 2 ^ 63 < v' \<or> 2 ^ 63 < d' then None else Some (d', dropWhile inUnit s2))))"

lemma leadingInt_length: "leadingInt x s = Some (v, s1) \<Longrightarrow> length s1 \<le> length s"
  by (induction x s rule: leadingInt.induct) (auto split: option.splits if_splits)

lemma leadingFraction_length: "leadingFraction x k b s = (f, k', s2) \<Longrightarrow> length s2 \<le> length s"
  by (induction x k b s rule: leadingFraction.induct) (auto split: option.splits if_splits)

lemma dropWhile_shorter: "takeWhile P s \<noteq> [] \<Longrightarrow> length (dropWhile P s) < length s"
  by (cases s) (auto simp: le_imp_less_Suc length_dropWhile_le split: if_splits)

lemma durationStep_shorter:
  assumes "durationStep d s = Some (d', s')"
  shows "length s' < length s"
proof -
  obtain v s1 where l: "leadingInt 0 s = Some (v, s1)" using assms by (auto simp: durationStep_def split: if_splits option.splits)
  obtain f k s2 where f: "(if s1 \<noteq> [] \<and> hd s1 = CHR ''.'' then leadingFraction 0 0 False (tl s1) else (0, 0, s1)) = (f, k, s2)"
    by (metis surj_pair)
  have "length s2 \<le> length s1" using f leadingFraction_length [of 0 0 False "tl s1" f k s2] by (auto split: if_splits)
  moreover have "s' = dropWhile inUnit s2 \<and> takeWhile inUnit s2 \<noteq> []"
    using assms l f by (auto simp: durationStep_def Let_def split: if_splits option.splits)
  ultimately show ?thesis using dropWhile_shorter [of inUnit s2] leadingInt_length [OF l] by fastforce
qed

function durationSum :: "int \<Rightarrow> string \<Rightarrow> int option" where
  "durationSum d s =
     (if s = [] then Some d else case durationStep d s of None \<Rightarrow> None | Some (d', s') \<Rightarrow> durationSum d' s')"
  by pat_completeness auto

termination
proof (relation "measure (length \<circ> snd)")
  fix d s x d' s'
  assume "durationStep d s = Some x" and "(d', s') = x"
  then show "((d', s'), d, s) \<in> measure (length \<circ> snd)" using durationStep_shorter by fastforce
qed simp

declare durationSum.simps [simp del]

definition parseDuration :: "string \<Rightarrow> int option" where
  "parseDuration s =
     (let neg = (s \<noteq> [] \<and> hd s = CHR ''-''); b = drop_sign s
      in if b = ''0'' then Some 0
         else if b = '''' then None
         else (case durationSum 0 b of
             None \<Rightarrow> None
           | Some d \<Rightarrow> if neg then Some (- d) else if 2 ^ 63 - 1 < d then None else Some d))"

end
