(* ===== verification/Infra.thy ===== *)
theory Infra
  imports GoText ChainTypes
begin

text \<open>
  The connections of the programs: \<open>internal/common/config\<close>, the chain client of \<open>internal/chain/evm\<close>, the adapters
  of \<open>cmd/indexer\<close>, and the clients of \<open>internal/infra\<close>.

  The libraries that hold connections are parameters over a state \<open>'w\<close> of the world; a connection is a
  number. What the theory is about is which connection a call uses, and which are closed again.
\<close>

section \<open>Configuration\<close>

record databaseConfig =
  db_host :: string
  db_port :: i64
  db_user :: string
  db_password :: string
  db_dbName :: string
  db_maxOpenConns :: i64
  db_maxIdleConns :: i64
  db_connMaxLifetime :: string

record redisConfig =
  rd_addr :: string
  rd_password :: string
  rd_db :: i64

record chainConfig =
  cc_name :: string
  cc_chainID :: i64
  cc_rpcURLs :: "string list"
  cc_wsURL :: string
  cc_blockTime :: i64
  cc_confirmations :: i64
  cc_lendingPool :: string

record serverConfig =
  sv_host :: string
  sv_port :: i64

record kafkaTopicsConfig =
  kt_chainEvents :: string
  kt_priceUpdates :: string
  kt_notifications :: string

record kafkaConfig =
  kf_brokers :: "string list"
  kf_topics :: kafkaTopicsConfig

record logConfig =
  lc_level :: string
  lc_format :: string

record config =
  cf_server :: serverConfig
  cf_database :: databaseConfig
  cf_redis :: redisConfig
  cf_kafka :: kafkaConfig
  cf_chains :: "chainConfig list"
  cf_log :: logConfig

text \<open>\<open>Load\<close>. How viper reads the file and the environment with these settings is viper's.\<close>

record viperSettings =
  vs_configFile :: string
  vs_envPrefix :: string
  vs_envKeyReplacer :: "(string \<times> string) list"
  vs_automaticEnv :: bool

record 'v viperLib =
  readInConfig :: "viperSettings \<Rightarrow> err + 'v"
  unmarshalConfig :: "'v \<Rightarrow> err + config"

definition loadConfig :: "'v viperLib \<Rightarrow> string \<Rightarrow> err + config" where
  "loadConfig lib configPath =
     (case readInConfig lib \<lparr>vs_configFile = configPath, vs_envPrefix = ''DEFI'', vs_envKeyReplacer = [(''.'', ''_'')],
        vs_automaticEnv = True\<rparr> of
        Inl e \<Rightarrow> Inl (''read config file: '' @ e)
      | Inr v \<Rightarrow>
          (case unmarshalConfig lib v of
             Inl e \<Rightarrow> Inl (''unmarshal config: '' @ e)
           | Inr conf \<Rightarrow> Inr conf))"

text \<open>\<open>logger.New\<close>: the options it sets; an unknown level is replaced by the default one.\<close>

record 'lvl loggerOptions =
  lo_console :: bool
  lo_level :: 'lvl
  lo_timestamp :: bool
  lo_caller :: bool

definition newLogger :: "(string \<Rightarrow> err + 'lvl) \<Rightarrow> 'lvl \<Rightarrow> string \<Rightarrow> string \<Rightarrow> 'lvl loggerOptions" where
  "newLogger parseLevel infoLevel level format =
     \<lparr>lo_console = (format = ''console''), lo_level = (case parseLevel level of Inl _ \<Rightarrow> infoLevel | Inr lvl \<Rightarrow> lvl),
      lo_timestamp = True, lo_caller = True\<rparr>"

definition dsn :: "databaseConfig \<Rightarrow> string" where
  "dsn d = ''postgres://'' @ db_user d @ '':'' @ db_password d @ ''@'' @ db_host d @ '':'' @ show_int (sint (db_port d))
     @ ''/'' @ db_dbName d @ ''?sslmode=disable''"

definition connMaxLifetimeDuration :: "databaseConfig \<Rightarrow> int" where
  "connMaxLifetimeDuration d = (case parseDuration (db_connMaxLifetime d) of None \<Rightarrow> 5 * 60 * 10 ^ 9 | Some dur \<Rightarrow> dur)"

section \<open>The chain client\<close>

text \<open>What is asked of a node; \<open>'q\<close> stands for go-ethereum's queries, messages and transactions.\<close>

datatype 'q rpcRequest =
    BlockNumber
  | HeaderByNumber "int option"
  | FilterLogsReq 'q
  | CallContractReq 'q "int option"
  | SendTransactionReq 'q
  | SuggestGasPriceReq
  | PendingNonceAtReq address
  | SubscribeNewHeadReq nat

type_synonym conn = nat

record ('w, 'q, 'a) rpcLib =
  dial :: "string \<Rightarrow> 'w \<Rightarrow> (err + conn) \<times> 'w"
  closeConn :: "conn \<Rightarrow> 'w \<Rightarrow> 'w"
  rpcCall :: "conn \<Rightarrow> 'q rpcRequest \<Rightarrow> 'w \<Rightarrow> (err + 'a) \<times> 'w"

record evmClient =
  ec_chainID :: chainId
  ec_http :: conn
  ec_ws :: "conn option"
  ec_cfg :: chainConfig

definition newClient :: "('w, 'q, 'a) rpcLib \<Rightarrow> chainConfig \<Rightarrow> 'w \<Rightarrow> (err + evmClient) \<times> 'w" where
  "newClient lib conf w =
     (case cc_rpcURLs conf of
        [] \<Rightarrow> (Inl (''no RPC URLs configured for chain '' @ cc_name conf), w)
      | url # _ \<Rightarrow>
          (case dial lib url w of
             (Inl e, w1) \<Rightarrow> (Inl (''dial http rpc '' @ url @ '': '' @ e), w1)
           | (Inr http, w1) \<Rightarrow>
               if cc_wsURL conf = ''''
               then (Inr \<lparr>ec_chainID = cc_chainID conf, ec_http = http, ec_ws = None, ec_cfg = conf\<rparr>, w1)
               else (case dial lib (cc_wsURL conf) w1 of
                       (Inl e, w2) \<Rightarrow> (Inl (''dial ws rpc '' @ cc_wsURL conf @ '': '' @ e), closeConn lib http w2)
                     | (Inr ws, w2) \<Rightarrow>
                         (Inr \<lparr>ec_chainID = cc_chainID conf, ec_http = http, ec_ws = Some ws, ec_cfg = conf\<rparr>, w2))))"

definition latestBlockNumber :: "('w, 'q, 'a) rpcLib \<Rightarrow> evmClient \<Rightarrow> 'w \<Rightarrow> (err + 'a) \<times> 'w" where
  "latestBlockNumber lib c = rpcCall lib (ec_http c) BlockNumber"

definition blockByNumber :: "('w, 'q, 'a) rpcLib \<Rightarrow> evmClient \<Rightarrow> int option \<Rightarrow> 'w \<Rightarrow> (err + 'a) \<times> 'w" where
  "blockByNumber lib c number = rpcCall lib (ec_http c) (HeaderByNumber number)"

definition clientFilterLogs :: "('w, 'q, 'a) rpcLib \<Rightarrow> evmClient \<Rightarrow> 'q \<Rightarrow> 'w \<Rightarrow> (err + 'a) \<times> 'w" where
  "clientFilterLogs lib c q = rpcCall lib (ec_http c) (FilterLogsReq q)"

definition clientCallContract :: "('w, 'q, 'a) rpcLib \<Rightarrow> evmClient \<Rightarrow> 'q \<Rightarrow> int option \<Rightarrow> 'w \<Rightarrow> (err + 'a) \<times> 'w" where
  "clientCallContract lib c msg number = rpcCall lib (ec_http c) (CallContractReq msg number)"

definition clientSendTransaction :: "('w, 'q, 'a) rpcLib \<Rightarrow> evmClient \<Rightarrow> 'q \<Rightarrow> 'w \<Rightarrow> (err + 'a) \<times> 'w" where
  "clientSendTransaction lib c tx = rpcCall lib (ec_http c) (SendTransactionReq tx)"

definition clientSuggestGasPrice :: "('w, 'q, 'a) rpcLib \<Rightarrow> evmClient \<Rightarrow> 'w \<Rightarrow> (err + 'a) \<times> 'w" where
  "clientSuggestGasPrice lib c = rpcCall lib (ec_http c) SuggestGasPriceReq"

definition clientPendingNonceAt :: "('w, 'q, 'a) rpcLib \<Rightarrow> evmClient \<Rightarrow> address \<Rightarrow> 'w \<Rightarrow> (err + 'a) \<times> 'w" where
  "clientPendingNonceAt lib c addr = rpcCall lib (ec_http c) (PendingNonceAtReq addr)"

text \<open>The channel of the subscription holds 16 headers.\<close>

definition subscribeNewHead :: "('w, 'q, 'a) rpcLib \<Rightarrow> evmClient \<Rightarrow> 'w \<Rightarrow> (err + 'a) \<times> 'w" where
  "subscribeNewHead lib c w =
     (case ec_ws c of
        None \<Rightarrow> (Inl (''no WebSocket client configured for chain '' @ show_int (sint (ec_chainID c))), w)
      | Some ws \<Rightarrow>
          (case rpcCall lib ws (SubscribeNewHeadReq 16) w of
             (Inl e, w1) \<Rightarrow> (Inl (''subscribe new head: '' @ e), w1)
           | (Inr sub, w1) \<Rightarrow> (Inr sub, w1)))"

definition closeClient :: "('w, 'q, 'a) rpcLib \<Rightarrow> evmClient \<Rightarrow> 'w \<Rightarrow> 'w" where
  "closeClient lib c w =
     (let w1 = closeConn lib (ec_http c) w in case ec_ws c of None \<Rightarrow> w1 | Some ws \<Rightarrow> closeConn lib ws w1)"

text \<open>The interface \<open>ChainAdapter\<close>, and the client as one: the rest of the program sees a chain through it.\<close>

record ('w, 'q, 'a) chainAdapter =
  ca_chainID :: chainId
  ca_latestBlockNumber :: "'w \<Rightarrow> (err + 'a) \<times> 'w"
  ca_blockByNumber :: "int option \<Rightarrow> 'w \<Rightarrow> (err + 'a) \<times> 'w"
  ca_subscribeNewHead :: "'w \<Rightarrow> (err + 'a) \<times> 'w"
  ca_filterLogs :: "'q \<Rightarrow> 'w \<Rightarrow> (err + 'a) \<times> 'w"
  ca_callContract :: "'q \<Rightarrow> int option \<Rightarrow> 'w \<Rightarrow> (err + 'a) \<times> 'w"
  ca_sendTransaction :: "'q \<Rightarrow> 'w \<Rightarrow> (err + 'a) \<times> 'w"
  ca_suggestGasPrice :: "'w \<Rightarrow> (err + 'a) \<times> 'w"
  ca_pendingNonceAt :: "address \<Rightarrow> 'w \<Rightarrow> (err + 'a) \<times> 'w"
  ca_close :: "'w \<Rightarrow> 'w"

definition clientChainID :: "evmClient \<Rightarrow> chainId" where
  "clientChainID c = ec_chainID c"

definition evmAdapter :: "('w, 'q, 'a) rpcLib \<Rightarrow> evmClient \<Rightarrow> ('w, 'q, 'a) chainAdapter" where
  "evmAdapter lib c = \<lparr>ca_chainID = clientChainID c, ca_latestBlockNumber = latestBlockNumber lib c,
     ca_blockByNumber = blockByNumber lib c, ca_subscribeNewHead = subscribeNewHead lib c,
     ca_filterLogs = clientFilterLogs lib c, ca_callContract = clientCallContract lib c,
     ca_sendTransaction = clientSendTransaction lib c, ca_suggestGasPrice = clientSuggestGasPrice lib c,
     ca_pendingNonceAt = clientPendingNonceAt lib c, ca_close = closeClient lib c\<rparr>"

text \<open>\<open>cmd/indexer\<close>: a client for each configured chain, by its identifier; the program ends when one cannot be
  made. On the way out every client of the map is closed, in some order.\<close>

fun buildAdapters :: "('w, 'q, 'a) rpcLib \<Rightarrow> chainConfig list \<Rightarrow> (chainId, evmClient) fmap \<Rightarrow> 'w
    \<Rightarrow> (err + (chainId, evmClient) fmap) \<times> 'w" where
  "buildAdapters lib [] adapters w = (Inr adapters, w)"
| "buildAdapters lib (conf # cs) adapters w =
     (case newClient lib conf w of
        (Inl e, w1) \<Rightarrow> (Inl e, w1)
      | (Inr c, w1) \<Rightarrow> buildAdapters lib cs (fmupd (cc_chainID conf) c adapters) w1)"

definition closeAdapters :: "('w, 'q, 'a) rpcLib \<Rightarrow> evmClient list \<Rightarrow> 'w \<Rightarrow> 'w" where
  "closeAdapters lib cs w = foldl (\<lambda>w c. closeClient lib c w) w cs"

section \<open>Database, cache and message queue\<close>

text \<open>\<open>int32(n)\<close> keeps the low 32 bits.\<close>

record poolConfig =
  pc_dsn :: string
  pc_maxConns :: "32 word"
  pc_minConns :: "32 word"
  pc_maxConnLifetime :: int

record 'w pgLib =
  parsePoolConfig :: "string \<Rightarrow> err + poolConfig"
  newPool :: "poolConfig \<Rightarrow> 'w \<Rightarrow> (err + conn) \<times> 'w"
  pingPool :: "conn \<Rightarrow> 'w \<Rightarrow> err option \<times> 'w"
  closePool :: "conn \<Rightarrow> 'w \<Rightarrow> 'w"

definition newPostgresPool :: "'w pgLib \<Rightarrow> databaseConfig \<Rightarrow> 'w \<Rightarrow> (err + conn) \<times> 'w" where
  "newPostgresPool lib d w =
     (case parsePoolConfig lib (dsn d) of
        Inl e \<Rightarrow> (Inl (''parse postgres dsn: '' @ e), w)
      | Inr pc \<Rightarrow>
          (let poolCfg = pc\<lparr>pc_maxConns := ucast (db_maxOpenConns d), pc_minConns := ucast (db_maxIdleConns d),
                 pc_maxConnLifetime := connMaxLifetimeDuration d\<rparr> in
           case newPool lib poolCfg w of
             (Inl e, w1) \<Rightarrow> (Inl (''create postgres pool: '' @ e), w1)
           | (Inr pool, w1) \<Rightarrow>
               (case pingPool lib pool w1 of
                  (Some e, w2) \<Rightarrow> (Inl (''ping postgres: '' @ e), closePool lib pool w2)
                | (None, w2) \<Rightarrow> (Inr pool, w2))))"

record 'w redisLib =
  redisClientFor :: "redisConfig \<Rightarrow> 'w \<Rightarrow> conn \<times> 'w"
  pingRedis :: "conn \<Rightarrow> 'w \<Rightarrow> err option \<times> 'w"

definition newRedisClient :: "'w redisLib \<Rightarrow> redisConfig \<Rightarrow> 'w \<Rightarrow> (err + conn) \<times> 'w" where
  "newRedisClient lib conf w =
     (let (client, w1) = redisClientFor lib conf w in
      case pingRedis lib client w1 of
        (Some e, w2) \<Rightarrow> (Inl (''ping redis: '' @ e), w2)
      | (None, w2) \<Rightarrow> (Inr client, w2))"

text \<open>The options of the Kafka clients; times are in nanoseconds.\<close>

datatype kafkaBalancer = LeastBytes
datatype kafkaAcks = RequireNone | RequireOne | RequireAll

record producer =
  kw_addr :: "string list"
  kw_topic :: string
  kw_balancer :: kafkaBalancer
  kw_batchTimeout :: int
  kw_requiredAcks :: kafkaAcks

record kafkaConsumer =
  kr_brokers :: "string list"
  kr_topic :: string
  kr_groupID :: string
  kr_minBytes :: int
  kr_maxBytes :: int
  kr_commitInterval :: int

definition newProducer :: "kafkaConfig \<Rightarrow> string \<Rightarrow> producer" where
  "newProducer conf topic = \<lparr>kw_addr = kf_brokers conf, kw_topic = topic, kw_balancer = LeastBytes,
     kw_batchTimeout = 10 * 10 ^ 6, kw_requiredAcks = RequireOne\<rparr>"

definition newConsumer :: "kafkaConfig \<Rightarrow> string \<Rightarrow> string \<Rightarrow> kafkaConsumer" where
  "newConsumer conf topic groupID = \<lparr>kr_brokers = kf_brokers conf, kr_topic = topic, kr_groupID = groupID,
     kr_minBytes = 1, kr_maxBytes = 10 ^ 7, kr_commitInterval = 10 ^ 9\<rparr>"

text \<open>A message has the bytes of its key and of the value in JSON.\<close>

definition publishMessage :: "('v \<Rightarrow> err + string) \<Rightarrow> (string \<times> string \<Rightarrow> 'w \<Rightarrow> err option \<times> 'w) \<Rightarrow> string \<Rightarrow> 'v \<Rightarrow> 'w \<Rightarrow> err option \<times> 'w" where
  "publishMessage marshal writeMessages key val w =
     (case marshal val of
        Inl e \<Rightarrow> (Some (''marshal kafka message: '' @ e), w)
      | Inr data \<Rightarrow>
          (case writeMessages (key, data) w of
             (Some e, w1) \<Rightarrow> (Some (''write kafka message: '' @ e), w1)
           | (None, w1) \<Rightarrow> (None, w1)))"

text \<open>What else the clients are used for is handed to the library's writer and reader.\<close>

record ('m, 'w) kafkaLib =
  readMessage :: "kafkaConsumer \<Rightarrow> 'w \<Rightarrow> (err + 'm) \<times> 'w"
  closeWriter :: "producer \<Rightarrow> 'w \<Rightarrow> err option \<times> 'w"
  closeReader :: "kafkaConsumer \<Rightarrow> 'w \<Rightarrow> err option \<times> 'w"

definition closeProducer :: "('m, 'w) kafkaLib \<Rightarrow> producer \<Rightarrow> 'w \<Rightarrow> err option \<times> 'w" where
  "closeProducer lib p w = closeWriter lib p w"

definition consumerRead :: "('m, 'w) kafkaLib \<Rightarrow> kafkaConsumer \<Rightarrow> 'w \<Rightarrow> (err + 'm) \<times> 'w" where
  "consumerRead lib c w = readMessage lib c w"

definition closeConsumer :: "('m, 'w) kafkaLib \<Rightarrow> kafkaConsumer \<Rightarrow> 'w \<Rightarrow> err option \<times> 'w" where
  "closeConsumer lib c w = closeReader lib c w"

section \<open>Connections and what happens to them\<close>

text \<open>Of a library of connections: an open one is fresh, a failed attempt leaves none behind, closing closes.\<close>

definition conn_ok :: "('w, 'q, 'a) rpcLib \<Rightarrow> ('w \<Rightarrow> conn set) \<Rightarrow> bool" where
  "conn_ok lib opened \<longleftrightarrow>
     (\<forall>url w e w'. dial lib url w = (Inl e, w') \<longrightarrow> opened w' = opened w)
     \<and> (\<forall>url w c w'. dial lib url w = (Inr c, w') \<longrightarrow> c \<notin> opened w \<and> opened w' = insert c (opened w))
     \<and> (\<forall>c w. opened (closeConn lib c w) = opened w - {c})"

definition connsOf :: "evmClient \<Rightarrow> conn set" where
  "connsOf c = insert (ec_http c) (set_option (ec_ws c))"

lemma newClient_conns:
  assumes "conn_ok lib opened" and "newClient lib conf w = (r, w')"
  shows "case r of Inl e \<Rightarrow> opened w' = opened w
    | Inr c \<Rightarrow> opened w' = opened w \<union> connsOf c \<and> connsOf c \<inter> opened w = {}"
proof (cases "cc_rpcURLs conf")
  case (Cons url us)
  obtain r1 w1 where d1: "dial lib url w = (r1, w1)" by fastforce
  show ?thesis
  proof (cases r1)
    case (Inl e)
    then show ?thesis using assms d1 Cons by (auto simp: newClient_def conn_ok_def)
  next
    case (Inr http)
    have o1: "http \<notin> opened w" "opened w1 = insert http (opened w)" using assms(1) d1 Inr by (auto simp: conn_ok_def)
    obtain r2 w2 where d2: "dial lib (cc_wsURL conf) w1 = (r2, w2)" by fastforce
    show ?thesis
    proof (cases r2)
      case l: (Inl e)
      have "opened w2 = opened w1" "opened (closeConn lib http w2) = opened w2 - {http}"
        using assms(1) d2 l by (simp_all add: conn_ok_def)
      then show ?thesis using assms(2) d1 d2 Cons Inr l o1
        by (cases "cc_wsURL conf = ''''") (auto simp: newClient_def connsOf_def)
    next
      case r: (Inr ws)
      have "ws \<notin> opened w1" "opened w2 = insert ws (opened w1)" using assms(1) d2 r by (auto simp: conn_ok_def)
      then show ?thesis using assms(2) d1 d2 Cons Inr r o1
        by (cases "cc_wsURL conf = ''''") (auto simp: newClient_def connsOf_def)
    qed
  qed
qed (use assms in \<open>auto simp: newClient_def\<close>)

lemma closeClient_conns: "conn_ok lib opened \<Longrightarrow> opened (closeClient lib c w) = opened w - connsOf c"
  by (auto simp: closeClient_def conn_ok_def connsOf_def Let_def split: option.split)

lemma closeAdapters_conns: "conn_ok lib opened \<Longrightarrow> opened (closeAdapters lib cs w) = opened w - (\<Union>c\<in>set cs. connsOf c)"
  by (induction cs arbitrary: w) (auto simp: closeAdapters_def closeClient_conns)

definition connsOfAll :: "(chainId, evmClient) fmap \<Rightarrow> conn set" where
  "connsOfAll m = (\<Union>c\<in>fmran' m. connsOf c)"

lemma connsOfAll_upd: "k |\<notin>| fmdom m \<Longrightarrow> connsOfAll (fmupd k c m) = connsOf c \<union> connsOfAll m"
proof -
  assume "k |\<notin>| fmdom m"
  then have "fmran' (fmupd k c m) = insert c (fmran' m)"
    by (auto simp: fmlookup_ran'_iff fmdom_notD split: if_splits) (metis fmdom_notD option.distinct(1))
  then show ?thesis by (simp add: connsOfAll_def)
qed

lemma connsOfAll_empty [simp]: "connsOfAll fmempty = {}"
  by (auto simp: connsOfAll_def fmlookup_ran'_iff)

lemma buildAdapters_conns:
  assumes "conn_ok lib opened" and "buildAdapters lib cs m w = (Inr m', w')" and "distinct (map cc_chainID cs)"
    and "\<forall>conf\<in>set cs. cc_chainID conf |\<notin>| fmdom m" and "opened w = before \<union> connsOfAll m" and "connsOfAll m \<inter> before = {}"
  shows "opened w' = before \<union> connsOfAll m' \<and> connsOfAll m' \<inter> before = {}"
  using assms(2-6)
proof (induction cs arbitrary: m w)
  case (Cons conf cs)
  obtain r w1 where n: "newClient lib conf w = (r, w1)" by fastforce
  with Cons.prems(1) obtain c where r: "r = Inr c" by (cases r) auto
  have b: "buildAdapters lib cs (fmupd (cc_chainID conf) c m) w1 = (Inr m', w')" using Cons.prems(1) n r by simp
  have o: "opened w1 = opened w \<union> connsOf c" "connsOf c \<inter> opened w = {}" using newClient_conns [OF assms(1) n] r by simp_all
  have u: "connsOfAll (fmupd (cc_chainID conf) c m) = connsOf c \<union> connsOfAll m" using Cons.prems(3) by (simp add: connsOfAll_upd)
  show ?case
    by (rule Cons.IH [OF b]) (use Cons.prems(2-5) o u in \<open>auto simp: image_iff dest: sym\<close>)
qed simp

section \<open>Properties\<close>

text \<open>No connection of the indexer is left behind. A client that cannot be made, be it for the second
  connection, leaves none open; and with an identifier of its own for every chain, closing the adapters on
  the way out closes every connection that was opened for them, and nothing else.\<close>

theorem adapters_all_closed:
  assumes "conn_ok lib opened" and "distinct (map cc_chainID confs)" and "buildAdapters lib confs fmempty w = (Inr adapters, w1)"
    and "opened w2 = opened w1" and "set cs = fmran' adapters"
  shows "opened (closeAdapters lib cs w2) = opened w
    \<and> (\<forall>conf e w'. newClient lib conf w = (Inl e, w') \<longrightarrow> opened w' = opened w)"
proof -
  have "opened w = opened w \<union> connsOfAll fmempty" "connsOfAll fmempty \<inter> opened w = {}" by simp_all
  from buildAdapters_conns [OF assms(1,3,2) _ this] have "opened w1 = opened w \<union> connsOfAll adapters" "connsOfAll adapters \<inter> opened w = {}"
    by simp_all
  then have "opened (closeAdapters lib cs w2) = opened w"
    using closeAdapters_conns [OF assms(1)] assms(4,5) by (auto simp: connsOfAll_def)
  moreover have "opened w' = opened w" if "newClient lib conf w = (Inl e, w')" for conf e w'
    using newClient_conns [OF assms(1) that] by simp
  ultimately show ?thesis by blast
qed

text \<open>A library that numbers its connections, and refuses the address \<open>down\<close>.\<close>

definition demoDial :: "string \<Rightarrow> conn set \<times> nat \<Rightarrow> (err + conn) \<times> (conn set \<times> nat)" where
  "demoDial url w = (if url = ''down'' then (Inl ''refused'', w) else (Inr (Suc (snd w)), (insert (Suc (snd w)) (fst w), Suc (snd w))))"

definition demoRpc :: "(conn set \<times> nat, unit, unit) rpcLib" where
  "demoRpc = \<lparr>dial = demoDial, closeConn = (\<lambda>c w. (fst w - {c}, snd w)), rpcCall = (\<lambda>c q w. (Inr (), w))\<rparr>"

text \<open>The connections open in a world; numbers beyond the counter are not.\<close>

definition demoOpened :: "conn set \<times> nat \<Rightarrow> conn set" where
  "demoOpened w = {c \<in> fst w. c \<le> snd w}"

lemma demoRpc_ok: "conn_ok demoRpc demoOpened"
  by (auto simp: conn_ok_def demoRpc_def demoDial_def demoOpened_def split: if_splits)

definition demoChain :: "i64 \<Rightarrow> string \<Rightarrow> chainConfig" where
  "demoChain i ws = \<lparr>cc_name = ''c'', cc_chainID = i, cc_rpcURLs = [''http''], cc_wsURL = ws, cc_blockTime = 1, cc_confirmations = 1, cc_lendingPool = []\<rparr>"

theorem adapters_all_closed_witness:
  "\<exists>adapters w1 cs. buildAdapters demoRpc [demoChain 1 ''ws'', demoChain 2 ''''] fmempty ({}, 0) = (Inr adapters, w1)
     \<and> demoOpened w1 = {1, 2, 3} \<and> set cs = fmran' adapters \<and> demoOpened (closeAdapters demoRpc cs w1) = {}"
proof -
  obtain adapters w1 where b: "buildAdapters demoRpc [demoChain 1 ''ws'', demoChain 2 ''''] fmempty ({}, 0) = (Inr adapters, w1)"
      and o: "demoOpened w1 = {1, 2, 3}"
    by (simp add: demoChain_def newClient_def demoRpc_def demoDial_def demoOpened_def) (auto simp: numeral_2_eq_2 numeral_3_eq_3)
  obtain cs where cs: "set cs = fmran' adapters" using finite_list [OF finite_fset, of "fmran adapters"] by (auto simp: fmran'_alt_def)
  have "distinct (map cc_chainID [demoChain 1 ''ws'', demoChain 2 ''''])" by (simp add: demoChain_def)
  from adapters_all_closed [OF demoRpc_ok this b refl cs] have "demoOpened (closeAdapters demoRpc cs w1) = {}"
    by (simp add: demoOpened_def)
  with b o cs show ?thesis by blast
qed

text \<open>With one identifier for two chains the first client is forgotten, and its connections stay open.\<close>

lemma duplicate_chain_leaks:
  assumes "conn_ok lib opened" and "newClient lib a w = (Inr c, w1)" and "cc_chainID b = cc_chainID a"
    and "buildAdapters lib [a, b] fmempty w = (Inr adapters, w2)" and "set cs = fmran' adapters"
  shows "connsOf c \<subseteq> opened (closeAdapters lib cs w2)"
proof -
  obtain r w3 where n: "newClient lib b w1 = (r, w3)" by fastforce
  with assms(2-4) obtain d where r: "r = Inr d" and m: "adapters = fmupd (cc_chainID a) d (fmupd (cc_chainID a) c fmempty)" "w2 = w3"
    by (cases r) auto
  have "fmran' adapters = {d}" by (auto simp: m fmlookup_ran'_iff split: if_splits)
  moreover have "opened w3 = opened w1 \<union> connsOf d" "connsOf d \<inter> opened w1 = {}" "connsOf c \<subseteq> opened w1"
    using newClient_conns [OF assms(1) n] newClient_conns [OF assms(1,2)] r by auto
  ultimately show ?thesis using closeAdapters_conns [OF assms(1), of cs w2] assms(5) m(2) by auto
qed

text \<open>The life time of the shipped configuration, and of one that cannot be read.\<close>

lemma lifetime_default:
  "parseDuration ''5m'' = Some (5 * 60 * 10 ^ 9)" "parseDuration ''5 minutes'' = None" "parseDuration ''1h30m'' = Some (90 * 60 * 10 ^ 9)"
  by code_simp+

text \<open>A pool that cannot be reached is closed again; a Redis client is not.\<close>

lemma failed_pings:
  assumes "parsePoolConfig lib (dsn d) = Inr pc"
    and "newPool lib (pc\<lparr>pc_maxConns := ucast (db_maxOpenConns d), pc_minConns := ucast (db_maxIdleConns d),
          pc_maxConnLifetime := connMaxLifetimeDuration d\<rparr>) w = (Inr pool, w1)" and "pingPool lib pool w1 = (Some e, w2)"
    and "redisClientFor rlib rc v = (client, v1)" and "pingRedis rlib client v1 = (Some e', v2)"
  shows "newPostgresPool lib d w = (Inl (''ping postgres: '' @ e), closePool lib pool w2)"
    and "newRedisClient rlib rc v = (Inl (''ping redis: '' @ e'), v2)"
  using assms by (simp_all add: newPostgresPool_def newRedisClient_def)

end
