(* ===== verification/Indexer.thy ===== *)
theory Indexer
  imports IndexerService BlockListener Infra "HOL-Library.Signed_Division"
begin

text \<open>
  The indexer as a whole: \<open>NewService\<close> and \<open>Run\<close> of \<open>internal/indexer/service.go\<close> over the adapters of
  \<open>cmd/indexer/main.go\<close>. One goroutine for each chain takes the headers of its listener; they share the store,
  the parser and the producer. A run is a sequence of turns, each with its chain, in whatever order the
  goroutines get to them; the node's and Kafka's answers belong to the turn.
\<close>

section \<open>The service\<close>

record 'ad indexerEntry =
  ie_adapter :: 'ad
  ie_pollInterval :: i64
  ie_detector :: detector
  ie_cfg :: chainConfig

record ('ad, 's) indexerService =
  is_chains :: "(chainId, 'ad indexerEntry) fmap"
  is_parser :: eventParser
  is_store :: 's
  is_published :: "(string \<times> chainEvent) list"

text \<open>\<open>time.Duration(cfg.BlockTime) * time.Second / 2\<close>, at least one second. The product wraps; the quotient is
  truncated.\<close>

definition pollInterval :: "chainConfig \<Rightarrow> i64" where
  "pollInterval conf =
     (let d = word_of_int (sint (cc_blockTime conf * 1000000000) sdiv 2)
      in if sint d < 1000000000 then 1000000000 else d)"

fun newChains :: "(chainId, 'ad) fmap \<Rightarrow> chainConfig list \<Rightarrow> (chainId, 'ad indexerEntry) fmap
    \<Rightarrow> err + (chainId, 'ad indexerEntry) fmap" where
  "newChains adapters [] entries = Inr entries"
| "newChains adapters (conf # confs) entries =
     (case fmlookup adapters (cc_chainID conf) of
        None \<Rightarrow> Inl (''no adapter for chain '' @ show_int (sint (cc_chainID conf)))
      | Some a \<Rightarrow> newChains adapters confs
          (fmupd (cc_chainID conf) \<lparr>ie_adapter = a, ie_pollInterval = pollInterval conf,
             ie_detector = newDetector (sint (cc_confirmations conf * 2)), ie_cfg = conf\<rparr> entries))"

definition newService :: "evmLib \<Rightarrow> (eventType \<times> string) list \<Rightarrow> (chainId, 'ad) fmap \<Rightarrow> chainConfig list \<Rightarrow> 's
    \<Rightarrow> err + ('ad, 's) indexerService" where
  "newService lib order adapters confs s =
     (case newChains adapters confs fmempty of
        Inl e \<Rightarrow> Inl e
      | Inr entries \<Rightarrow> Inr \<lparr>is_chains = entries, is_parser = newEventParser lib order, is_store = s, is_published = []\<rparr>)"

section \<open>A turn\<close>

text \<open>The node's header; its hash is what go-ethereum computes. The number is a \<open>*big.Int\<close>, of which \<open>Uint64\<close>
  takes the low 64 bits.\<close>

record nodeHeader =
  nh_number :: int
  nh_hash :: hash
  nh_parentHash :: hash
  nh_time :: u64

definition toBlockHeader :: "chainId \<Rightarrow> nodeHeader \<Rightarrow> blockHeader" where
  "toBlockHeader cid nh = \<lparr>h_chainID = cid, h_number = word_of_int \<bar>nh_number nh\<bar>, h_hash = nh_hash nh,
     h_parentHash = nh_parentHash nh, h_timestamp = nh_time nh\<rparr>"

text \<open>\<open>ethereum.FilterQuery\<close>: the topics are alternatives for each position; their order does not matter.\<close>

record filterQuery =
  fq_fromBlock :: int
  fq_toBlock :: int
  fq_addresses :: "address list"
  fq_topics :: "hash set list"

definition logQuery :: "evmLib \<Rightarrow> eventParser \<Rightarrow> chainConfig \<Rightarrow> u64 \<Rightarrow> filterQuery" where
  "logQuery lib p conf blockNum = \<lparr>fq_fromBlock = int (unat blockNum), fq_toBlock = int (unat blockNum),
     fq_addresses = [hexToAddress lib (cc_lendingPool conf)], fq_topics = [allSignatures p]\<rparr>"

record nodeTurn =
  nt_filterLogs :: "filterQuery \<Rightarrow> err + evmLog list"
  nt_publish :: "chainEvent \<Rightarrow> err option"
  nt_clock :: i64

definition turnEnvOf :: "evmLib \<Rightarrow> eventParser \<Rightarrow> chainConfig \<Rightarrow> nodeTurn \<Rightarrow> u64 \<Rightarrow> turnEnv" where
  "turnEnvOf lib p conf t blockNum = \<lparr>filterLogs = nt_filterLogs t (logQuery lib p conf blockNum),
     publishErr = nt_publish t, clock = nt_clock t\<rparr>"

text \<open>One header (possibly nil) of a chain's goroutine, on the state all chains share.\<close>

fun serviceTurn :: "evmLib \<Rightarrow> 's eventStore \<Rightarrow> chainId \<times> nodeTurn \<times> nodeHeader option
    \<Rightarrow> ('ad, 's) indexerService \<Rightarrow> ('ad, 's) indexerService" where
  "serviceTurn lib st (cid, t, None) sv = sv"
| "serviceTurn lib st (cid, t, Some nh) sv =
     (case fmlookup (is_chains sv) cid of
        None \<Rightarrow> sv
      | Some ie \<Rightarrow>
          (let header = toBlockHeader cid nh;
               ci = onHeader lib (is_parser sv) st (turnEnvOf lib (is_parser sv) (ie_cfg ie) t (h_number header)) cid header
                      \<lparr>ciDetector = ie_detector ie, ciStore = is_store sv, ciPublished = is_published sv\<rparr>
           in sv\<lparr>is_chains := fmupd cid (ie\<lparr>ie_detector := ciDetector ci\<rparr>) (is_chains sv),
                 is_store := ciStore ci, is_published := ciPublished ci\<rparr>))"

definition runIndexer :: "evmLib \<Rightarrow> 's eventStore \<Rightarrow> (chainId \<times> nodeTurn \<times> nodeHeader option) list
    \<Rightarrow> ('ad, 's) indexerService \<Rightarrow> ('ad, 's) indexerService" where
  "runIndexer lib st turns sv = fold (serviceTurn lib st) turns sv"

section \<open>Setting the service up\<close>

lemma pollInterval_bounds: "1000000000 \<le> sint (pollInterval conf)"
  by (auto simp: pollInterval_def Let_def not_less)

lemma pollInterval_exact:
  assumes "0 \<le> sint (cc_blockTime conf)" and "sint (cc_blockTime conf) \<le> 9000000000"
  shows "sint (pollInterval conf) = max 1000000000 (sint (cc_blockTime conf) * 500000000)"
proof -
  have half: "n sdiv 2 = n div 2" if "0 \<le> n" for n :: int using that by (simp add: signed_divide_int_def sgn_if)
  have "sint (cc_blockTime conf * 1000000000) = sint (cc_blockTime conf) * 1000000000"
    using assms by (simp add: sint_word_ariths signed_take_bit_int_eq_self)
  then have d: "sint (cc_blockTime conf * 1000000000) sdiv 2 = sint (cc_blockTime conf) * 500000000"
    using assms(1) by (simp add: half)
  have fit: "sint (word_of_int k :: i64) = k" if "0 \<le> k" "k < 2 ^ 63" for k
    using that by (simp add: sint_sbintrunc' signed_take_bit_int_eq_self)
  have "sint (word_of_int (sint (cc_blockTime conf) * 500000000) :: i64) = sint (cc_blockTime conf) * 500000000"
    by (rule fit) (use assms in simp_all)
  then show ?thesis by (simp add: pollInterval_def d Let_def)
qed

lemma find_append: "find P (xs @ ys) = (case find P xs of None \<Rightarrow> find P ys | Some x \<Rightarrow> Some x)"
  by (induction xs) simp_all

lemma newChains_lookup:
  "newChains adapters confs entries = Inr entries' \<Longrightarrow> fmlookup entries' c =
     (case find (\<lambda>conf. cc_chainID conf = c) (rev confs) of
        None \<Rightarrow> fmlookup entries c
      | Some conf \<Rightarrow> Some \<lparr>ie_adapter = the (fmlookup adapters c), ie_pollInterval = pollInterval conf,
             ie_detector = newDetector (sint (cc_confirmations conf * 2)), ie_cfg = conf\<rparr>)"
proof (induction confs arbitrary: entries)
  case (Cons conf confs)
  then obtain a where "fmlookup adapters (cc_chainID conf) = Some a" by (auto split: option.splits)
  with Cons show ?case by (auto simp: find_append split: option.splits)
qed simp

lemma newChains_total:
  "(\<exists>entries'. newChains adapters confs entries = Inr entries') \<longleftrightarrow> cc_chainID ` set confs \<subseteq> fmdom' adapters"
  by (induction confs arbitrary: entries) (auto simp: fmlookup_dom'_iff split: option.split)

lemma buildAdapters_lookup:
  "buildAdapters rpc confs adapters w = (Inr adapters', w') \<Longrightarrow>
     (case find (\<lambda>conf. cc_chainID conf = c) (rev confs) of
        None \<Rightarrow> fmlookup adapters' c = fmlookup adapters c
      | Some conf \<Rightarrow> \<exists>client. fmlookup adapters' c = Some client \<and> ec_cfg client = conf)"
proof (induction confs arbitrary: adapters w)
  case (Cons conf confs)
  then obtain client w1 where n: "newClient rpc conf w = (Inr client, w1)"
      and b: "buildAdapters rpc confs (fmupd (cc_chainID conf) client adapters) w1 = (Inr adapters', w')"
    by (auto split: prod.splits sum.splits)
  have "ec_cfg client = conf" using n by (auto simp: newClient_def split: list.splits prod.splits sum.splits if_splits)
  with Cons.IH [OF b] show ?case by (auto simp: find_append split: option.splits)
qed simp

section \<open>What a turn does\<close>

definition turnEvents :: "evmLib \<Rightarrow> eventParser \<Rightarrow> turnEnv \<Rightarrow> chainId \<Rightarrow> blockHeader \<Rightarrow> (string \<times> chainEvent) list" where
  "turnEvents lib p env cid h = (case filterLogs env of Inl _ \<Rightarrow> [] | Inr logs \<Rightarrow>
     List.map_filter (\<lambda>lg. case parseLog lib p (clock env) cid lg of Inl _ \<Rightarrow> None
       | Inr ev \<Rightarrow> (let event = ev\<lparr>e_timestamp := h_timestamp h\<rparr> in
           if publishErr env event = None then Some (messageKey cid (h_number h), event) else None)) logs)"

lemma indexLogs_frame:
  "ciDetector (indexLogs lib p inMemoryStore env cid h logs ci) = ciDetector ci"
  "ciPublished (indexLogs lib p inMemoryStore env cid h logs ci) = ciPublished ci @
     List.map_filter (\<lambda>lg. case parseLog lib p (clock env) cid lg of Inl _ \<Rightarrow> None
       | Inr ev \<Rightarrow> (let event = ev\<lparr>e_timestamp := h_timestamp h\<rparr> in
           if publishErr env event = None then Some (messageKey cid (h_number h), event) else None)) logs"
  by (induction logs arbitrary: ci)
    (simp_all add: map_filter_simps mem_never_fails(3) Let_def split: sum.split option.split)

lemma onHeader_mem:
  "ciDetector (onHeader lib p inMemoryStore env cid h ci) = detectorStep h (ciDetector ci)"
  "ciPublished (onHeader lib p inMemoryStore env cid h ci) = ciPublished ci @ turnEvents lib p env cid h"
proof -
  have ib: "ciDetector (indexBlock lib p inMemoryStore env cid h c) = recordBlock h (ciDetector c)
    \<and> ciPublished (indexBlock lib p inMemoryStore env cid h c) = ciPublished c @ turnEvents lib p env cid h" for c
    using mem_never_fails(2) [of h "ciStore c"]
    by (auto simp: indexBlock_def turnEvents_def indexLogs_frame Let_def split: sum.split)
  obtain f b where d: "detectReorg h (ciDetector ci) = (f, b)" by force
  obtain s1 where "handleReorg inMemoryStore cid f (ciStore ci) = (None, s1)" using mem_never_fails(1) by blast
  with d show "ciDetector (onHeader lib p inMemoryStore env cid h ci) = detectorStep h (ciDetector ci)"
    and "ciPublished (onHeader lib p inMemoryStore env cid h ci) = ciPublished ci @ turnEvents lib p env cid h"
    by (simp_all add: onHeader_def detectorStep_def ib)
qed
lemma parseLog_event:
  assumes "parseLog lib p now cid lg = Inr ev"
  shows "e_chainID ev = cid" and "parseLog lib p t cid lg = Inr (ev\<lparr>e_timestamp := t\<rparr>)"
    and "\<exists>topic0 rest. lg_topics lg = topic0 # rest \<and> topic0 \<in> allSignatures p"
  using assms
  by (auto simp: parseLog_def allSignatures_def fmlookup_dom'_iff wrapErr_def Let_def parseSimpleEvent_def parseLiquidationEvent_def
      parseReserveDataUpdated_def parseAccrueInterest_def putData_def
      split: list.splits option.splits eventType.splits sum.splits if_splits)

lemma parseLog_error: "parseLog lib p now cid lg = Inl e \<Longrightarrow> isl (parseLog lib p t cid lg)"
  by (cases "parseLog lib p t cid lg") (auto dest: parseLog_event(2) [where t = now])

lemma in_map_filter: "y \<in> set (List.map_filter f xs) \<longleftrightarrow> (\<exists>x\<in>set xs. f x = Some y)"
  by (induction xs) (auto simp: map_filter_simps split: option.split)

lemma turnEvents_chain:
  assumes "(k, ev) \<in> set (turnEvents lib p env cid h)"
  shows "e_chainID ev = cid"
proof -
  obtain logs where "filterLogs env = Inr logs" using assms by (cases "filterLogs env") (simp_all add: turnEvents_def)
  with assms obtain lg where e: "(case parseLog lib p (clock env) cid lg of Inl _ \<Rightarrow> None
       | Inr ev \<Rightarrow> (let event = ev\<lparr>e_timestamp := h_timestamp h\<rparr> in
           if publishErr env event = None then Some (messageKey cid (h_number h), event) else None)) = Some (k, ev)"
    by (auto simp: turnEvents_def in_map_filter)
  then obtain ev' where "parseLog lib p (clock env) cid lg = Inr ev'" by (cases "parseLog lib p (clock env) cid lg") simp_all
  with e parseLog_event(1) [OF this] show ?thesis by (auto simp: Let_def split: if_splits)
qed

section \<open>The chains do not disturb each other\<close>

text \<open>What concerns one chain: its entry, its sync status, and what has been published of it.\<close>

type_synonym 'ad chainState = "'ad indexerEntry option \<times> u64 \<times> (string \<times> chainEvent) list"

definition chainPart :: "chainId \<Rightarrow> ('ad, memStore) indexerService \<Rightarrow> 'ad chainState" where
  "chainPart c sv = (fmlookup (is_chains sv) c, memSync (is_store sv) c,
     filter (\<lambda>(k, ev). e_chainID ev = c) (is_published sv))"

text \<open>A turn as one chain sees it.\<close>

fun chainTurn :: "evmLib \<Rightarrow> eventParser \<Rightarrow> chainId \<Rightarrow> nodeTurn \<times> nodeHeader option \<Rightarrow> 'ad chainState \<Rightarrow> 'ad chainState" where
  "chainTurn lib p c (t, Some nh) (Some ie, n, evs) =
     (let h = toBlockHeader c nh in
      (Some (ie\<lparr>ie_detector := detectorStep h (ie_detector ie)\<rparr>), h_number h,
       evs @ turnEvents lib p (turnEnvOf lib p (ie_cfg ie) t (h_number h)) c h))"
| "chainTurn lib p c _ part = part"

lemma toBlockHeader_chain [simp]: "h_chainID (toBlockHeader cid nh) = cid"
  by (simp add: toBlockHeader_def)

lemma serviceTurn_parser [simp]: "is_parser (serviceTurn lib st turn sv) = is_parser sv"
  by (cases turn; cases "snd (snd turn)") (auto simp: Let_def split: option.split)

lemma serviceTurn_part:
  "chainPart c (serviceTurn lib inMemoryStore (cid, t, nho) sv) =
     (if cid = c then chainTurn lib (is_parser sv) c (t, nho) (chainPart c sv) else chainPart c sv)"
proof (cases "nho = None \<or> fmlookup (is_chains sv) cid = None")
  case True
  then show ?thesis by (cases nho) (auto simp: chainPart_def)
next
  case False
  then obtain nh ie where e: "nho = Some nh" "fmlookup (is_chains sv) cid = Some ie" by auto
  have own: "filter (\<lambda>(k, ev). e_chainID ev = c) (turnEvents lib p env cid h) = (if cid = c then turnEvents lib p env cid h else [])"
    for p env h
    by (auto intro!: filter_True filter_False dest: turnEvents_chain)
  show ?thesis
    using e by (auto simp: chainPart_def Let_def onHeader_mem own mem_onHeader_sync mem.onHeader_sync_other)
qed

definition ownTurns :: "chainId \<Rightarrow> (chainId \<times> nodeTurn \<times> nodeHeader option) list \<Rightarrow> (nodeTurn \<times> nodeHeader option) list" where
  "ownTurns c turns = map snd (filter (\<lambda>(cid, _). cid = c) turns)"

lemma runIndexer_part:
  "chainPart c (runIndexer lib inMemoryStore turns sv) =
     fold (chainTurn lib (is_parser sv) c) (ownTurns c turns) (chainPart c sv)"
proof (induction turns arbitrary: sv)
  case (Cons turn turns)
  obtain cid t nho where "turn = (cid, t, nho)" by (cases turn)
  with Cons show ?case by (simp add: runIndexer_def ownTurns_def serviceTurn_part)
qed (simp add: runIndexer_def ownTurns_def)
text \<open>All of it in closed form, for a chain the service has.\<close>

definition headersOf :: "chainId \<Rightarrow> (nodeTurn \<times> nodeHeader option) list \<Rightarrow> blockHeader list" where
  "headersOf c ts = List.map_filter (\<lambda>(t, nho). map_option (toBlockHeader c) nho) ts"

definition eventsOf :: "evmLib \<Rightarrow> eventParser \<Rightarrow> chainConfig \<Rightarrow> chainId \<Rightarrow> nodeTurn \<times> nodeHeader option \<Rightarrow> (string \<times> chainEvent) list" where
  "eventsOf lib p conf c turn = (case turn of (t, None) \<Rightarrow> []
     | (t, Some nh) \<Rightarrow> (let h = toBlockHeader c nh in turnEvents lib p (turnEnvOf lib p conf t (h_number h)) c h))"

lemma chainTurns:
  "fold (chainTurn lib p c) ts (Some ie, n, evs) =
     (Some (ie\<lparr>ie_detector := fold detectorStep (headersOf c ts) (ie_detector ie)\<rparr>),
      last (n # map h_number (headersOf c ts)), evs @ concat (map (eventsOf lib p (ie_cfg ie) c) ts))"
proof (induction ts arbitrary: ie n evs)
  case (Cons turn ts)
  obtain t nho where "turn = (t, nho)" by (cases turn)
  then show ?case
    by (cases nho) (simp_all add: Cons.IH headersOf_def eventsOf_def map_filter_simps Let_def)
qed (simp add: headersOf_def map_filter_simps)

text \<open>C12: the chains of the indexer do not disturb each other. However the goroutines interleave and whatever
  fails or is reorganised on the others, a chain's detector, its sync status and the events published of it
  are those of its own turns alone: the status is the height of its last header, the detector has seen its
  headers in order.\<close>

theorem indexer_chains_independent:
  assumes "fmlookup (is_chains sv) c = Some ie"
  shows "chainPart c (runIndexer lib inMemoryStore turns sv)
      = chainPart c (runIndexer lib inMemoryStore (filter (\<lambda>(cid, _). cid = c) turns) sv)
    \<and> getSyncStatus inMemoryStore c (is_store (runIndexer lib inMemoryStore turns sv))
      = (last (memSync (is_store sv) c # map h_number (headersOf c (ownTurns c turns))), None)
    \<and> fmlookup (is_chains (runIndexer lib inMemoryStore turns sv)) c
      = Some (ie\<lparr>ie_detector := fold detectorStep (headersOf c (ownTurns c turns)) (ie_detector ie)\<rparr>)"
proof -
  have "ownTurns c (filter (\<lambda>(cid, _). cid = c) turns) = ownTurns c turns" by (simp add: ownTurns_def)
  then show ?thesis
    using runIndexer_part [of c lib turns sv] runIndexer_part [of c lib "filter (\<lambda>(cid, _). cid = c) turns" sv] assms
    by (simp add: chainPart_def chainTurns mem.read_sync)
qed

section \<open>The events of a chain, each once\<close>

text \<open>What \<open>eth_getLogs\<close> answers for the logs of one block: those from one of the addresses whose topics are
  among the ones asked for at each position (none asked for stands for any).\<close>

definition matches :: "filterQuery \<Rightarrow> evmLog \<Rightarrow> bool" where
  "matches q lg \<longleftrightarrow> lg_address lg \<in> set (fq_addresses q) \<and> length (fq_topics q) \<le> length (lg_topics lg)
     \<and> list_all2 (\<lambda>wanted topic. wanted = {} \<or> topic \<in> wanted) (fq_topics q) (take (length (fq_topics q)) (lg_topics lg))"

definition logs_ok :: "(u64 \<Rightarrow> evmLog list) \<Rightarrow> (filterQuery \<Rightarrow> err + evmLog list) \<Rightarrow> bool" where
  "logs_ok blockLogs answer \<longleftrightarrow> (\<forall>q n. fq_fromBlock q = int (unat n) \<and> fq_toBlock q = int (unat n)
     \<longrightarrow> answer q = Inr (filter (matches q) (blockLogs n)))"

text \<open>The events of a block: its logs from the lending pool, as far as they parse, with the block's time.\<close>

definition blockEvents :: "evmLib \<Rightarrow> eventParser \<Rightarrow> chainConfig \<Rightarrow> chainId \<Rightarrow> evmLog list \<Rightarrow> blockHeader \<Rightarrow> (string \<times> chainEvent) list" where
  "blockEvents lib p conf c logs h =
     List.map_filter (\<lambda>lg. case parseLog lib p (h_timestamp h) c lg of Inl _ \<Rightarrow> None | Inr ev \<Rightarrow> Some (messageKey c (h_number h), ev))
       (filter (\<lambda>lg. lg_address lg = hexToAddress lib (cc_lendingPool conf)) logs)"

text \<open>The topics in the query cost no event, and the clock does not show.\<close>

lemma turnEvents_complete:
  assumes "logs_ok blockLogs (nt_filterLogs t)" and "\<forall>ev. nt_publish t ev = None"
  shows "turnEvents lib p (turnEnvOf lib p conf t (h_number h)) c h = blockEvents lib p conf c (blockLogs (h_number h)) h"
proof -
  let ?q = "logQuery lib p conf (h_number h)"
  let ?pool = "hexToAddress lib (cc_lendingPool conf)"
  have ev: "(case parseLog lib p (nt_clock t) c lg of Inl _ \<Rightarrow> None
      | Inr ev \<Rightarrow> (let event = ev\<lparr>e_timestamp := h_timestamp h\<rparr> in
          if nt_publish t event = None then Some (messageKey c (h_number h), event) else None))
      = (case parseLog lib p (h_timestamp h) c lg of Inl _ \<Rightarrow> None | Inr ev \<Rightarrow> Some (messageKey c (h_number h), ev))" for lg
    by (cases "parseLog lib p (nt_clock t) c lg")
      (auto simp: assms(2) dest: parseLog_event(2) [where t = "h_timestamp h"] parseLog_error [where t = "h_timestamp h"] split: sum.split)
  have skip: "isl (parseLog lib p now c lg)" if "lg_address lg = ?pool" "\<not> matches ?q lg" for lg now
  proof (cases "parseLog lib p now c lg")
    case (Inr e)
    from parseLog_event(3) [OF this] that show ?thesis by (auto simp: matches_def logQuery_def)
  qed simp
  have "List.map_filter f (filter (matches ?q) ls) = List.map_filter f (filter (\<lambda>lg. lg_address lg = ?pool) ls)"
    if "f = (\<lambda>lg. case parseLog lib p (h_timestamp h) c lg of Inl _ \<Rightarrow> None | Inr ev \<Rightarrow> Some (messageKey c (h_number h), ev))" for f ls
  proof (induction ls)
    case (Cons lg ls)
    have "matches ?q lg \<Longrightarrow> lg_address lg = ?pool" by (simp add: matches_def logQuery_def)
    with Cons skip [of lg "h_timestamp h"] show ?case
      by (auto simp: map_filter_simps that split: sum.splits)
  qed simp
  moreover have "nt_filterLogs t ?q = Inr (filter (matches ?q) (blockLogs (h_number h)))"
    using assms(1) by (simp add: logs_ok_def logQuery_def)
  ultimately show ?thesis unfolding turnEvents_def turnEnvOf_def turnEnv.simps ev by (simp add: blockEvents_def)
qed
definition servedBy :: "(u64 \<Rightarrow> evmLog list) \<Rightarrow> nodeHeader list \<Rightarrow> (nodeTurn \<times> nodeHeader option) list \<Rightarrow> bool" where
  "servedBy blockLogs hs ts \<longleftrightarrow> map snd ts = map Some hs
     \<and> (\<forall>(t, nho)\<in>set ts. logs_ok blockLogs (nt_filterLogs t) \<and> (\<forall>ev. nt_publish t ev = None))"

abbreviation blockNumber :: "nodeHeader \<Rightarrow> u64" where
  "blockNumber nh \<equiv> word_of_int \<bar>nh_number nh\<bar>"

lemma servedBy_events:
  "servedBy blockLogs hs ts \<Longrightarrow> headersOf c ts = map (toBlockHeader c) hs
     \<and> map (eventsOf lib p conf c) ts = map (\<lambda>nh. blockEvents lib p conf c (blockLogs (blockNumber nh)) (toBlockHeader c nh)) hs"
proof (induction ts arbitrary: hs)
  case (Cons turn ts)
  obtain t nho where turn: "turn = (t, nho)" by (cases turn)
  with Cons.prems obtain nh hs' where hs: "hs = nh # hs'" "nho = Some nh" by (auto simp: servedBy_def)
  with Cons.prems turn have "servedBy blockLogs hs' ts" by (auto simp: servedBy_def)
  moreover have "logs_ok blockLogs (nt_filterLogs t)" "\<forall>ev. nt_publish t ev = None"
    using Cons.prems turn by (simp_all add: servedBy_def)
  from turnEvents_complete [OF this, of lib p conf "toBlockHeader c nh" c] have "eventsOf lib p conf c turn
      = blockEvents lib p conf c (blockLogs (blockNumber nh)) (toBlockHeader c nh)"
    by (simp add: eventsOf_def turn hs(2)) (simp add: toBlockHeader_def)
  ultimately show ?case using Cons.IH turn hs by (simp add: headersOf_def map_filter_simps)
qed (simp add: servedBy_def headersOf_def map_filter_simps)

lemma newService_entry:
  assumes "newService lib order adapters confs s = Inr sv" and "fmlookup (is_chains sv) c = Some ie"
  obtains conf where "conf \<in> set confs" and "cc_chainID conf = c" and "find (\<lambda>conf. cc_chainID conf = c) (rev confs) = Some conf"
    and "ie = \<lparr>ie_adapter = the (fmlookup adapters c), ie_pollInterval = pollInterval conf,
           ie_detector = newDetector (sint (cc_confirmations conf * 2)), ie_cfg = conf\<rparr>"
proof -
  from assms have "newChains adapters confs fmempty = Inr (is_chains sv)" by (auto simp: newService_def split: sum.splits)
  from newChains_lookup [OF this, of c] assms(2) obtain conf where
      f: "find (\<lambda>conf. cc_chainID conf = c) (rev confs) = Some conf"
      and "ie = \<lparr>ie_adapter = the (fmlookup adapters c), ie_pollInterval = pollInterval conf,
           ie_detector = newDetector (sint (cc_confirmations conf * 2)), ie_cfg = conf\<rparr>"
    by (auto split: option.splits)
  moreover have "conf \<in> set confs" "cc_chainID conf = c" using f by (auto simp: find_Some_iff rev_nth)
  ultimately show thesis by (rule_tac that)
qed

lemma newService_distinct:
  assumes "newService lib order adapters confs s = Inr sv" and "conf \<in> set confs" and "distinct (map cc_chainID confs)"
  shows "\<exists>ie. fmlookup (is_chains sv) (cc_chainID conf) = Some ie \<and> ie_cfg ie = conf"
    and "is_parser sv = newEventParser lib order" and "is_store sv = s" and "is_published sv = []"
proof -
  have "find (\<lambda>x. cc_chainID x = cc_chainID conf) (rev confs) = Some conf"
  proof (cases "find (\<lambda>x. cc_chainID x = cc_chainID conf) (rev confs)")
    case None
    with assms(2) show ?thesis by (auto simp: find_None_iff)
  next
    case (Some x)
    then have "x \<in> set confs" "cc_chainID x = cc_chainID conf" by (auto simp: find_Some_iff rev_nth)
    with assms(2,3) Some show ?thesis by (simp add: distinct_map inj_on_def)
  qed
  with assms(1) newChains_lookup [of adapters confs fmempty _ "cc_chainID conf"]
  show "\<exists>ie. fmlookup (is_chains sv) (cc_chainID conf) = Some ie \<and> ie_cfg ie = conf"
    by (auto simp: newService_def split: sum.splits)
  show "is_parser sv = newEventParser lib order" "is_store sv = s" "is_published sv = []"
    using assms(1) by (auto simp: newService_def split: sum.splits)
qed

text \<open>Whatever headers a chain's turns have, in whatever order: with their logs read and published, the chain's
  events are those of these headers in order, and the status is the height of the last one.\<close>

lemma served_publishes:
  assumes "newService lib order adapters confs s = Inr sv" and "conf \<in> set confs" and "distinct (map cc_chainID confs)"
    and "c = cc_chainID conf" and "servedBy blockLogs hs (ownTurns c turns)"
  shows "filter (\<lambda>(k, ev). e_chainID ev = c) (is_published (runIndexer lib inMemoryStore turns sv))
      = concat (map (\<lambda>nh. blockEvents lib (newEventParser lib order) conf c (blockLogs (blockNumber nh)) (toBlockHeader c nh)) hs)"
    and "startBlock inMemoryStore c (is_store (runIndexer lib inMemoryStore turns sv)) = last (memSync s c # map blockNumber hs) + 1"
proof -
  obtain ie where ie: "fmlookup (is_chains sv) c = Some ie" "ie_cfg ie = conf"
    using newService_distinct(1) [OF assms(1-3)] assms(4) by blast
  note sv = newService_distinct(2-4) [OF assms(1-3)]
  have n: "map (h_number \<circ> toBlockHeader c) hs = map blockNumber hs" by (simp add: toBlockHeader_def)
  then show "filter (\<lambda>(k, ev). e_chainID ev = c) (is_published (runIndexer lib inMemoryStore turns sv))
      = concat (map (\<lambda>nh. blockEvents lib (newEventParser lib order) conf c (blockLogs (blockNumber nh)) (toBlockHeader c nh)) hs)"
    "startBlock inMemoryStore c (is_store (runIndexer lib inMemoryStore turns sv)) = last (memSync s c # map blockNumber hs) + 1"
    using runIndexer_part [of c lib turns sv] servedBy_events [OF assms(5)] ie sv
    by (simp_all add: chainPart_def chainTurns startBlock_def mem.read_sync n)
qed

text \<open>C8: the indexer publishes every event of a chain once, in order. Take a chain of the configuration, its
  listener polling from the block after the stored status, whatever calls to the node for blocks fail in
  between. Then polling returns with consecutive blocks; and in every run of the service in which the chain's
  turns are these blocks and their logs can be read and published, however the other chains' turns lie in
  between and fail, exactly the lending pool's events of these blocks are published of the chain, each
  once and in order, and a restart would go on with the first block not yet seen.\<close>

theorem indexer_complete:
  assumes "newService lib order adapters confs s = Inr sv" and "conf \<in> set confs" and "distinct (map cc_chainID confs)"
    and "c = cc_chainID conf" and "node_ok blockNumber fetch" and "list_all wake_ok ws"
  shows "\<exists>n' hs. poll fetch stopped ws 0 (startBlock inMemoryStore c s) = Some (n', hs)
    \<and> map blockNumber hs = map (\<lambda>i. startBlock inMemoryStore c s + of_nat i) [0..<length hs]
    \<and> (\<forall>turns. servedBy blockLogs hs (ownTurns c turns) \<longrightarrow>
         filter (\<lambda>(k, ev). e_chainID ev = c) (is_published (runIndexer lib inMemoryStore turns sv))
           = concat (map (\<lambda>nh. blockEvents lib (newEventParser lib order) conf c (blockLogs (blockNumber nh)) (toBlockHeader c nh)) hs)
         \<and> startBlock inMemoryStore c (is_store (runIndexer lib inMemoryStore turns sv)) = n')"
proof -
  obtain n' hs where p: "poll fetch stopped ws 0 (startBlock inMemoryStore c s) = Some (n', hs)"
      "map blockNumber hs = heights (startBlock inMemoryStore c s) (length hs)"
      "n' = startBlock inMemoryStore c s + of_nat (length hs)"
    using poll_heights [OF assms(5,6)] by blast
  have "last (memSync s c # map blockNumber hs) + 1 = n'"
    unfolding p(2,3) by (cases "length hs") (simp_all add: startBlock_def mem.read_sync heights_def)
  with p served_publishes [OF assms(1-4)] show ?thesis by (auto simp: heights_def)
qed

lemma newService_total:
  assumes "buildAdapters rpc confs fmempty w = (Inr adapters, w')"
  shows "\<exists>sv. newService lib order adapters confs s = Inr sv \<and> fmdom' (is_chains sv) = cc_chainID ` set confs"
proof -
  have found: "find (\<lambda>conf. cc_chainID conf = c) (rev confs) \<noteq> None \<longleftrightarrow> c \<in> cc_chainID ` set confs" for c
    by (auto simp: find_None_iff)
  have "c \<in> fmdom' adapters" if "c \<in> cc_chainID ` set confs" for c
    using that found [of c] buildAdapters_lookup [OF assms, of c] by (auto simp: fmlookup_dom'_iff)
  then obtain entries where e: "newChains adapters confs fmempty = Inr entries"
    using newChains_total [of adapters confs fmempty] by blast
  have "fmlookup entries c \<noteq> None \<longleftrightarrow> c \<in> cc_chainID ` set confs" for c
    unfolding found [symmetric] newChains_lookup [OF e] by (auto split: option.split)
  then have "fmdom' entries = cc_chainID ` set confs" by (auto simp: fmlookup_dom'_iff)
  then show ?thesis using e by (simp add: newService_def)
qed

text \<open>The program is wired together. Once the clients of the configured chains could be made, the service can:
  it has an entry for exactly the configured chains, whose client, polling interval (half the block time, at
  least a second) and detector come from one and the same configuration of that chain, the last one.\<close>

theorem indexer_wired:
  assumes "buildAdapters rpc confs fmempty w = (Inr adapters, w')"
  shows "\<exists>sv. newService lib order adapters confs s = Inr sv \<and> fmdom' (is_chains sv) = cc_chainID ` set confs
    \<and> (\<forall>c ie. fmlookup (is_chains sv) c = Some ie \<longrightarrow> ie_cfg ie \<in> set confs \<and> cc_chainID (ie_cfg ie) = c
         \<and> ec_cfg (ie_adapter ie) = ie_cfg ie
         \<and> ie_detector ie = newDetector (sint (cc_confirmations (ie_cfg ie) * 2))
         \<and> 1000000000 \<le> sint (ie_pollInterval ie)
         \<and> (0 \<le> sint (cc_blockTime (ie_cfg ie)) \<and> sint (cc_blockTime (ie_cfg ie)) \<le> 9000000000 \<longrightarrow>
              sint (ie_pollInterval ie) = max 1000000000 (sint (cc_blockTime (ie_cfg ie)) * 500000000)))"
proof -
  note look = buildAdapters_lookup [OF assms]
  obtain sv where sv: "newService lib order adapters confs s = Inr sv" "fmdom' (is_chains sv) = cc_chainID ` set confs"
    using newService_total [OF assms, of lib order s] by blast
  moreover have "ie_cfg ie \<in> set confs \<and> cc_chainID (ie_cfg ie) = c \<and> ec_cfg (ie_adapter ie) = ie_cfg ie
      \<and> ie_detector ie = newDetector (sint (cc_confirmations (ie_cfg ie) * 2)) \<and> ie_pollInterval ie = pollInterval (ie_cfg ie)"
    if "fmlookup (is_chains sv) c = Some ie" for c ie
  proof (rule newService_entry [OF sv(1) that], goal_cases)
    case (1 conf)
    with look [of c] show ?case by auto
  qed
  ultimately show ?thesis using sv pollInterval_bounds pollInterval_exact by (intro exI [of _ sv]) simp
qed

section \<open>Examples\<close>

definition demoTurn :: nodeTurn where
  "demoTurn = \<lparr>nt_filterLogs = (\<lambda>q. Inr (filter (matches q) [exampleLog])), nt_publish = (\<lambda>_. None), nt_clock = 50\<rparr>"

definition demoHeader :: "u64 \<Rightarrow> nodeHeader" where
  "demoHeader n = \<lparr>nh_number = int (unat n), nh_hash = ucast n, nh_parentHash = ucast (n - 1), nh_time = n\<rparr>"

definition demoAdapters :: "(chainId, unit) fmap" where
  "demoAdapters = fmupd 1 () (fmupd 2 () fmempty)"
definition demoFailing :: nodeTurn where
  "demoFailing = \<lparr>nt_filterLogs = (\<lambda>_. Inl ''rpc timeout''), nt_publish = (\<lambda>_. Some ''kafka''), nt_clock = 51\<rparr>"

definition demoConf :: "i64 \<Rightarrow> chainConfig" where
  "demoConf c = (demoChain c '''')\<lparr>cc_lendingPool := show_nat 7\<rparr>"

definition demoService :: "(unit, memStore) indexerService" where
  "demoService = (case newService exampleEvm eventDefs demoAdapters [demoConf 1, demoConf 2] newInMemoryStore of Inr sv \<Rightarrow> sv)"

lemma demoService: "newService exampleEvm eventDefs demoAdapters [demoConf 1, demoConf 2] newInMemoryStore = Inr demoService"
  by (simp add: demoService_def newService_def demoAdapters_def demoConf_def demoChain_def)

text \<open>The second chain's turns lie between those of the first, and fail.\<close>

definition demoTurns :: "(chainId \<times> nodeTurn \<times> nodeHeader option) list" where
  "demoTurns = [(1, demoTurn, Some (demoHeader 1)), (2, demoFailing, Some (demoHeader 9)), (1, demoTurn, Some (demoHeader 2)), (2, demoTurn, None)]"

theorem indexer_wired_witness:
  "\<exists>adapters w' sv. buildAdapters demoRpc [demoChain 1 ''ws'', demoChain 2 ''''] fmempty ({}, 0) = (Inr adapters, w')
     \<and> newService exampleEvm eventDefs adapters [demoChain 1 ''ws'', demoChain 2 ''''] newInMemoryStore = Inr sv
     \<and> fmdom' (is_chains sv) = {1, 2}"
proof -
  obtain adapters w' where b: "buildAdapters demoRpc [demoChain 1 ''ws'', demoChain 2 ''''] fmempty ({}, 0) = (Inr adapters, w')"
    by (simp add: demoChain_def newClient_def demoRpc_def demoDial_def)
  have "cc_chainID ` set [demoChain 1 ''ws'', demoChain 2 ''''] = {1, 2}" by (auto simp: demoChain_def)
  with b indexer_wired [OF b, of exampleEvm eventDefs newInMemoryStore] show ?thesis by metis
qed

theorem indexer_chains_independent_witness:
  "getSyncStatus inMemoryStore 1 (is_store (runIndexer exampleEvm inMemoryStore demoTurns demoService)) = (2, None)"
proof -
  obtain ie where "fmlookup (is_chains demoService) 1 = Some ie"
    by (simp add: demoService_def newService_def demoAdapters_def demoConf_def demoChain_def)
  from indexer_chains_independent [OF this, of exampleEvm demoTurns] show ?thesis
    by (simp add: demoTurns_def ownTurns_def headersOf_def map_filter_simps toBlockHeader_def demoHeader_def)
qed

lemma demo_served: "servedBy (\<lambda>_. [exampleLog]) [demoHeader 1, demoHeader 2] (ownTurns 1 demoTurns)"
  by (simp add: servedBy_def demoTurns_def ownTurns_def demoTurn_def logs_ok_def)

theorem indexer_complete_witness:
  "length (filter (\<lambda>(k, ev). e_chainID ev = 1) (is_published (runIndexer exampleEvm inMemoryStore demoTurns demoService))) = 2
   \<and> startBlock inMemoryStore 1 (is_store (runIndexer exampleEvm inMemoryStore demoTurns demoService)) = 3"
proof -
  let ?fetch = "\<lambda>(_ :: nat) n. Inr (demoHeader n) :: err + nodeHeader"
  have start: "startBlock inMemoryStore 1 newInMemoryStore = 1"
    by (simp add: startBlock_def inMemoryStore_def memSync_def newInMemoryStore_def)
  have p: "poll ?fetch (\<lambda>_. False) [PollTick (Inr 2)] 0 1 = Some (3, [demoHeader 1, demoHeader 2])"
    by (simp add: fetchBlocks.simps)
  have n: "node_ok blockNumber ?fetch" by (simp add: node_ok_def demoHeader_def)
  have w: "list_all wake_ok [PollTick (Inr 2)]" by (simp add: wake_ok_def)
  have c: "demoConf 1 \<in> set [demoConf 1, demoConf 2]" "distinct (map cc_chainID [demoConf 1, demoConf 2])" "1 = cc_chainID (demoConf 1)"
    by (simp_all add: demoConf_def demoChain_def)
  have "length (blockEvents exampleEvm (newEventParser exampleEvm eventDefs) (demoConf 1) 1 [exampleLog] h) = 1" for h
  proof -
    have "hexToAddress exampleEvm (cc_lendingPool (demoConf 1)) = lg_address exampleLog"
      by (simp add: exampleEvm_def demoConf_def exampleLog_def read_show_nat)
    moreover obtain ev where "parseLog exampleEvm (newEventParser exampleEvm eventDefs) (h_timestamp h) 1 exampleLog = Inr ev"
      using exampleLog_parses by blast
    ultimately show ?thesis by (simp add: blockEvents_def map_filter_simps)
  qed
  with indexer_complete [OF demoService c n w, of "\<lambda>_. False" "\<lambda>_. [exampleLog]"] p demo_served show ?thesis
    by (auto simp: start)
qed

end
