(* ===== verification/IndexerFeed.thy ===== *)
theory IndexerFeed
  imports Indexer
begin

text \<open>
  The indexer fed by a websocket subscription. \<open>Indexer\<close> has what the service publishes for the headers it
  gets, \<open>BlockListener\<close> what headers the listener sends; here one is put behind the other, with \<open>Subscribe\<close>
  in place of \<open>Poll\<close>: as long as the subscription holds no block is missed, but blocks are indexed and
  published twice, at the end of the backfill and, all of them, when the subscription breaks.
\<close>

section \<open>The headers of a subscription\<close>

text \<open>Whatever is sent was fetched from the node or came with the subscription.\<close>

lemma fetchBlocks_sources:
  assumes "fetchBlocks fetch stopped latest k nextBlock = Some r"
  shows "\<forall>h\<in>set (snd (snd (snd r))). \<exists>k n. fetch k n = Inr h"
proof (rule fetchBlocks.raw_induct [OF _ assms], goal_cases)
  case (1 loop fetch stopped latest k nextBlock r)
  from 1(2) show ?case
    by (auto simp: bind_eq_Some_conv split: if_splits sum.splits dest!: 1(1)) blast+
qed

lemma poll_sources: "poll fetch stopped ws k n = Some (n', hs) \<Longrightarrow> \<forall>h\<in>set hs. \<exists>k n. fetch k n = Inr h"
proof (induction ws arbitrary: k n n' hs)
  case (Cons w ws)
  show ?case
  proof (cases "\<exists>latest. w = PollTick (Inr latest)")
    case True
    then obtain latest where w: "w = PollTick (Inr latest)" by blast
    obtain e k' m hs1 where f: "fetchBlocks fetch stopped latest k n = Some (e, k', m, hs1)"
      using Cons.prems w by (auto split: option.splits)
    note src = fetchBlocks_sources [OF f]
    show ?thesis
    proof (cases e)
      case Stopped
      then show ?thesis using Cons.prems w f src by simp
    next
      case Exhausted
      then obtain hs2 where "poll fetch stopped ws k' m = Some (n', hs2)" "hs = hs1 @ hs2"
        using Cons.prems w f by auto
      then show ?thesis using Cons.IH src by auto
    qed
  next
    case False
    then consider "w = PollDone" | err where "w = PollTick (Inl err)" by (metis pollWake.exhaust sum.exhaust)
    then show ?thesis using Cons by cases auto
  qed
qed simp

text \<open>A node with one chain of blocks, and blocks fetched from it by their numbers.\<close>

lemma numbered:
  assumes "\<And>n. num (blk n) = n" and "\<forall>h\<in>set hs. h \<in> range blk" and "map num hs = ns"
  shows "hs = map blk ns"
  using assms(2,3) by (induction hs arbitrary: ns) (auto simp: assms(1))

section \<open>Properties\<close>

text \<open>C9: While the subscription holds no block is missed. Let the listener subscribe, fill the gap up to the
  latest block, and then forward the heads that come, consecutive from one that is not beyond the block after that. Then
  every block from the one after the stored status up to the last head is indexed, the events published of the
  chain are those of the backfilled blocks followed by those of the heads, and a restart would go on behind
  the last head. When the first head is one of the backfilled blocks, as it may be, for the
  subscription comes before the question for the latest block, the overlap is published twice.\<close>

theorem subscription_covers:
  assumes "newService lib order adapters confs s = Inr sv" and "conf \<in> set confs" and "distinct (map cc_chainID confs)"
    and "c = cc_chainID conf" and "node_ok blockNumber fetch" and "\<forall>k n. \<exists>h. fetch k n = Inr h" and "latest \<noteq> - 1"
    and "start = startBlock inMemoryStore c s" and "start \<le> latest"
    and "map blockNumber heads = heights first (length heads)" and "unat first \<le> Suc (unat latest)" and "heads \<noteq> []"
  shows "\<exists>backfilled. subscribe fetch (\<lambda>_. False) (\<lambda>_. False) (Inr (map (NewHead \<circ> Some) heads)) ps (latest, None) start
        = Some (backfilled @ heads)
    \<and> map blockNumber backfilled = heights start (length backfilled) \<and> unat start + length backfilled = Suc (unat latest)
    \<and> (\<forall>n. unat start \<le> n \<and> n < unat first + length heads \<longrightarrow> of_nat n \<in> blockNumber ` set (backfilled @ heads))
    \<and> (start \<le> first \<and> first \<le> latest \<longrightarrow> first \<in> blockNumber ` set backfilled \<and> first \<in> blockNumber ` set heads)
    \<and> (\<forall>turns. servedBy blockLogs (backfilled @ heads) (ownTurns c turns) \<longrightarrow>
         filter (\<lambda>(k, ev). e_chainID ev = c) (is_published (runIndexer lib inMemoryStore turns sv))
           = concat (map (\<lambda>nh. blockEvents lib (newEventParser lib order) conf c (blockLogs (blockNumber nh)) (toBlockHeader c nh)) backfilled)
             @ concat (map (\<lambda>nh. blockEvents lib (newEventParser lib order) conf c (blockLogs (blockNumber nh)) (toBlockHeader c nh)) heads)
         \<and> startBlock inMemoryStore c (is_store (runIndexer lib inMemoryStore turns sv)) = first + of_nat (length heads))"
proof -
  obtain k' n' hs where f: "fetchBlocks fetch (\<lambda>_. False) latest 0 start = Some (Exhausted, k', n', hs)"
      "map blockNumber hs = heights start (length hs)" "unat n' = unat start + length hs" "unat n' = max (unat start) (Suc (unat latest))"
    using fetchBlocks_correct [OF assms(5,7), of "\<lambda>_. False" 0 start] assms(6) by auto
  have len: "unat start + length hs = Suc (unat latest)" using f(3,4) assms(9) by (simp add: word_le_nat_alt)
  have sub: "subscribe fetch (\<lambda>_. False) (\<lambda>_. False) (Inr (map (NewHead \<circ> Some) heads)) ps (latest, None) start = Some (hs @ heads)"
    using f(1) live_heads [of fetch "\<lambda>_. False" start latest heads "[]" k' 0] by (simp add: subscribe_def)
  have mem: "of_nat n \<in> set (heights m l)" if "unat m \<le> n" "n < unat m + l" for m :: u64 and n l
    using that by (auto simp: heights_def image_iff intro!: bexI [of _ "n - unat m"])
  have all: "of_nat n \<in> blockNumber ` set (hs @ heads)" if "unat start \<le> n" "n < unat first + length heads" for n
  proof (cases "n < unat start + length hs")
    case True
    then have "of_nat n \<in> set (map blockNumber hs)" unfolding f(2) using that(1) by (intro mem)
    then show ?thesis by auto
  next
    case False
    then have "of_nat n \<in> set (map blockNumber heads)" unfolding assms(10) using that(2) len assms(11) by (intro mem) simp_all
    then show ?thesis by auto
  qed
  have twice: "first \<in> blockNumber ` set hs \<and> first \<in> blockNumber ` set heads" if "start \<le> first \<and> first \<le> latest"
  proof -
    have "of_nat (unat first) \<in> set (map blockNumber hs)" unfolding f(2) using that len by (intro mem) (simp_all add: word_le_nat_alt)
    moreover have "first \<in> set (map blockNumber heads)" unfolding assms(10) using assms(12) by (cases heads) (auto simp: heights_Suc)
    ultimately show ?thesis by auto
  qed
  have "last (memSync s c # map blockNumber (hs @ heads)) + 1 = first + of_nat (length heads)"
    using assms(12) unfolding map_append assms(10) by (cases "length heads") (simp_all add: heights_def last_append)
  then show ?thesis using f(2) len sub all twice served_publishes [OF assms(1-4), of blockLogs "hs @ heads"]
    by (intro exI [of _ hs]) simp
qed

text \<open>C38: When the subscription breaks, everything it had delivered is published again. The listener goes on
  polling behind the block that was the latest when it subscribed, so with a node that answers it fetches every
  head again that it has forwarded since, and the service indexes and publishes their events a second time.\<close>

theorem subscription_repeats_events:
  assumes "newService lib order adapters confs s = Inr sv" and "conf \<in> set confs" and "distinct (map cc_chainID confs)"
    and "c = cc_chainID conf" and "\<And>n. blockNumber (blk n) = n" and "fetch = (\<lambda>k n. Inr (blk n))" and "latest \<noteq> - 1" and "0 < latest"
    and "start = startBlock inMemoryStore c s" and "start \<le> latest"
    and "heads = map (\<lambda>i. blk (latest + 1 + of_nat i)) [0..<m]"
    and "list_all wake_ok ps" and "PollDone \<notin> set ps" and "PollTick (Inr l) \<in> set ps" and "unat latest + m \<le> unat l"
  shows "\<exists>backfilled rest. subscribe fetch (\<lambda>_. False) (\<lambda>_. False) (Inr (map (NewHead \<circ> Some) heads @ [SubError ps])) qs (latest, None) start
        = Some (backfilled @ heads @ heads @ rest)
    \<and> (\<forall>turns. servedBy blockLogs (backfilled @ heads @ heads @ rest) (ownTurns c turns) \<longrightarrow>
         (\<exists>before again. filter (\<lambda>(k, ev). e_chainID ev = c) (is_published (runIndexer lib inMemoryStore turns sv))
           = before @ concat (map (\<lambda>nh. blockEvents lib (newEventParser lib order) conf c (blockLogs (blockNumber nh)) (toBlockHeader c nh)) heads)
             @ concat (map (\<lambda>nh. blockEvents lib (newEventParser lib order) conf c (blockLogs (blockNumber nh)) (toBlockHeader c nh)) heads) @ again))"
proof -
  have node: "node_ok blockNumber fetch" "\<forall>k n. \<exists>h. fetch k n = Inr h" using assms(5) by (simp_all add: node_ok_def assms(6))
  obtain k' n' hs where f: "fetchBlocks fetch (\<lambda>_. False) latest 0 start = Some (Exhausted, k', n', hs)"
    using fetchBlocks_correct [OF node(1) assms(7), of "\<lambda>_. False" 0 start] node(2) by auto
  obtain n'' polled where p: "poll fetch (\<lambda>_. False) ps k' (latest + 1) = Some (n'', polled)"
      "map blockNumber polled = heights (latest + 1) (length polled)" "unat n'' = unat (latest + 1) + length polled"
    using poll_heights [OF node(1) assms(12), of "\<lambda>_. False" k' "latest + 1"] by auto
  have "Suc (unat l) \<le> unat n''"
    using poll_reaches [OF node _ assms(12-14), of "\<lambda>_. False" k' "latest + 1"] p(1) by auto
  moreover have up: "unat (latest + 1) = Suc (unat latest)" using assms(7) by (metis add.commute add_eq_0_iff unatSuc)
  ultimately have len: "m \<le> length polled" using p(3) assms(15) by simp
  have "polled = map blk (heights (latest + 1) (length polled))"
    using poll_sources [OF p(1)] by (intro numbered [where num = blockNumber, OF assms(5) _ p(2)]) (auto simp: assms(6))
  then have "take m polled = map blk (take m (heights (latest + 1) (length polled)))" by (metis take_map)
  also have "take m (heights (latest + 1) (length polled)) = heights (latest + 1) m" using len by (simp add: heights_def take_map)
  finally have "take m polled = heads" by (simp add: assms(11) heights_def)
  then have pol: "polled = heads @ drop m polled" by (metis append_take_drop_id)
  have "subscribe fetch (\<lambda>_. False) (\<lambda>_. False) (Inr (map (NewHead \<circ> Some) heads @ [SubError ps])) qs (latest, None) start
      = Some (hs @ heads @ polled)"
    using f p(1) assms(8) by (simp add: subscribe_def live_heads Let_def)
  then have "subscribe fetch (\<lambda>_. False) (\<lambda>_. False) (Inr (map (NewHead \<circ> Some) heads @ [SubError ps])) qs (latest, None) start
      = Some (hs @ heads @ heads @ drop m polled)" using pol by simp
  then show ?thesis using served_publishes(1) [OF assms(1-4), of blockLogs "hs @ heads @ heads @ drop m polled"]
    by (intro exI [of _ hs] exI [of _ "drop m polled"]) (simp, blast)
qed
section \<open>Example\<close>

text \<open>The demo's service, which has nothing stored; blocks are known by their numbers. The node is at block two
  when the listener subscribes; blocks two and three come as heads, or three and four before it breaks.\<close>

lemma demo_conf: "demoConf 1 \<in> set [demoConf 1, demoConf 2]" "distinct (map cc_chainID [demoConf 1, demoConf 2])" "1 = cc_chainID (demoConf 1)"
  by (simp_all add: demoConf_def demoChain_def)

lemma demo_start: "1 = startBlock inMemoryStore 1 newInMemoryStore"
  by (simp add: startBlock_def inMemoryStore_def memSync_def newInMemoryStore_def)

lemma demo_number: "blockNumber (demoHeader n) = n"
  by (simp add: demoHeader_def)

definition demoFeed :: "nodeHeader list \<Rightarrow> (chainId \<times> nodeTurn \<times> nodeHeader option) list" where
  "demoFeed hs = map (\<lambda>h. (1, demoTurn, Some h)) hs"

lemma demoFeed_served: "servedBy (\<lambda>_. [exampleLog]) hs (ownTurns 1 (demoFeed hs))"
proof -
  have "ownTurns 1 (demoFeed hs) = map (\<lambda>h. (demoTurn, Some h)) hs" by (simp add: ownTurns_def demoFeed_def filter_map comp_def)
  then show ?thesis by (auto simp: servedBy_def demoTurn_def logs_ok_def comp_def)
qed

theorem subscription_covers_witness:
  "\<exists>hs. subscribe (\<lambda>_ n. Inr (demoHeader n)) (\<lambda>_. False) (\<lambda>_. False) (Inr (map (NewHead \<circ> Some) [demoHeader 2, demoHeader 3])) [] (2, None) 1 = Some hs
     \<and> startBlock inMemoryStore 1 (is_store (runIndexer exampleEvm inMemoryStore (demoFeed hs) demoService)) = 4"
proof -
  have n: "node_ok blockNumber (\<lambda>(_ :: nat) n. Inr (demoHeader n))" "\<forall>(k :: nat) n. \<exists>h. (Inr (demoHeader n) :: err + nodeHeader) = Inr h"
    by (simp_all add: node_ok_def demo_number)
  have h: "map blockNumber [demoHeader 2, demoHeader 3] = heights 2 (length [demoHeader 2, demoHeader 3])"
    by (simp add: demo_number heights_Suc)
  have l: "(2 :: u64) \<noteq> - 1" "(1 :: u64) \<le> 2" "unat (2 :: u64) \<le> Suc (unat (2 :: u64))" by (simp_all add: word_le_nat_alt)
  from subscription_covers [OF demoService demo_conf n l(1) demo_start l(2) h l(3) list.distinct(2), where blockLogs = "\<lambda>_. [exampleLog]" and ps = "[]"]
  obtain backfilled where b: "subscribe (\<lambda>_ n. Inr (demoHeader n)) (\<lambda>_. False) (\<lambda>_. False) (Inr (map (NewHead \<circ> Some) [demoHeader 2, demoHeader 3])) [] (2, None) 1
        = Some (backfilled @ [demoHeader 2, demoHeader 3])"
      "\<forall>turns. servedBy (\<lambda>_. [exampleLog]) (backfilled @ [demoHeader 2, demoHeader 3]) (ownTurns 1 turns) \<longrightarrow>
         startBlock inMemoryStore 1 (is_store (runIndexer exampleEvm inMemoryStore turns demoService)) = 2 + of_nat (length [demoHeader 2, demoHeader 3])"
    by (elim exE conjE) (rule that, assumption, rule allI, rule impI, drule spec, drule mp, assumption, erule conjunct2)
  with demoFeed_served [of "backfilled @ [demoHeader 2, demoHeader 3]"] show ?thesis
    by (intro exI [of _ "backfilled @ [demoHeader 2, demoHeader 3]"]) simp
qed

theorem subscription_repeats_events_witness:
  "\<exists>hs. subscribe (\<lambda>_ n. Inr (demoHeader n)) (\<lambda>_. False) (\<lambda>_. False) (Inr (map (NewHead \<circ> Some) [demoHeader 3, demoHeader 4] @ [SubError [PollTick (Inr 4)]]))
      [] (2, None) 1 = Some hs
     \<and> (\<exists>before evs again. filter (\<lambda>(k, ev). e_chainID ev = 1) (is_published (runIndexer exampleEvm inMemoryStore (demoFeed hs) demoService))
          = before @ evs @ evs @ again)"
proof -
  have h: "[demoHeader 3, demoHeader 4] = map (\<lambda>i. demoHeader (2 + 1 + of_nat i)) [0..<2]" by (simp add: upt_rec)
  have l: "(2 :: u64) \<noteq> - 1" "(0 :: u64) < 2" "(1 :: u64) \<le> 2" "list_all wake_ok [PollTick (Inr 4)]" "PollDone \<notin> set [PollTick (Inr 4)]"
      "PollTick (Inr 4) \<in> set [PollTick (Inr 4)]" "unat (2 :: u64) + 2 \<le> unat (4 :: u64)"
    by (simp_all add: word_le_nat_alt wake_ok_def)
  from subscription_repeats_events [OF demoService demo_conf demo_number refl l(1,2) demo_start l(3) h l(4-7), where blockLogs = "\<lambda>_. [exampleLog]" and qs = "[]"]
  obtain backfilled rest where b: "subscribe (\<lambda>_ n. Inr (demoHeader n)) (\<lambda>_. False) (\<lambda>_. False)
        (Inr (map (NewHead \<circ> Some) [demoHeader 3, demoHeader 4] @ [SubError [PollTick (Inr 4)]])) [] (2, None) 1
      = Some (backfilled @ [demoHeader 3, demoHeader 4] @ [demoHeader 3, demoHeader 4] @ rest)"
    and e: "\<forall>turns. servedBy (\<lambda>_. [exampleLog]) (backfilled @ [demoHeader 3, demoHeader 4] @ [demoHeader 3, demoHeader 4] @ rest) (ownTurns 1 turns) \<longrightarrow>
      (\<exists>before evs again. filter (\<lambda>(k, ev). e_chainID ev = 1) (is_published (runIndexer exampleEvm inMemoryStore turns demoService)) = before @ evs @ evs @ again)"
    by (elim exE conjE) (rule that, assumption, blast)
  from mp [OF spec [OF e] demoFeed_served] b show ?thesis by blast
qed

end
