(* ===== verification/Auth.thy ===== *)
theory Auth
  imports GoBytes GoText
begin

text \<open>
  \<open>internal/api/middleware\<close>: sign-in with Ethereum, tokens, the token check of a request, and the
  rate limit.

  go-ethereum's address and signature functions and the JWT library are the parameter \<open>authLib\<close>. Clock
  readings are nanoseconds since 1970. A middleware either ends the request with a status and an error
  text or passes the request's context on.
\<close>

section \<open>What the code calls of its libraries\<close>

record claims =
  cl_address :: string
  cl_issuer :: string
  cl_issuedAt :: int
  cl_expiresAt :: int

datatype jwtMethod = SigningMethodHMAC string | OtherMethod string

type_synonym pubKey = "nat \<times> nat"

record authLib =
  hexutilDecode :: "string \<Rightarrow> err + byte list"
  keccakHash :: "byte list \<Rightarrow> hash"
  ecrecover :: "hash \<Rightarrow> byte list \<Rightarrow> err + byte list"
  unmarshalPubkey :: "byte list \<Rightarrow> err + pubKey"
  pubkeyToAddress :: "pubKey \<Rightarrow> address"
  isHexAddress :: "string \<Rightarrow> bool"
  parseHexAddress :: "string \<Rightarrow> address"
  checksumHex :: "address \<Rightarrow> string"
  signHS256 :: "claims \<Rightarrow> byte list \<Rightarrow> err + string"
  parseWithClaims :: "string \<Rightarrow> (jwtMethod \<Rightarrow> err + byte list) \<Rightarrow> int \<Rightarrow> err + (claims \<times> bool)"

text \<open>A token signed with a key is accepted under that key, with its claims, until it expires, and not
  from then on.\<close>

definition jwt_ok :: "authLib \<Rightarrow> bool" where
  "jwt_ok lib \<longleftrightarrow> (\<forall>c key tok kf now. signHS256 lib c key = Inr tok \<longrightarrow> kf (SigningMethodHMAC ''HS256'') = Inr key \<longrightarrow>
     (if now < cl_expiresAt c * 10 ^ 9 then parseWithClaims lib tok kf now = Inr (c, True)
      else isl (parseWithClaims lib tok kf now)))"

section \<open>Tokens\<close>

record authConfig =
  secret :: string
  issuer :: string
  expiration :: int

text \<open>\<open>NewNumericDate\<close> truncates to seconds.\<close>

definition newClaims :: "authConfig \<Rightarrow> string \<Rightarrow> int \<Rightarrow> claims" where
  "newClaims cfg address now = \<lparr>cl_address = toLower address, cl_issuer = issuer cfg,
     cl_issuedAt = now div 10 ^ 9, cl_expiresAt = (now + expiration cfg) div 10 ^ 9\<rparr>"

definition generateJWT :: "authLib \<Rightarrow> authConfig \<Rightarrow> int \<Rightarrow> string \<Rightarrow> err + string" where
  "generateJWT lib cfg now address = signHS256 lib (newClaims cfg address now) (bytesOf (secret cfg))"

definition keyFunc :: "authConfig \<Rightarrow> jwtMethod \<Rightarrow> err + byte list" where
  "keyFunc cfg m = (case m of SigningMethodHMAC alg \<Rightarrow> Inr (bytesOf (secret cfg))
     | OtherMethod alg \<Rightarrow> Inl (''unexpected signing method: '' @ alg))"

definition validateJWT :: "authLib \<Rightarrow> authConfig \<Rightarrow> int \<Rightarrow> string \<Rightarrow> err + claims" where
  "validateJWT lib cfg now token =
     (case parseWithClaims lib token (keyFunc cfg) now of
        Inl e \<Rightarrow> Inl (''parse jwt: '' @ e)
      | Inr (claims, valid) \<Rightarrow> if valid then Inr claims else Inl ''invalid token'')"

section \<open>Sign-in with Ethereum\<close>

definition newline :: char where
  "newline = char_of (10 :: nat)"

definition prefixedMessage :: "string \<Rightarrow> byte list" where
  "prefixedMessage message = bytesOf (char_of (25 :: nat) # ''Ethereum Signed Message:'' @ newline # show_nat (length message) @ message)"

definition verifyEIP4361Signature :: "authLib \<Rightarrow> string \<Rightarrow> string \<Rightarrow> err + address" where
  "verifyEIP4361Signature lib message signatureHex =
     (case hexutilDecode lib signatureHex of
        Inl e \<Rightarrow> Inl (''decode signature: '' @ e)
      | Inr sig \<Rightarrow>
          if length sig \<noteq> 65 then Inl (''invalid signature length: '' @ show_nat (length sig))
          else
            let sigBytes = (if 27 \<le> sig ! 64 then sig[64 := sig ! 64 - 27] else sig)
            in (case ecrecover lib (keccakHash lib (prefixedMessage message)) sigBytes of
                  Inl e \<Rightarrow> Inl (''ecrecover: '' @ e)
                | Inr pub \<Rightarrow> (case unmarshalPubkey lib pub of
                    Inl e \<Rightarrow> Inl (''unmarshal pubkey: '' @ e)
                  | Inr key \<Rightarrow> Inr (pubkeyToAddress lib key))))"

definition extractAddressFromSIWEMessage :: "authLib \<Rightarrow> string \<Rightarrow> err + string" where
  "extractAddressFromSIWEMessage lib message =
     (let lines = splitOn newline message
      in if length lines < 2 then Inl ''invalid SIWE message format''
         else let address = trimSpace (lines ! 1)
              in if isHexAddress lib address then Inr address
                 else Inl (''invalid address in SIWE message: '' @ address))"

section \<open>The token check of a request\<close>

type_synonym requestContext = "string \<Rightarrow> string option"
type_synonym httpError = "nat \<times> string"
type_synonym query = "string \<Rightarrow> string option"

text \<open>gin's \<open>DefaultQuery\<close>; \<open>Query\<close> is the case of the empty default.\<close>

definition defaultQuery :: "query \<Rightarrow> string \<Rightarrow> string \<Rightarrow> string" where
  "defaultQuery q key def = (case q key of None \<Rightarrow> def | Some s \<Rightarrow> s)"

definition setWallet :: "string \<Rightarrow> requestContext \<Rightarrow> requestContext" where
  "setWallet address ctx = ctx(''wallet_address'' \<mapsto> address)"

text \<open>The header is empty when the request has none.\<close>

definition jwtAuthMiddleware :: "authLib \<Rightarrow> authConfig \<Rightarrow> int \<Rightarrow> string \<Rightarrow> requestContext \<Rightarrow> httpError + requestContext" where
  "jwtAuthMiddleware lib cfg now authHeader ctx =
     (if authHeader = '''' then Inl (401, ''missing authorization header'')
      else let parts = splitTwo (CHR '' '') authHeader
           in if length parts \<noteq> 2 \<or> toLower (parts ! 0) \<noteq> ''bearer'' then Inl (401, ''invalid authorization format'')
              else (case validateJWT lib cfg now (parts ! 1) of
                      Inl e \<Rightarrow> Inl (401, ''invalid token'')
                    | Inr claims \<Rightarrow> Inr (setWallet (cl_address claims) ctx)))"

section \<open>The rate limit\<close>

text \<open>The store's \<open>Increment\<close> counts a key within a window; without a store, and when it fails, the
  request passes. The clock is in seconds.\<close>

record 'w rateLimitConfig =
  requestsPerMinute :: int
  rateStore :: "(string \<Rightarrow> int \<Rightarrow> 'w \<Rightarrow> (err + int) \<times> 'w) option"

definition rateWindow :: int where
  "rateWindow = 60 * 10 ^ 9"

definition rateKey :: "string \<Rightarrow> nat \<Rightarrow> string" where
  "rateKey ip now = ''ratelimit:'' @ ip @ '':'' @ show_nat (now div 60)"

definition rateLimitMiddleware :: "'w rateLimitConfig \<Rightarrow> string \<Rightarrow> nat \<Rightarrow> 'w \<Rightarrow> httpError option \<times> 'w" where
  "rateLimitMiddleware cfg ip now w =
     (case rateStore cfg of
        None \<Rightarrow> (None, w)
      | Some increment \<Rightarrow>
          (case increment (rateKey ip now) rateWindow w of
             (Inl e, w1) \<Rightarrow> (None, w1)
           | (Inr count, w1) \<Rightarrow> (if requestsPerMinute cfg < count then Some (429, ''rate limit exceeded'') else None, w1)))"

section \<open>Splitting the header\<close>

lemma splitTwo_sep: "sep \<notin> set s \<Longrightarrow> splitTwo sep (s @ sep # t) = [s, t]"
  by (induction s) auto

lemma splitOn_line: "sep \<notin> set s \<Longrightarrow> splitOn sep (s @ sep # t) = s # splitOn sep t"
  by (induction s) auto

text \<open>What a bearer token gives.\<close>

lemma bearer_token:
  "jwtAuthMiddleware lib cfg now (''Bearer '' @ token) ctx =
     (case validateJWT lib cfg now token of Inl e \<Rightarrow> Inl (401, ''invalid token'') | Inr claims \<Rightarrow> Inr (setWallet (cl_address claims) ctx))"
proof -
  have "splitTwo (CHR '' '') (''Bearer '' @ token) = [''Bearer'', token]"
    using splitTwo_sep [of "CHR '' ''" "''Bearer''" token] by simp
  moreover have "toLower ''Bearer'' = ''bearer''" by code_simp
  ultimately show ?thesis by (simp add: jwtAuthMiddleware_def)
qed

text \<open>A token the service issued is accepted by the check until it expires.\<close>

lemma issued_token:
  assumes "jwt_ok lib" and "generateJWT lib cfg t address = Inr token"
  shows "now < (t + expiration cfg) div 10 ^ 9 * 10 ^ 9 \<Longrightarrow>
      jwtAuthMiddleware lib cfg now (''Bearer '' @ token) ctx = Inr (setWallet (toLower address) ctx)"
    and "\<not> now < (t + expiration cfg) div 10 ^ 9 * 10 ^ 9 \<Longrightarrow>
      jwtAuthMiddleware lib cfg now (''Bearer '' @ token) ctx = Inl (401, ''invalid token'')"
proof -
  have k: "keyFunc cfg (SigningMethodHMAC ''HS256'') = Inr (bytesOf (secret cfg))" by (simp add: keyFunc_def)
  have s: "signHS256 lib (newClaims cfg address t) (bytesOf (secret cfg)) = Inr token"
    using assms(2) by (simp add: generateJWT_def)
  have p: "if now < (t + expiration cfg) div 10 ^ 9 * 10 ^ 9
      then parseWithClaims lib token (keyFunc cfg) now = Inr (newClaims cfg address t, True)
      else isl (parseWithClaims lib token (keyFunc cfg) now)"
    using assms(1) s k unfolding jwt_ok_def by (metis claims.select_convs(4) newClaims_def)
  show "now < (t + expiration cfg) div 10 ^ 9 * 10 ^ 9 \<Longrightarrow>
      jwtAuthMiddleware lib cfg now (''Bearer '' @ token) ctx = Inr (setWallet (toLower address) ctx)"
    using p unfolding bearer_token by (simp add: validateJWT_def newClaims_def)
  show "\<not> now < (t + expiration cfg) div 10 ^ 9 * 10 ^ 9 \<Longrightarrow>
      jwtAuthMiddleware lib cfg now (''Bearer '' @ token) ctx = Inl (401, ''invalid token'')"
    using p unfolding bearer_token
    by (cases "parseWithClaims lib token (keyFunc cfg) now") (simp_all add: validateJWT_def newClaims_def)
qed

section \<open>Counting requests\<close>

text \<open>A store that counts: the answer is the number of increments of the key so far.\<close>

definition counting :: "(string \<Rightarrow> int \<Rightarrow> 'w \<Rightarrow> (err + int) \<times> 'w) \<Rightarrow> ('w \<Rightarrow> string \<Rightarrow> nat) \<Rightarrow> bool" where
  "counting increment count \<longleftrightarrow> (\<forall>k win w. fst (increment k win w) = Inr (int (count w k) + 1)
     \<and> count (snd (increment k win w)) = (count w)(k := count w k + 1))"

fun serveAll :: "'w rateLimitConfig \<Rightarrow> (string \<times> nat) list \<Rightarrow> 'w \<Rightarrow> bool list" where
  "serveAll cfg [] w = []"
| "serveAll cfg ((ip, now) # reqs) w =
     (let (r, w1) = rateLimitMiddleware cfg ip now w in (r = None) # serveAll cfg reqs w1)"

definition passed :: "string \<Rightarrow> (string \<times> nat) list \<Rightarrow> bool list \<Rightarrow> nat" where
  "passed k reqs rs = length (filter (\<lambda>((ip, now), ok). ok \<and> rateKey ip now = k) (zip reqs rs))"

lemma counting_passed:
  assumes "counting increment count" and "rateStore cfg = Some increment" and "requestsPerMinute cfg = int n"
  shows "passed k reqs (serveAll cfg reqs w) = min (n - count w k) (length (filter (\<lambda>(ip, now). rateKey ip now = k) reqs))"
proof (induction reqs arbitrary: w)
  case (Cons req reqs)
  obtain ip now where req: "req = (ip, now)" by fastforce
  define w1 where "w1 = snd (increment (rateKey ip now) rateWindow w)"
  have i: "increment (rateKey ip now) rateWindow w = (Inr (int (count w (rateKey ip now)) + 1), w1)"
    using assms(1) by (simp add: counting_def w1_def prod_eq_iff)
  have c: "count w1 k = count w k + (if rateKey ip now = k then 1 else 0)"
    using assms(1) by (simp add: counting_def w1_def)
  have s: "serveAll cfg (req # reqs) w = (count w (rateKey ip now) < n) # serveAll cfg reqs w1"
    by (auto simp: req rateLimitMiddleware_def assms(2,3) i)
  have "passed k (req # reqs) (serveAll cfg (req # reqs) w)
      = (if count w (rateKey ip now) < n \<and> rateKey ip now = k then 1 else 0) + passed k reqs (serveAll cfg reqs w1)"
    unfolding s by (auto simp: passed_def req)
  then show ?case using Cons [of w1] by (cases "rateKey ip now = k"; cases "count w k < n") (simp_all add: c req)
qed (simp add: passed_def)

lemma serveAll_room:
  assumes "counting increment count" and "rateStore cfg = Some increment" and "requestsPerMinute cfg = int n"
    and "count w (rateKey ip now) + r \<le> n"
  shows "\<exists>w'. serveAll cfg (replicate r (ip, now) @ rest) w = replicate r True @ serveAll cfg rest w'
    \<and> count w' = (count w)(rateKey ip now := count w (rateKey ip now) + r)"
  using assms(4)
proof (induction r arbitrary: w)
  case (Suc r)
  define w1 where "w1 = snd (increment (rateKey ip now) rateWindow w)"
  have i: "increment (rateKey ip now) rateWindow w = (Inr (int (count w (rateKey ip now)) + 1), w1)"
    using assms(1) by (simp add: counting_def w1_def prod_eq_iff)
  have c: "count w1 = (count w)(rateKey ip now := count w (rateKey ip now) + 1)"
    using assms(1) by (simp add: counting_def w1_def)
  have s: "serveAll cfg (replicate (Suc r) (ip, now) @ rest) w = True # serveAll cfg (replicate r (ip, now) @ rest) w1"
    using Suc.prems by (simp add: rateLimitMiddleware_def assms(2,3) i)
  have "count w1 (rateKey ip now) + r \<le> n" using Suc.prems by (simp add: c)
  from Suc.IH [OF this] obtain w' where w': "serveAll cfg (replicate r (ip, now) @ rest) w1 = replicate r True @ serveAll cfg rest w'"
      "count w' = (count w1)(rateKey ip now := count w1 (rateKey ip now) + r)"
    by blast
  then have "count w' = (count w)(rateKey ip now := count w (rateKey ip now) + Suc r)" by (simp add: c)
  then show ?case using w'(1) s by (intro exI [of _ w'] conjI) simp_all
qed auto

section \<open>Properties\<close>

definition demoIncrement :: "string \<Rightarrow> int \<Rightarrow> (string \<Rightarrow> nat) \<Rightarrow> (err + int) \<times> (string \<Rightarrow> nat)" where
  "demoIncrement k win w = (Inr (int (w k) + 1), w(k := w k + 1))"

lemma demoIncrement_counts: "counting demoIncrement (\<lambda>w. w)"
  by (simp add: counting_def demoIncrement_def)

text \<open>C26: With a store that counts, of all requests of one address in one minute exactly the first ones up
  to the limit pass, however the requests of other addresses and minutes come in between.\<close>

theorem rate_limit_exact:
  assumes "counting increment count" and "rateStore cfg = Some increment" and "requestsPerMinute cfg = int n"
    and "count w k = 0"
  shows "passed k reqs (serveAll cfg reqs w) = min n (length (filter (\<lambda>(ip, now). rateKey ip now = k) reqs))"
  using counting_passed [OF assms(1-3)] assms(4) by simp

theorem rate_limit_exact_witness:
  "passed (rateKey ''a'' 7) [(''a'', 3), (''b'', 3), (''a'', 5), (''a'', 70)]
     (serveAll \<lparr>requestsPerMinute = 1, rateStore = Some demoIncrement\<rparr> [(''a'', 3), (''b'', 3), (''a'', 5), (''a'', 70)] (\<lambda>_. 0)) = 1"
  by (subst rate_limit_exact [OF demoIncrement_counts, of _ 1]) (simp_all, code_simp)

text \<open>The window is the minute of the clock, not the last sixty seconds: around its turn twice the
  limit passes within one second.\<close>

theorem rate_limit_boundary:
  assumes "counting increment count" and "rateStore cfg = Some increment" and "requestsPerMinute cfg = int n"
    and "count w (rateKey ip (60 * m + 59)) = 0" and "count w (rateKey ip (60 * m + 60)) = 0"
  shows "serveAll cfg (replicate n (ip, 60 * m + 59) @ replicate n (ip, 60 * m + 60)) w = replicate (2 * n) True"
proof -
  have "show_nat m \<noteq> show_nat (Suc m)" using read_show_nat [of m] read_show_nat [of "Suc m"] by (metis option.inject n_not_Suc_n)
  then have d: "rateKey ip (60 * m + 60) \<noteq> rateKey ip (60 * m + 59)" by (simp add: rateKey_def)
  obtain w1 where w1: "serveAll cfg (replicate n (ip, 60 * m + 59) @ replicate n (ip, 60 * m + 60)) w
      = replicate n True @ serveAll cfg (replicate n (ip, 60 * m + 60)) w1"
      "count w1 = (count w)(rateKey ip (60 * m + 59) := n)"
    using serveAll_room [OF assms(1-3), of w ip "60 * m + 59" n "replicate n (ip, 60 * m + 60)"] assms(4) by auto
  have "serveAll cfg (replicate n (ip, 60 * m + 60)) w1 = replicate n True"
    using serveAll_room [OF assms(1-3), of w1 ip "60 * m + 60" n "[]"] assms(5) d by (auto simp: w1(2))
  then show ?thesis by (simp add: w1(1) mult_2 replicate_add)
qed

theorem rate_limit_boundary_witness:
  "serveAll \<lparr>requestsPerMinute = 2, rateStore = Some demoIncrement\<rparr> [(''a'', 119), (''a'', 119), (''a'', 120), (''a'', 120)] (\<lambda>_. 0)
     = [True, True, True, True]"
  using rate_limit_boundary [OF demoIncrement_counts, of "\<lparr>requestsPerMinute = 2, rateStore = Some demoIncrement\<rparr>" 2 "\<lambda>_. 0" "''a''" 1]
  by (simp add: numeral_2_eq_2)

end
