(* ===== verification/Hub.thy ===== *)
theory Hub
  imports Auth
begin

text \<open>
  \<open>internal/api/websocket/hub.go\<close> and \<open>handler.go\<close>: the clients of the WebSocket hub, their
  topics, and the messages sent to them.

  A \<open>*Client\<close> is an identifier, \<open>objects\<close> the heap of client objects. \<open>send\<close> is a buffered
  channel: a queue of at most 256 messages that can be closed; sending on a closed channel and
  closing it twice panic (\<open>None\<close>). The hub's mutex makes each of the operations one step, but
  for the two that send, which read a map entry under the lock and send after it; the clients a
  broadcast meets, in the order Go iterates over the topic's map, are an argument. Payloads are
  the JSON texts the encoder returned.
\<close>

section \<open>Data\<close>

type_synonym topic = string
type_synonym clientId = nat

record hubClient =
  sendBuffer :: "string list"
  sendClosed :: bool
  topics :: "topic fset"
  cUserAddress :: string

record hub =
  objects :: "(clientId, hubClient) fmap"
  clients :: "clientId fset"
  topicSubs :: "(topic, clientId fset) fmap"
  userIndex :: "(string, clientId) fmap"
  registerQ :: "clientId list"
  unregisterQ :: "clientId list"

text \<open>The envelope of what clients get; its data is JSON.\<close>

record 'j hubMessage =
  hm_topic :: topic
  hm_type :: string
  hm_data :: 'j
  hm_timestamp :: int

text \<open>How both senders make their payload, at \<open>now\<close> milliseconds; and the acknowledgement of a command,
  which is empty if it cannot be encoded.\<close>

definition encodeMessage :: "('d \<Rightarrow> err + 'j) \<Rightarrow> ('j hubMessage \<Rightarrow> err + string) \<Rightarrow> topic \<Rightarrow> string \<Rightarrow> 'd \<Rightarrow> int \<Rightarrow> err + string" where
  "encodeMessage marshalData marshalMessage t msgType data now =
     (case marshalData data of
        Inl e \<Rightarrow> Inl e
      | Inr raw \<Rightarrow> marshalMessage \<lparr>hm_topic = t, hm_type = msgType, hm_data = raw, hm_timestamp = now\<rparr>)"

definition ackMessage :: "(string hubMessage \<Rightarrow> err + string) \<Rightarrow> string \<Rightarrow> topic \<Rightarrow> int \<Rightarrow> string" where
  "ackMessage marshalMessage action t now =
     (case marshalMessage \<lparr>hm_topic = t, hm_type = action, hm_data = ''{}'', hm_timestamp = now\<rparr> of Inl e \<Rightarrow> [] | Inr payload \<Rightarrow> payload)"

definition newHub :: hub where
  "newHub = \<lparr>objects = fmempty, clients = {||}, topicSubs = fmempty, userIndex = fmempty,
     registerQ = [], unregisterQ = []\<rparr>"

definition sendBufferSize :: nat where
  "sendBufferSize = 256"

definition userOf :: "hub \<Rightarrow> clientId \<Rightarrow> string" where
  "userOf h c = (case fmlookup (objects h) c of None \<Rightarrow> '''' | Some x \<Rightarrow> cUserAddress x)"

definition updClient :: "clientId \<Rightarrow> (hubClient \<Rightarrow> hubClient) \<Rightarrow> hub \<Rightarrow> hub" where
  "updClient c f h = (case fmlookup (objects h) c of None \<Rightarrow> h
     | Some x \<Rightarrow> h\<lparr>objects := fmupd c (f x) (objects h)\<rparr>)"

section \<open>The hub's operations\<close>

definition addClient :: "clientId \<Rightarrow> hub \<Rightarrow> hub" where
  "addClient c h =
     (let h1 = h\<lparr>clients := finsert c (clients h)\<rparr> in
      if userOf h c \<noteq> '''' then h1\<lparr>userIndex := fmupd (userOf h c) c (userIndex h1)\<rparr> else h1)"

definition isClosed :: "hub \<Rightarrow> clientId \<Rightarrow> bool" where
  "isClosed h c = (case fmlookup (objects h) c of None \<Rightarrow> False | Some x \<Rightarrow> sendClosed x)"

text \<open>The loop of \<open>removeClient\<close> over the topics: the client leaves each, and a topic with no subscriber
  is deleted.\<close>

definition pruneSubs :: "clientId \<Rightarrow> (topic, clientId fset) fmap \<Rightarrow> (topic, clientId fset) fmap" where
  "pruneSubs c m = (let rest = fmmap (\<lambda>subs. subs |-| {|c|}) m
                    in fmfilter (\<lambda>t. fmlookup rest t \<noteq> Some {||}) rest)"

definition removeClient :: "clientId \<Rightarrow> hub \<Rightarrow> hub option" where
  "removeClient c h =
     (if c |\<notin>| clients h then Some h
      else (let h1 = h\<lparr>clients := clients h |-| {|c|}\<rparr>;
                h2 = (if userOf h c \<noteq> '''' then h1\<lparr>userIndex := fmdrop (userOf h c) (userIndex h1)\<rparr> else h1);
                h3 = h2\<lparr>topicSubs := pruneSubs c (topicSubs h2)\<rparr>
            in if isClosed h3 c then None else Some (updClient c (sendClosed_update (\<lambda>_. True)) h3)))"

definition hubSubscribe :: "clientId \<Rightarrow> topic \<Rightarrow> hub \<Rightarrow> hub" where
  "hubSubscribe c t h =
     (let subs = (case fmlookup (topicSubs h) t of None \<Rightarrow> {||} | Some s \<Rightarrow> s)
      in updClient c (topics_update (finsert t)) (h\<lparr>topicSubs := fmupd t (finsert c subs) (topicSubs h)\<rparr>))"

definition hubUnsubscribe :: "clientId \<Rightarrow> topic \<Rightarrow> hub \<Rightarrow> hub" where
  "hubUnsubscribe c t h =
     (let h1 = (case fmlookup (topicSubs h) t of None \<Rightarrow> h
                | Some subs \<Rightarrow> h\<lparr>topicSubs := fmupd t (subs |-| {|c|}) (topicSubs h)\<rparr>)
      in updClient c (topics_update (\<lambda>ts. ts |-| {|t|})) h1)"

text \<open>The \<open>select\<close> of both senders: send if there is room, or ask the hub to drop the client.\<close>

definition trySend :: "string \<Rightarrow> clientId \<Rightarrow> hub \<Rightarrow> hub option" where
  "trySend payload c h =
     (case fmlookup (objects h) c of
        None \<Rightarrow> Some h
      | Some x \<Rightarrow>
          if sendClosed x then None
          else if length (sendBuffer x) < sendBufferSize
          then Some (updClient c (sendBuffer_update (\<lambda>b. b @ [payload])) h)
          else Some (h\<lparr>unregisterQ := unregisterQ h @ [c]\<rparr>))"

fun sendAll :: "string \<Rightarrow> clientId list \<Rightarrow> hub \<Rightarrow> hub option" where
  "sendAll payload [] h = Some h"
| "sendAll payload (c # cs) h = do { h1 \<leftarrow> trySend payload c h; sendAll payload cs h1 }"

definition subscribers :: "topic \<Rightarrow> hub \<Rightarrow> clientId fset" where
  "subscribers t h = (case fmlookup (topicSubs h) t of None \<Rightarrow> {||} | Some s \<Rightarrow> s)"

text \<open>\<open>BroadcastToTopic\<close>, for an order of the topic's subscribers; nothing is sent when the data or
  the message cannot be encoded.\<close>

definition broadcastToTopic :: "err + string \<Rightarrow> clientId list \<Rightarrow> hub \<Rightarrow> hub option" where
  "broadcastToTopic encoded order h =
     (case encoded of Inl _ \<Rightarrow> Some h | Inr payload \<Rightarrow> sendAll payload order h)"

definition sendToUser :: "string \<Rightarrow> err + string \<Rightarrow> hub \<Rightarrow> hub option" where
  "sendToUser user encoded h =
     (case fmlookup (userIndex h) user of
        None \<Rightarrow> Some h
      | Some c \<Rightarrow> (case encoded of Inl _ \<Rightarrow> Some h | Inr payload \<Rightarrow> trySend payload c h))"

text \<open>\<open>Run\<close> serves the two channels in any order.\<close>

definition runRegister :: "hub \<Rightarrow> hub" where
  "runRegister h = (case registerQ h of [] \<Rightarrow> h | c # cs \<Rightarrow> addClient c (h\<lparr>registerQ := cs\<rparr>))"

definition runUnregister :: "hub \<Rightarrow> hub option" where
  "runUnregister h = (case unregisterQ h of [] \<Rightarrow> Some h | c # cs \<Rightarrow> removeClient c (h\<lparr>unregisterQ := cs\<rparr>))"

record hubStats =
  totalClients :: nat
  topicSubCounts :: "(topic, nat) fmap"
  authenticatedAt :: nat

definition stats :: "hub \<Rightarrow> hubStats" where
  "stats h = \<lparr>totalClients = fcard (clients h), topicSubCounts = fmmap fcard (topicSubs h),
     authenticatedAt = fmsize (userIndex h)\<rparr>"

section \<open>The handler\<close>

definition isValidTopic :: "topic \<Rightarrow> bool" where
  "isValidTopic t \<longleftrightarrow> t = ''prices'' \<or> t = ''positions'' \<or> t = ''notifications'' \<or> t = ''markets''"

text \<open>The request context: keys to values. \<open>HandleUpgrade\<close> reads the address from it, makes a new
  client (the identifier is fresh) and queues its registration.\<close>

definition handleUpgrade :: "requestContext \<Rightarrow> clientId \<Rightarrow> hub \<Rightarrow> hub" where
  "handleUpgrade ctx c h =
     (let addr = (case ctx ''user_address'' of None \<Rightarrow> '''' | Some a \<Rightarrow> a);
          client = \<lparr>sendBuffer = [], sendClosed = False, topics = {||}, cUserAddress = addr\<rparr>
      in h\<lparr>objects := fmupd c client (objects h), registerQ := registerQ h @ [c]\<rparr>)"

text \<open>One command of the client, decoded; the acknowledgement is dropped when the buffer is full.
  Sending it on a closed channel panics.\<close>

datatype clientCommand = CmdSubscribe topic | CmdUnsubscribe topic | CmdOther

definition sendAck :: "string \<Rightarrow> clientId \<Rightarrow> hub \<Rightarrow> hub option" where
  "sendAck ack c h =
     (case fmlookup (objects h) c of
        None \<Rightarrow> Some h
      | Some x \<Rightarrow>
          if sendClosed x then None
          else if length (sendBuffer x) < sendBufferSize
          then Some (updClient c (sendBuffer_update (\<lambda>b. b @ [ack])) h)
          else Some h)"

definition onCommand :: "clientCommand \<Rightarrow> string \<Rightarrow> clientId \<Rightarrow> hub \<Rightarrow> hub option" where
  "onCommand cmd ack c h =
     (case cmd of
        CmdSubscribe t \<Rightarrow> if isValidTopic t then sendAck ack c (hubSubscribe c t h) else Some h
      | CmdUnsubscribe t \<Rightarrow> sendAck ack c (hubUnsubscribe c t h)
      | CmdOther \<Rightarrow> Some h)"

text \<open>The end of \<open>readPump\<close>.\<close>

definition readPumpEnd :: "clientId \<Rightarrow> hub \<Rightarrow> hub" where
  "readPumpEnd c h = h\<lparr>unregisterQ := unregisterQ h @ [c]\<rparr>"

text \<open>One turn of \<open>writePump\<close>, with the connection's answers: the frames written, and whether the pump goes on.
  It takes a message and then everything else that is buffered, into one frame, separated by newlines; when
  no frame can be begun the message is lost. A closed channel is read until it is empty.\<close>

datatype wsFrame = TextFrame string | CloseFrame | PingFrame

record wsAnswer =
  nextWriterErr :: "err option"
  frameCloseErr :: "err option"
  pingErr :: "err option"

definition writePumpTurn :: "wsAnswer \<Rightarrow> clientId \<Rightarrow> hub \<Rightarrow> hub \<times> wsFrame list \<times> bool" where
  "writePumpTurn ans c h =
     (case fmlookup (objects h) c of
        None \<Rightarrow> (h, [], True)
      | Some x \<Rightarrow>
          (case sendBuffer x of
             [] \<Rightarrow> if sendClosed x then (h, [CloseFrame], False) else (h, [], True)
           | message # queued \<Rightarrow>
               if nextWriterErr ans \<noteq> None then (updClient c (sendBuffer_update tl) h, [], False)
               else (updClient c (sendBuffer_update (\<lambda>_. [])) h,
                 if frameCloseErr ans = None then [TextFrame (message @ concat (map (\<lambda>m. newline # m) queued))] else [],
                 frameCloseErr ans = None)))"

definition writePumpPing :: "wsAnswer \<Rightarrow> wsFrame list \<times> bool" where
  "writePumpPing ans = (if pingErr ans = None then ([PingFrame], True) else ([], False))"

section \<open>The invariant\<close>

text \<open>A client is open from its creation to its removal; topics list only clients that are registered
  or about to be, and the user index only registered ones, under their own address.\<close>

definition openClient :: "hub \<Rightarrow> clientId \<Rightarrow> bool" where
  "openClient h c \<longleftrightarrow> (\<exists>x. fmlookup (objects h) c = Some x \<and> \<not> sendClosed x)"

definition present :: "hub \<Rightarrow> clientId set" where
  "present h = fset (clients h) \<union> set (registerQ h)"

definition hub_ok :: "hub \<Rightarrow> bool" where
  "hub_ok h \<longleftrightarrow> (\<forall>c\<in>present h. openClient h c) \<and> distinct (registerQ h)
     \<and> fset (clients h) \<inter> set (registerQ h) = {}
     \<and> (\<forall>t. fset (subscribers t h) \<subseteq> present h)
     \<and> (\<forall>u c. fmlookup (userIndex h) u = Some c \<longrightarrow> c |\<in>| clients h \<and> userOf h c = u \<and> u \<noteq> '''')"

lemma updClient_fields [simp]:
  "clients (updClient c f h) = clients h" "topicSubs (updClient c f h) = topicSubs h"
  "userIndex (updClient c f h) = userIndex h" "registerQ (updClient c f h) = registerQ h"
  "unregisterQ (updClient c f h) = unregisterQ h"
  by (simp_all add: updClient_def split: option.split)

lemma updClient_lookup:
  "fmlookup (objects (updClient c f h)) d = (if d = c then map_option f (fmlookup (objects h) c) else fmlookup (objects h) d)"
  by (simp add: updClient_def split: option.split)

lemma subscribers_updClient [simp]: "subscribers t (updClient c f h) = subscribers t h"
  by (simp add: subscribers_def)

lemma present_updClient [simp]: "present (updClient c f h) = present h"
  by (simp add: present_def)

text \<open>Changes that keep the channels' state, the users and the sets keep the invariant.\<close>

lemma hub_ok_updClient:
  assumes "hub_ok h" and "\<And>x. sendClosed (f x) = sendClosed x" and "\<And>x. cUserAddress (f x) = cUserAddress x"
  shows "hub_ok (updClient c f h)"
proof -
  have "userOf (updClient c f h) d = userOf h d" for d
    using assms(3) by (simp add: userOf_def updClient_lookup split: option.split)
  moreover have "openClient (updClient c f h) d = openClient h d" for d
    using assms(2) by (auto simp: openClient_def updClient_lookup)
  ultimately show ?thesis using assms(1) by (simp add: hub_ok_def)
qed

lemma hub_ok_new: "hub_ok newHub"
  by (simp add: hub_ok_def newHub_def present_def subscribers_def)

lemma addClient_ok:
  assumes "hub_ok h" and "registerQ h = c # cs"
  shows "hub_ok (runRegister h)"
proof -
  let ?h = "runRegister h"
  have h: "clients ?h = finsert c (clients h)" "registerQ ?h = cs" "objects ?h = objects h" "topicSubs ?h = topicSubs h"
      "userIndex ?h = (if userOf h c \<noteq> '''' then fmupd (userOf h c) c (userIndex h) else userIndex h)"
    using assms(2) by (simp_all add: runRegister_def addClient_def Let_def userOf_def)
  have "present ?h = present h" using h assms(2) by (auto simp: present_def)
  moreover have "openClient ?h = openClient h" "userOf ?h = userOf h" "subscribers t ?h = subscribers t h" for t
    using h by (simp_all add: openClient_def userOf_def subscribers_def fun_eq_iff)
  ultimately show ?thesis using assms h by (auto simp: hub_ok_def split: if_splits)
qed

lemma subscribe_ok:
  assumes "hub_ok h" and "c \<in> present h"
  shows "hub_ok (hubSubscribe c t h)"
proof -
  let ?g = "h\<lparr>topicSubs := fmupd t (finsert c (subscribers t h)) (topicSubs h)\<rparr>"
  have "present ?g = present h" "openClient ?g = openClient h" "userOf ?g = userOf h"
    by (simp_all add: present_def openClient_def userOf_def fun_eq_iff)
  moreover have "subscribers t' ?g = (if t' = t then finsert c (subscribers t h) else subscribers t' h)" for t'
    by (simp add: subscribers_def)
  ultimately have "hub_ok ?g" using assms by (auto simp: hub_ok_def)
  then have "hub_ok (updClient c (topics_update (finsert t)) ?g)" by (rule hub_ok_updClient) simp_all
  then show ?thesis by (simp add: hubSubscribe_def subscribers_def)
qed

lemma unsubscribe_ok:
  assumes "hub_ok h"
  shows "hub_ok (hubUnsubscribe c t h)"
proof -
  define g where "g = (case fmlookup (topicSubs h) t of None \<Rightarrow> h
     | Some subs \<Rightarrow> h\<lparr>topicSubs := fmupd t (subs |-| {|c|}) (topicSubs h)\<rparr>)"
  have "present g = present h" "openClient g = openClient h" "userOf g = userOf h" "clients g = clients h"
      "registerQ g = registerQ h" "userIndex g = userIndex h"
    by (simp_all add: g_def present_def openClient_def userOf_def fun_eq_iff split: option.split)
  moreover have "fset (subscribers t' g) \<subseteq> fset (subscribers t' h)" for t'
    by (auto simp: g_def subscribers_def split: option.splits if_splits)
  ultimately have "hub_ok g" using assms by (simp add: hub_ok_def) blast
  then have "hub_ok (updClient c (topics_update (\<lambda>ts. ts |-| {|t|})) g)" by (rule hub_ok_updClient) simp_all
  then show ?thesis by (simp add: hubUnsubscribe_def g_def)
qed

text \<open>Removal: closing is the last step, and the client has left every index by then.\<close>

definition dropClient :: "clientId \<Rightarrow> hub \<Rightarrow> hub" where
  "dropClient c h = h\<lparr>clients := clients h |-| {|c|},
     userIndex := (if userOf h c \<noteq> '''' then fmdrop (userOf h c) (userIndex h) else userIndex h),
     topicSubs := pruneSubs c (topicSubs h)\<rparr>"

lemma removeClient_dropClient:
  "removeClient c h = (if c |\<notin>| clients h then Some h else if isClosed h c then None
     else Some (updClient c (sendClosed_update (\<lambda>_. True)) (dropClient c h)))"
  by (simp add: removeClient_def dropClient_def Let_def isClosed_def userOf_def)

lemma dropClient_fields [simp]:
  "clients (dropClient c h) = clients h |-| {|c|}" "objects (dropClient c h) = objects h"
  "registerQ (dropClient c h) = registerQ h" "unregisterQ (dropClient c h) = unregisterQ h"
  by (simp_all add: dropClient_def)

lemma subscribers_dropClient [simp]: "subscribers t (dropClient c h) = subscribers t h |-| {|c|}"
  by (auto simp: subscribers_def dropClient_def pruneSubs_def Let_def split: option.splits)

lemma removeClient_ok:
  assumes h: "hub_ok h"
  shows "\<exists>h'. removeClient c h = Some h' \<and> hub_ok h' \<and> registerQ h' = registerQ h"
proof (cases "c |\<in>| clients h")
  case False
  then show ?thesis using h by (simp add: removeClient_dropClient)
next
  case True
  define g where "g = updClient c (sendClosed_update (\<lambda>_. True)) (dropClient c h)"
  have "openClient h c" using h True by (simp add: hub_ok_def present_def)
  then have r: "removeClient c h = Some g"
    using True by (auto simp: removeClient_dropClient g_def isClosed_def openClient_def)
  have c: "c \<notin> set (registerQ h)" using h True by (auto simp: hub_ok_def)
  have p: "present g = present h - {c}" using c by (auto simp: present_def g_def)
  have o: "openClient g d = openClient h d" if "d \<noteq> c" for d
    using that by (simp add: openClient_def g_def updClient_lookup)
  have u: "userOf g d = userOf h d" for d
    by (simp add: userOf_def g_def updClient_lookup split: option.split)
  have s: "subscribers t g = subscribers t h |-| {|c|}" for t by (simp add: g_def)
  have i: "d |\<in>| clients g \<and> userOf g d = v \<and> v \<noteq> ''''" if e: "fmlookup (userIndex g) v = Some d" for v d
  proof -
    have "fmlookup (userIndex h) v = Some d" "userOf h c \<noteq> '''' \<longrightarrow> v \<noteq> userOf h c"
      using e by (auto simp: g_def dropClient_def split: if_splits)
    then show ?thesis using h unfolding u by (auto simp: hub_ok_def g_def)
  qed
  have f: "clients g = clients h |-| {|c|}" "registerQ g = registerQ h" by (simp_all add: g_def)
  show ?thesis using h c i by (auto simp: r hub_ok_def p s o f)
qed

section \<open>Every operation keeps the invariant\<close>

text \<open>What the senders do for an open client: never a panic, and only its buffer or the queue of
  clients to drop changes.\<close>

lemma trySend_ok:
  assumes h: "hub_ok h" and c: "openClient h c"
  shows "\<exists>h'. trySend p c h = Some h' \<and> hub_ok h' \<and> openClient h' = openClient h \<and> present h' = present h
    \<and> topicSubs h' = topicSubs h"
proof -
  obtain x where x: "fmlookup (objects h) c = Some x" "\<not> sendClosed x" using c by (auto simp: openClient_def)
  define g where "g = h\<lparr>unregisterQ := unregisterQ h @ [c]\<rparr>"
  define s where "s = updClient c (sendBuffer_update (\<lambda>b. b @ [p])) h"
  have "hub_ok s" unfolding s_def by (rule hub_ok_updClient [OF h]) simp_all
  moreover have "hub_ok g" using h by (simp add: hub_ok_def g_def openClient_def userOf_def present_def subscribers_def)
  moreover have "openClient s = openClient h" "openClient g = openClient h"
    by (auto simp: s_def g_def openClient_def updClient_lookup fun_eq_iff)
  moreover have "present s = present h" "present g = present h" "topicSubs s = topicSubs h" "topicSubs g = topicSubs h"
    by (simp_all add: s_def g_def present_def)
  moreover have "trySend p c h = Some (if length (sendBuffer x) < sendBufferSize then s else g)"
    using x by (simp add: trySend_def s_def g_def)
  ultimately show ?thesis by (simp split: if_splits)
qed

lemma sendAll_ok:
  assumes "hub_ok h" and "\<forall>c\<in>set cs. openClient h c"
  shows "\<exists>h'. sendAll p cs h = Some h' \<and> hub_ok h' \<and> topicSubs h' = topicSubs h"
  using assms
proof (induction cs arbitrary: h)
  case (Cons c cs)
  obtain g where g: "trySend p c h = Some g" "hub_ok g" "openClient g = openClient h" "topicSubs g = topicSubs h"
    using trySend_ok [of h c p] Cons.prems by auto
  then show ?case using Cons.IH [of g] Cons.prems by simp
qed simp

lemma broadcastToTopic_ok:
  assumes h: "hub_ok h" and cs: "set order \<subseteq> fset (subscribers t h)"
  shows "\<exists>h'. broadcastToTopic encoded order h = Some h' \<and> hub_ok h'"
proof (cases encoded)
  case (Inr p)
  have "\<forall>c\<in>set order. openClient h c" using h cs by (force simp: hub_ok_def)
  then show ?thesis using sendAll_ok [OF h, of order p] Inr by (auto simp: broadcastToTopic_def)
qed (simp add: broadcastToTopic_def h)

lemma sendToUser_ok:
  assumes h: "hub_ok h"
  shows "\<exists>h'. sendToUser u encoded h = Some h' \<and> hub_ok h'"
proof (cases "fmlookup (userIndex h) u")
  case (Some c)
  then have "openClient h c" using h by (auto simp: hub_ok_def present_def)
  then show ?thesis using trySend_ok [OF h, of c] Some h
    by (cases encoded) (simp_all add: sendToUser_def, blast)
qed (simp add: sendToUser_def h)

lemma sendAck_ok:
  assumes h: "hub_ok h" and c: "openClient h c"
  shows "\<exists>h'. sendAck a c h = Some h' \<and> hub_ok h'"
proof -
  obtain x where x: "fmlookup (objects h) c = Some x" "\<not> sendClosed x" using c by (auto simp: openClient_def)
  have "hub_ok (updClient c (sendBuffer_update (\<lambda>b. b @ [a])) h)" by (rule hub_ok_updClient [OF h]) simp_all
  then show ?thesis using x h by (simp add: sendAck_def)
qed

lemma openClient_commands [simp]:
  "openClient (hubSubscribe c t h) d = openClient h d" "openClient (hubUnsubscribe c t h) d = openClient h d"
  by (auto simp: openClient_def hubSubscribe_def hubUnsubscribe_def Let_def updClient_lookup split: option.splits)

lemma onCommand_ok:
  assumes h: "hub_ok h" and c: "c \<in> present h"
  shows "\<exists>h'. onCommand cmd a c h = Some h' \<and> hub_ok h'"
proof -
  have o: "openClient h c" using h c by (simp add: hub_ok_def)
  show ?thesis
    using h sendAck_ok [OF subscribe_ok [OF h c]] sendAck_ok [OF unsubscribe_ok [OF h]] o
    by (auto simp: onCommand_def split: clientCommand.split)
qed

lemma runUnregister_ok:
  assumes h: "hub_ok h"
  shows "\<exists>h'. runUnregister h = Some h' \<and> hub_ok h'"
proof (cases "unregisterQ h")
  case (Cons c cs)
  have "hub_ok (h\<lparr>unregisterQ := cs\<rparr>)"
    using h by (simp add: hub_ok_def openClient_def userOf_def present_def subscribers_def)
  then show ?thesis using removeClient_ok [of "h\<lparr>unregisterQ := cs\<rparr>" c] Cons by (auto simp: runUnregister_def)
qed (simp add: runUnregister_def h)

lemma runRegister_ok: "hub_ok h \<Longrightarrow> hub_ok (runRegister h)"
  by (cases "registerQ h") (simp add: runRegister_def, rule addClient_ok)

lemma handleUpgrade_ok:
  assumes h: "hub_ok h" and c: "c |\<notin>| fmdom (objects h)"
  shows "hub_ok (handleUpgrade ctx c h)"
proof -
  define g where "g = handleUpgrade ctx c h"
  have n: "c \<notin> present h" using h c by (auto simp: hub_ok_def openClient_def fmdomI)
  have g: "clients g = clients h" "registerQ g = registerQ h @ [c]" "userIndex g = userIndex h" "topicSubs g = topicSubs h"
    by (simp_all add: g_def handleUpgrade_def Let_def)
  have p: "present g = insert c (present h)" by (auto simp: present_def g)
  have o: "openClient g d = (d = c \<or> openClient h d)" for d
    by (auto simp: g_def handleUpgrade_def Let_def openClient_def)
  have u: "userOf g d = (if d = c then userOf g c else userOf h d)" for d
    by (simp add: userOf_def g_def handleUpgrade_def Let_def)
  have i: "userOf g d = userOf h d" if "d |\<in>| clients h" for d
    using that n u [of d] by (auto simp: present_def)
  have "subscribers t g = subscribers t h" for t by (simp add: subscribers_def g)
  then have "hub_ok g" using h n i by (auto simp: hub_ok_def p o g present_def)
  then show ?thesis by (simp add: g_def)
qed

lemma readPumpEnd_ok: "hub_ok h \<Longrightarrow> hub_ok (readPumpEnd c h)"
  by (simp add: hub_ok_def readPumpEnd_def openClient_def userOf_def present_def subscribers_def)

lemma writePumpTurn_ok: "hub_ok h \<Longrightarrow> hub_ok (fst (writePumpTurn ans c h))"
  by (auto simp: writePumpTurn_def intro!: hub_ok_updClient split: option.split list.split)

text \<open>On a good connection a turn writes all that is buffered, in order, and empties the buffer.\<close>

definition goodConn :: wsAnswer where
  "goodConn = \<lparr>nextWriterErr = None, frameCloseErr = None, pingErr = None\<rparr>"

lemma writePumpTurn_writes:
  assumes "fmlookup (objects h) c = Some x" and "sendBuffer x = message # queued"
  shows "\<exists>h'. writePumpTurn goodConn c h = (h', [TextFrame (message @ concat (map (\<lambda>m. newline # m) queued))], True)
    \<and> fmlookup (objects h') c = Some (x\<lparr>sendBuffer := []\<rparr>)"
  using assms by (simp add: writePumpTurn_def goodConn_def updClient_def)

section \<open>The hub under any interleaving\<close>

text \<open>One step of the server: the hub's loop, a broadcaster, a handler's read or write pump. A command
  is read from a client that the hub has not removed; the two other guards say that a new client is a
  new object, and that a broadcast meets clients of the topic.\<close>

inductive hubStep :: "hub \<Rightarrow> hub option \<Rightarrow> bool" where
  upgrade: "c |\<notin>| fmdom (objects h) \<Longrightarrow> hubStep h (Some (handleUpgrade ctx c h))"
| register: "hubStep h (Some (runRegister h))"
| unregister: "hubStep h (runUnregister h)"
| broadcast: "set order \<subseteq> fset (subscribers t h) \<Longrightarrow> hubStep h (broadcastToTopic encoded order h)"
| send: "hubStep h (sendToUser u encoded h)"
| command: "c \<in> present h \<Longrightarrow> hubStep h (onCommand cmd ack c h)"
| closed: "hubStep h (Some (readPumpEnd c h))"
| drain: "hubStep h (Some (fst (writePumpTurn ans c h)))"

inductive hubReach :: "hub \<Rightarrow> bool" where
  start: "hubReach newHub"
| more: "hubReach h \<Longrightarrow> hubStep h (Some h') \<Longrightarrow> hubReach h'"

lemma hubStep_ok: "hubStep h r \<Longrightarrow> hub_ok h \<Longrightarrow> \<exists>h'. r = Some h' \<and> hub_ok h'"
  by (induction rule: hubStep.induct)
     (simp_all add: handleUpgrade_ok runRegister_ok runUnregister_ok broadcastToTopic_ok sendToUser_ok
       onCommand_ok readPumpEnd_ok writePumpTurn_ok)

lemma hubReach_ok: "hubReach h \<Longrightarrow> hub_ok h"
  by (induction rule: hubReach.induct) (use hub_ok_new hubStep_ok in blast)+

section \<open>Delivery\<close>

definition full :: "hub \<Rightarrow> clientId \<Rightarrow> bool" where
  "full h c = (case fmlookup (objects h) c of None \<Rightarrow> False | Some x \<Rightarrow> sendBufferSize \<le> length (sendBuffer x))"

lemma trySend_full:
  assumes "openClient h c"
  shows "trySend p c h = Some (if full h c then h\<lparr>unregisterQ := unregisterQ h @ [c]\<rparr>
    else updClient c (sendBuffer_update (\<lambda>b. b @ [p])) h)"
  using assms by (auto simp: trySend_def full_def openClient_def)

text \<open>What a whole broadcast leaves: the clients with room have the message at the end of their
  buffer, the others are queued to be dropped, in the order they were met.\<close>

lemma sendAll_delivers:
  assumes "\<forall>c\<in>set cs. openClient h c" and "distinct cs"
  shows "\<exists>h'. sendAll p cs h = Some h' \<and> unregisterQ h' = unregisterQ h @ filter (full h) cs
    \<and> (\<forall>c. fmlookup (objects h') c = (if c \<in> set cs \<and> \<not> full h c
         then map_option (sendBuffer_update (\<lambda>b. b @ [p])) (fmlookup (objects h) c) else fmlookup (objects h) c))
    \<and> clients h' = clients h \<and> topicSubs h' = topicSubs h \<and> userIndex h' = userIndex h \<and> registerQ h' = registerQ h"
  using assms
proof (induction cs arbitrary: h)
  case (Cons c cs)
  define g where "g = (if full h c then h\<lparr>unregisterQ := unregisterQ h @ [c]\<rparr>
    else updClient c (sendBuffer_update (\<lambda>b. b @ [p])) h)"
  have t: "trySend p c h = Some g" using Cons.prems by (simp add: trySend_full g_def)
  have o: "openClient g = openClient h" by (auto simp: g_def openClient_def updClient_lookup fun_eq_iff)
  have f: "full g d = full h d" if "d \<noteq> c" for d using that by (simp add: full_def g_def updClient_lookup)
  have "full g x = full h x" if "x \<in> set cs" for x using f [of x] that Cons.prems(2) by auto
  then have fs: "filter (full g) cs = filter (full h) cs" by (intro filter_cong) simp_all
  have l: "fmlookup (objects g) d = (if d = c \<and> \<not> full h c then map_option (sendBuffer_update (\<lambda>b. b @ [p])) (fmlookup (objects h) d)
      else fmlookup (objects h) d)" for d
    by (simp add: g_def updClient_lookup)
  have e: "unregisterQ g = unregisterQ h @ (if full h c then [c] else [])" "clients g = clients h"
      "topicSubs g = topicSubs h" "userIndex g = userIndex h" "registerQ g = registerQ h"
    by (simp_all add: g_def)
  obtain h' where h': "sendAll p cs g = Some h'" "unregisterQ h' = unregisterQ g @ filter (full g) cs"
      "\<forall>d. fmlookup (objects h') d = (if d \<in> set cs \<and> \<not> full g d
         then map_option (sendBuffer_update (\<lambda>b. b @ [p])) (fmlookup (objects g) d) else fmlookup (objects g) d)"
      "clients h' = clients g" "topicSubs h' = topicSubs g" "userIndex h' = userIndex g" "registerQ h' = registerQ g"
    using Cons.IH [of g] Cons.prems o by auto
  have "fmlookup (objects h') d = (if d \<in> set (c # cs) \<and> \<not> full h d
         then map_option (sendBuffer_update (\<lambda>b. b @ [p])) (fmlookup (objects h) d) else fmlookup (objects h) d)" for d
    using Cons.prems(2) f [of d] by (cases "d = c") (simp_all add: h'(3) l)
  then show ?case using h' t e fs by simp
qed simp

section \<open>Properties\<close>

text \<open>Two connections of one user, the first one subscribed to prices: the hub the witnesses start from.\<close>

definition twoClients :: hub where
  "twoClients = hubSubscribe 0 ''prices'' (runRegister (runRegister
     (handleUpgrade (\<lambda>_. Some ''u'') 1 (handleUpgrade (\<lambda>_. Some ''u'') 0 newHub))))"

lemma twoClients_reach: "hubReach twoClients"
proof -
  let ?ctx = "\<lambda>_. Some ''u''"
  let ?a = "handleUpgrade ?ctx 0 newHub" let ?b = "handleUpgrade ?ctx 1 ?a" let ?r = "runRegister (runRegister ?b)"
  have "hubReach ?a" by (rule hubReach.more [OF hubReach.start hubStep.upgrade]) (simp add: newHub_def)
  then have "hubReach ?b"
    by (rule hubReach.more [OF _ hubStep.upgrade]) (simp add: newHub_def handleUpgrade_def Let_def)
  then have "hubReach ?r" by (meson hubReach.more hubStep.register)
  moreover have "0 \<in> present ?r"
    by (simp add: present_def runRegister_def addClient_def handleUpgrade_def newHub_def Let_def userOf_def)
  moreover have "onCommand (CmdSubscribe ''prices'') '''' 0 ?r = Some (updClient 0 (sendBuffer_update (\<lambda>b. b @ [''''])) twoClients)"
    by (simp add: onCommand_def isValidTopic_def sendAck_def twoClients_def hubSubscribe_def runRegister_def addClient_def
       handleUpgrade_def newHub_def Let_def userOf_def updClient_def sendBufferSize_def)
  ultimately have "hubReach (updClient 0 (sendBuffer_update (\<lambda>b. b @ [''''])) twoClients)"
    by (metis hubReach.more hubStep.command)
  then have "hubReach (fst (writePumpTurn goodConn 0 (updClient 0 (sendBuffer_update (\<lambda>b. b @ [''''])) twoClients)))"
    by (meson hubReach.more hubStep.drain)
  moreover have "fst (writePumpTurn goodConn 0 (updClient 0 (sendBuffer_update (\<lambda>b. b @ [''''])) twoClients)) = twoClients"
    by (simp add: writePumpTurn_def goodConn_def twoClients_def hubSubscribe_def runRegister_def addClient_def
       handleUpgrade_def newHub_def Let_def userOf_def updClient_def fmap_ext)
  ultimately show ?thesis by simp
qed

lemma twoClients_facts:
  "0 |\<in>| clients twoClients" "1 |\<in>| clients twoClients" "userOf twoClients 0 = ''u''" "userOf twoClients 1 = ''u''"
  "subscribers ''prices'' twoClients = {|0|}" "\<not> full twoClients 0"
  by (simp_all add: twoClients_def hubSubscribe_def runRegister_def addClient_def full_def sendBufferSize_def
       handleUpgrade_def newHub_def Let_def userOf_def updClient_def subscribers_def)

text \<open>Whatever the order in which the hub's loop, the broadcasters and the pumps run, no step panics
  and the invariant stays: every registered client's channel is open, topics name no removed client,
  and the user index names registered clients under their own address.\<close>

theorem hub_no_panic:
  assumes "hubReach h" and "hubStep h r"
  shows "\<exists>h'. r = Some h' \<and> hubReach h' \<and> hub_ok h'"
  using hubStep_ok [OF assms(2)] hubReach_ok [OF assms(1)] assms hubReach.more by blast

theorem hub_no_panic_witness:
  "hubReach (handleUpgrade (\<lambda>_. None) 0 newHub)"
proof -
  have "\<exists>h'. Some (handleUpgrade (\<lambda>_. None) 0 newHub) = Some h' \<and> hubReach h' \<and> hub_ok h'"
    by (rule hub_no_panic [OF hubReach.start hubStep.upgrade]) (simp add: newHub_def)
  then show ?thesis by simp
qed

text \<open>A broadcast to a topic puts the message at the end of the buffer of every subscriber that has
  room, asks for the removal of every subscriber that has none, and changes nothing else.\<close>

theorem hub_broadcast_delivers:
  assumes "hubReach h" and "fset_of_list order = subscribers t h" and "distinct order"
  shows "\<exists>h'. broadcastToTopic (Inr payload) order h = Some h' \<and> unregisterQ h' = unregisterQ h @ filter (full h) order
    \<and> (\<forall>c. fmlookup (objects h') c = (if c |\<in>| subscribers t h \<and> \<not> full h c
         then map_option (sendBuffer_update (\<lambda>b. b @ [payload])) (fmlookup (objects h) c) else fmlookup (objects h) c))
    \<and> clients h' = clients h \<and> topicSubs h' = topicSubs h \<and> userIndex h' = userIndex h \<and> registerQ h' = registerQ h"
proof -
  have s: "set order = fset (subscribers t h)" using assms(2) by (metis fset_of_list.rep_eq)
  have "\<forall>c\<in>set order. openClient h c" using hubReach_ok [OF assms(1)] s by (force simp: hub_ok_def)
  then show ?thesis using sendAll_delivers [of order h payload] assms(3) s by (simp add: broadcastToTopic_def)
qed

theorem hub_broadcast_delivers_witness:
  "\<exists>h'. broadcastToTopic (Inr ''m'') [0] twoClients = Some h' \<and> unregisterQ h' = unregisterQ twoClients
    \<and> fmlookup (objects h') 0 = map_option (sendBuffer_update (\<lambda>b. b @ [''m''])) (fmlookup (objects twoClients) 0)"
  using hub_broadcast_delivers [OF twoClients_reach, of "[0]" "''prices''" "''m''"] twoClients_facts by auto

text \<open>A client that was removed while its read pump still ran brings the server down: its next
  subscribe command sends the acknowledgement on the closed channel, and the subscription it leaves
  makes the next broadcast to the topic panic too.\<close>

theorem hub_subscribe_after_removal:
  assumes "hubReach h" and "c |\<in>| clients h" and "isValidTopic t"
  shows "\<exists>h'. removeClient c h = Some h' \<and> onCommand (CmdSubscribe t) ack c h' = None
    \<and> c |\<in>| subscribers t (hubSubscribe c t h') \<and> broadcastToTopic (Inr payload) [c] (hubSubscribe c t h') = None"
proof -
  define h' where "h' = updClient c (sendClosed_update (\<lambda>_. True)) (dropClient c h)"
  have o: "openClient h c" using hubReach_ok [OF assms(1)] assms(2) by (simp add: hub_ok_def present_def)
  then obtain x where x: "fmlookup (objects h') c = Some x" "sendClosed x"
    by (auto simp: h'_def openClient_def updClient_lookup)
  then have y: "\<exists>y. fmlookup (objects (hubSubscribe c t h')) c = Some y \<and> sendClosed y"
    by (simp add: hubSubscribe_def updClient_lookup)
  have "removeClient c h = Some h'"
    using o assms(2) by (auto simp: removeClient_dropClient h'_def isClosed_def openClient_def)
  moreover have "onCommand (CmdSubscribe t) ack c h' = None" using y assms(3) by (auto simp: onCommand_def sendAck_def)
  moreover have "c |\<in>| subscribers t (hubSubscribe c t h')" by (simp add: hubSubscribe_def subscribers_def)
  moreover have "broadcastToTopic (Inr payload) [c] (hubSubscribe c t h') = None"
    using y by (auto simp: broadcastToTopic_def trySend_def)
  ultimately show ?thesis by blast
qed

theorem hub_subscribe_after_removal_witness:
  "\<exists>h'. removeClient 0 twoClients = Some h' \<and> onCommand (CmdSubscribe ''prices'') ''ack'' 0 h' = None"
  using hub_subscribe_after_removal [OF twoClients_reach twoClients_facts(1), of "''prices''" "''ack''"]
  by (auto simp: isValidTopic_def)

text \<open>When one user has two connections, closing the older one drops the user's entry of the newer
  one from the index, and messages to the user reach nobody although the newer client is registered and
  open.\<close>

theorem hub_second_connection:
  assumes "hubReach h" and "c |\<in>| clients h" and "d |\<in>| clients h" and "c \<noteq> d"
    and "userOf h c = u" and "userOf h d = u" and "u \<noteq> ''''"
  shows "\<exists>h'. removeClient c h = Some h' \<and> d |\<in>| clients h' \<and> openClient h' d \<and> userOf h' d = u
    \<and> sendToUser u encoded h' = Some h'"
proof -
  define h' where "h' = updClient c (sendClosed_update (\<lambda>_. True)) (dropClient c h)"
  have o: "openClient h c" "openClient h d" using hubReach_ok [OF assms(1)] assms(2,3) by (simp_all add: hub_ok_def present_def)
  have "removeClient c h = Some h'"
    using o assms(2) by (auto simp: removeClient_dropClient h'_def isClosed_def openClient_def)
  moreover have "d |\<in>| clients h'" using assms(3,4) by (simp add: h'_def)
  moreover have "openClient h' d" using o(2) assms(4) by (simp add: h'_def openClient_def updClient_lookup)
  moreover have "userOf h' d = u" using assms(4,6) by (simp add: h'_def userOf_def updClient_lookup)
  moreover have "sendToUser u encoded h' = Some h'" using assms(5,7) by (simp add: sendToUser_def h'_def dropClient_def)
  ultimately show ?thesis by blast
qed

theorem hub_second_connection_witness:
  "\<exists>h'. removeClient 0 twoClients = Some h' \<and> 1 |\<in>| clients h' \<and> sendToUser ''u'' (Inr ''m'') h' = Some h'"
  using hub_second_connection [OF twoClients_reach twoClients_facts(1,2) _ twoClients_facts(3,4), of "Inr ''m''"]
  by auto

text \<open>The middleware leaves the wallet address where the handler does not look: a client whose token
  was accepted is registered without a user, and the index does not change.\<close>

theorem hub_wallet_ignored:
  assumes "ctx ''user_address'' = None" and "registerQ h = []"
  shows "userIndex (runRegister (handleUpgrade (setWallet address ctx) c h)) = userIndex h
    \<and> c |\<in>| clients (runRegister (handleUpgrade (setWallet address ctx) c h))
    \<and> userOf (handleUpgrade (setWallet address ctx) c h) c = ''''"
  using assms by (simp add: runRegister_def handleUpgrade_def setWallet_def addClient_def userOf_def Let_def)

theorem hub_wallet_ignored_witness:
  "userOf (handleUpgrade (setWallet ''0xab'' (\<lambda>_. None)) 0 newHub) 0 = ''''"
  using hub_wallet_ignored [of "\<lambda>_. None" newHub "''0xab''" 0] by (simp add: newHub_def)

text \<open>The hub may serve its two channels in either order. A connection that ends before its
  registration was served, served in the wrong order, stays in the hub for ever: it is registered, and
  no removal is queued.\<close>

theorem hub_zombie:
  assumes "registerQ h = [c]" and "unregisterQ h = [c]" and "c |\<notin>| clients h"
  shows "\<exists>h'. runUnregister h = Some h' \<and> c |\<in>| clients (runRegister h') \<and> unregisterQ (runRegister h') = []
    \<and> registerQ (runRegister h') = []"
  using assms by (simp add: runUnregister_def removeClient_dropClient runRegister_def addClient_def Let_def)

theorem hub_zombie_witness:
  "\<exists>h h'. hubReach h \<and> runUnregister h = Some h' \<and> 0 |\<in>| clients (runRegister h')"
proof -
  define h where "h = readPumpEnd 0 (handleUpgrade (\<lambda>_. None) 0 newHub)"
  have "hubReach h" unfolding h_def
    by (rule hubReach.more [OF hubReach.more [OF hubReach.start hubStep.upgrade] hubStep.closed]) (simp add: newHub_def)
  moreover have "registerQ h = [0]" "unregisterQ h = [0]" "0 |\<notin>| clients h"
    by (simp_all add: h_def readPumpEnd_def handleUpgrade_def newHub_def)
  ultimately show ?thesis using hub_zombie [of h 0] by blast
qed

end
