(* ===== verification/HubSystem.thy ===== *)
theory HubSystem
  imports Hub
begin

text \<open>
  The hub with the goroutines around it. \<open>Hub\<close> takes each operation as one step; here those that are not are
  taken apart. \<open>SendToUser\<close> and \<open>BroadcastToTopic\<close> find a client and send to it without the lock: in between
  the message is in flight, and the hub may remove the client. A read pump runs until its connection
  fails, whether or not the hub still knows its client.

  The theory says exactly when the server panics, that it can, and that up to there the hub is a registry of
  members and subscriptions.
\<close>

section \<open>Steps\<close>

text \<open>A message the connection delivered, or the error that ends the read pump. \<open>decode\<close> is the JSON decoder, \<open>ack\<close>
  the encoded acknowledgement.\<close>

definition readPumpTurn :: "(string \<Rightarrow> err + clientCommand) \<Rightarrow> string \<Rightarrow> clientId \<Rightarrow> err + string \<Rightarrow> hub \<Rightarrow> (hub \<times> bool) option" where
  "readPumpTurn decode ack c msg h =
     (case msg of
        Inl _ \<Rightarrow> Some (readPumpEnd c h, False)
      | Inr text \<Rightarrow>
          (case decode text of
             Inl _ \<Rightarrow> Some (h, True)
           | Inr cmd \<Rightarrow> map_option (\<lambda>h'. (h', True)) (onCommand cmd ack c h)))"

record hubSys =
  sysHub :: hub
  inFlight :: "(string \<times> clientId) list"
  reading :: "clientId fset"

text \<open>A step gives the next state, or \<open>None\<close> for a panic, which ends the server.\<close>

inductive sysStep :: "hubSys \<Rightarrow> hubSys option \<Rightarrow> bool" where
  upgrade: "c |\<notin>| fmdom (objects (sysHub s)) \<Longrightarrow>
     sysStep s (Some (s\<lparr>sysHub := handleUpgrade ctx c (sysHub s), reading := finsert c (reading s)\<rparr>))"
| register: "sysStep s (Some (s\<lparr>sysHub := runRegister (sysHub s)\<rparr>))"
| unregister: "sysStep s (map_option (\<lambda>h. s\<lparr>sysHub := h\<rparr>) (runUnregister (sysHub s)))"
| findUser: "fmlookup (userIndex (sysHub s)) u = Some c \<Longrightarrow> sysStep s (Some (s\<lparr>inFlight := inFlight s @ [(m, c)]\<rparr>))"
| findSub: "c |\<in>| subscribers t (sysHub s) \<Longrightarrow> sysStep s (Some (s\<lparr>inFlight := inFlight s @ [(m, c)]\<rparr>))"
| delivers: "(m, c) \<in> set (inFlight s) \<Longrightarrow>
     sysStep s (map_option (\<lambda>h. s\<lparr>sysHub := h, inFlight := remove1 (m, c) (inFlight s)\<rparr>) (trySend m c (sysHub s)))"
| reads: "c |\<in>| reading s \<Longrightarrow>
     sysStep s (map_option (\<lambda>(h, on). s\<lparr>sysHub := h, reading := (if on then reading s else reading s |-| {|c|})\<rparr>)
       (readPumpTurn decode ack c msg (sysHub s)))"
| writes: "sysStep s (Some (s\<lparr>sysHub := fst (writePumpTurn ans c (sysHub s))\<rparr>))"

definition sysStart :: hubSys where
  "sysStart = \<lparr>sysHub = newHub, inFlight = [], reading = {||}\<rparr>"

inductive sysReach :: "hubSys \<Rightarrow> bool" where
  start: "sysReach sysStart"
| more: "sysReach s \<Longrightarrow> sysStep s (Some s') \<Longrightarrow> sysReach s'"

section \<open>The invariant\<close>

text \<open>Besides the hub's invariant: a client whose channel is open is registered or waits for it, and a read pump
  has a client.\<close>

definition sys_ok :: "hubSys \<Rightarrow> bool" where
  "sys_ok s \<longleftrightarrow> hub_ok (sysHub s) \<and> (\<forall>c. openClient (sysHub s) c \<longrightarrow> c \<in> present (sysHub s))
     \<and> reading s |\<subseteq>| fmdom (objects (sysHub s))"

text \<open>The steps that change neither channels nor members.\<close>

definition same_members :: "hub \<Rightarrow> hub \<Rightarrow> bool" where
  "same_members h h' \<longleftrightarrow> openClient h' = openClient h \<and> present h' = present h
     \<and> fmdom (objects h') = fmdom (objects h)"

lemma same_members_open: "same_members h h' \<Longrightarrow> (\<forall>c. openClient h c \<longrightarrow> c \<in> present h) \<Longrightarrow> openClient h' c \<Longrightarrow> c \<in> present h'"
  by (simp add: same_members_def)

lemma fmdom_updClient [simp]: "fmdom (objects (updClient c f h)) = fmdom (objects h)"
  by (auto simp: updClient_def fmdomI split: option.split)

lemma openClient_updClient: "(\<And>x. sendClosed (f x) = sendClosed x) \<Longrightarrow> openClient (updClient c f h) = openClient h"
  by (auto simp: openClient_def updClient_lookup fun_eq_iff)

lemma same_members_updClient: "(\<And>x. sendClosed (f x) = sendClosed x) \<Longrightarrow> same_members h (updClient c f h)"
  by (simp add: same_members_def openClient_updClient)

lemma same_members_trySend: "trySend m c h = Some h' \<Longrightarrow> same_members h h'"
  by (auto simp: trySend_def same_members_updClient split: option.splits if_splits)
    (simp_all add: same_members_def openClient_def present_def fun_eq_iff)

lemma present_commands [simp]: "present (hubSubscribe c t h) = present h" "present (hubUnsubscribe c t h) = present h"
    "fmdom (objects (hubSubscribe c t h)) = fmdom (objects h)" "fmdom (objects (hubUnsubscribe c t h)) = fmdom (objects h)"
  by (simp_all add: present_def hubSubscribe_def hubUnsubscribe_def Let_def split: option.split)

lemma same_members_subscribe: "same_members h (hubSubscribe c t h)" "same_members h (hubUnsubscribe c t h)"
  by (simp_all add: same_members_def fun_eq_iff)

lemma same_members_trans: "same_members h h' \<Longrightarrow> same_members h' h'' \<Longrightarrow> same_members h h''"
  by (simp add: same_members_def)

lemma same_members_sendAck: "sendAck a c h = Some h' \<Longrightarrow> same_members h h'"
  by (auto simp: sendAck_def same_members_updClient split: option.splits if_splits) (simp_all add: same_members_def)

lemma same_members_onCommand: "onCommand cmd a c h = Some h' \<Longrightarrow> same_members h h'"
  using same_members_trans [OF same_members_subscribe(1) same_members_sendAck]
    same_members_trans [OF same_members_subscribe(2) same_members_sendAck]
  by (auto simp: onCommand_def split: clientCommand.splits if_splits) (simp_all add: same_members_def)

lemma same_members_readPumpEnd: "same_members h (readPumpEnd c h)"
  by (simp add: same_members_def readPumpEnd_def openClient_def present_def fun_eq_iff)

lemma same_members_writePump: "same_members h (fst (writePumpTurn ans c h))"
  by (auto simp: writePumpTurn_def same_members_updClient split: option.split list.split)
    (simp_all add: same_members_def)

lemma same_members_register: "same_members h (runRegister h)"
  by (auto simp: same_members_def runRegister_def addClient_def Let_def openClient_def present_def fun_eq_iff split: list.split)

text \<open>A closed channel keeps commands and messages from having an effect: they panic, or change nothing.\<close>

lemma closed_command:
  assumes "isClosed h c"
  shows "onCommand cmd a c h = (case cmd of CmdSubscribe t \<Rightarrow> if isValidTopic t then None else Some h
    | CmdUnsubscribe t \<Rightarrow> None | CmdOther \<Rightarrow> Some h)"
proof -
  obtain x where x: "fmlookup (objects h) c = Some x" "sendClosed x" using assms by (auto simp: isClosed_def split: option.splits)
  have "\<exists>y. fmlookup (objects (hubSubscribe c t h)) c = Some y \<and> sendClosed y"
      "\<exists>y. fmlookup (objects (hubUnsubscribe c t h)) c = Some y \<and> sendClosed y" for t
    using x by (auto simp: hubSubscribe_def hubUnsubscribe_def Let_def updClient_lookup split: option.split)
  then have "sendAck a c (hubSubscribe c t h) = None" "sendAck a c (hubUnsubscribe c t h) = None" for t
    by (auto simp: sendAck_def split: option.split) (metis option.inject)+
  then show ?thesis by (simp add: onCommand_def split: clientCommand.split)
qed

lemma closed_send: "trySend m c h = None \<longleftrightarrow> isClosed h c"
  by (auto simp: trySend_def isClosed_def split: option.split)
section \<open>No step breaks the invariant\<close>

lemma handleUpgrade_open:
  assumes "c |\<notin>| fmdom (objects h)"
  shows "openClient (handleUpgrade ctx c h) d \<longleftrightarrow> d = c \<or> openClient h d"
    and "present (handleUpgrade ctx c h) = insert c (present h)"
  using assms by (auto simp: openClient_def handleUpgrade_def present_def Let_def)

lemma removeClient_open:
  assumes "removeClient c h = Some h'" and "hub_ok h" and "openClient h' d"
  shows "openClient h d" and "d \<in> present h \<Longrightarrow> d \<in> present h'"
proof -
  show "openClient h d"
    using assms(1,3) by (auto simp: removeClient_dropClient openClient_def updClient_lookup split: if_splits)
  assume "d \<in> present h"
  then show "d \<in> present h'"
    using assms(1,3) by (auto simp: removeClient_dropClient present_def openClient_def updClient_lookup split: if_splits)
qed

lemma runUnregister_open:
  assumes "runUnregister h = Some h'" and "hub_ok h" and "\<forall>c. openClient h c \<longrightarrow> c \<in> present h" and "openClient h' d"
  shows "d \<in> present h'"
proof (cases "unregisterQ h")
  case Nil
  then show ?thesis using assms by (simp add: runUnregister_def)
next
  case (Cons c cs)
  let ?g = "h\<lparr>unregisterQ := cs\<rparr>"
  have g: "hub_ok ?g" "openClient ?g = openClient h" "present ?g = present h"
    using assms(2) by (simp_all add: hub_ok_def openClient_def userOf_def present_def subscribers_def fun_eq_iff)
  have "removeClient c ?g = Some h'" using assms(1) Cons by (simp add: runUnregister_def)
  from removeClient_open [OF this g(1) assms(4)] show ?thesis using assms(3) g by simp
qed

lemma trySend_hub_ok: "hub_ok h \<Longrightarrow> trySend m c h = Some h' \<Longrightarrow> hub_ok h'"
proof (cases "openClient h c")
  case True
  assume "hub_ok h" "trySend m c h = Some h'"
  then show ?thesis using trySend_ok [of h c m] True by auto
next
  case False
  assume h: "hub_ok h" "trySend m c h = Some h'"
  then have "h' = h" using False by (auto simp: trySend_def openClient_def split: option.splits if_splits)
  then show ?thesis using h by simp
qed

lemma onCommand_hub_ok:
  assumes "hub_ok h" and "\<forall>c. openClient h c \<longrightarrow> c \<in> present h" and "c |\<in>| fmdom (objects h)" and "onCommand cmd a c h = Some h'"
  shows "hub_ok h'"
proof (cases "isClosed h c")
  case True
  then show ?thesis using assms(1,4) by (auto simp: closed_command split: clientCommand.splits if_splits)
next
  case False
  then have "c \<in> present h" using assms(2,3) by (auto simp: isClosed_def openClient_def fmlookup_dom_iff)
  then show ?thesis using onCommand_ok [OF assms(1), of c cmd a] assms(4) by auto
qed

lemma readPumpTurn_ok:
  assumes "hub_ok h" and "\<forall>c. openClient h c \<longrightarrow> c \<in> present h" and "c |\<in>| fmdom (objects h)"
    and "readPumpTurn decode ack c msg h = Some (h', on)"
  shows "hub_ok h' \<and> same_members h h'"
  using assms same_members_readPumpEnd [of h c] readPumpEnd_ok [of h c] onCommand_hub_ok [OF assms(1-3)] same_members_onCommand
  by (auto simp: readPumpTurn_def same_members_def split: sum.splits)

lemma sys_ok_same:
  assumes "sys_ok s" and "hub_ok (sysHub s')" and "same_members (sysHub s) (sysHub s')" and "reading s' |\<subseteq>| reading s"
  shows "sys_ok s'"
  using assms by (auto simp: sys_ok_def same_members_def)

lemma removeClient_fmdom: "removeClient c h = Some h' \<Longrightarrow> fmdom (objects h') = fmdom (objects h)"
  by (auto simp: removeClient_dropClient split: if_splits)

lemma sysStep_ok:
  assumes "sysStep s r" and "sys_ok s" and "r = Some s'"
  shows "sys_ok s'"
  using assms
proof (induction arbitrary: s' rule: sysStep.induct)
  case (upgrade c s ctx)
  then show ?case using handleUpgrade_ok [of "sysHub s" c ctx] handleUpgrade_open [of c "sysHub s" ctx]
    by (auto simp: sys_ok_def handleUpgrade_def Let_def)
next
  case (register s)
  have "hub_ok (runRegister (sysHub s))" using register.prems(1) by (simp add: runRegister_ok sys_ok_def)
  then have "sys_ok (s\<lparr>sysHub := runRegister (sysHub s)\<rparr>)"
    by (intro sys_ok_same [OF register.prems(1)]) (simp_all add: same_members_register)
  then show ?case using register.prems(2) by simp
next
  case (unregister s)
  then obtain h where h: "runUnregister (sysHub s) = Some h" "s' = s\<lparr>sysHub := h\<rparr>" by auto
  moreover have "hub_ok h" using runUnregister_ok [of "sysHub s"] h(1) unregister by (auto simp: sys_ok_def)
  moreover have "fmdom (objects h) = fmdom (objects (sysHub s))"
    using h(1) by (auto simp: runUnregister_def dest: removeClient_fmdom split: list.splits)
  moreover have "d \<in> present h" if "openClient h d" for d
    using runUnregister_open [OF h(1) _ _ that] unregister.prems(1) by (simp add: sys_ok_def)
  ultimately show ?case using unregister.prems(1) by (simp add: sys_ok_def)
next
  case (delivers m c s)
  then obtain h where h: "trySend m c (sysHub s) = Some h" "s' = s\<lparr>sysHub := h, inFlight := remove1 (m, c) (inFlight s)\<rparr>" by auto
  have "hub_ok h" using delivers.prems(1) trySend_hub_ok [OF _ h(1)] by (simp add: sys_ok_def)
  then show ?case unfolding h(2)
    by (intro sys_ok_same [OF delivers.prems(1)]) (simp_all add: same_members_trySend [OF h(1)])
next
  case (reads c s decode ack msg)
  then obtain h on where h: "readPumpTurn decode ack c msg (sysHub s) = Some (h, on)" and
      s': "s' = s\<lparr>sysHub := h, reading := (if on then reading s else reading s |-| {|c|})\<rparr>" by auto
  have "c |\<in>| fmdom (objects (sysHub s))" using reads by (auto simp: sys_ok_def)
  then have "hub_ok h \<and> same_members (sysHub s) h"
    using readPumpTurn_ok [OF _ _ _ h] reads.prems(1) by (simp add: sys_ok_def)
  then show ?case unfolding s' by (intro sys_ok_same [OF reads.prems(1)]) auto
next
  case (writes s ans c)
  have "hub_ok (fst (writePumpTurn ans c (sysHub s)))" using writes.prems(1) by (simp add: writePumpTurn_ok sys_ok_def)
  then have "sys_ok (s\<lparr>sysHub := fst (writePumpTurn ans c (sysHub s))\<rparr>)"
    by (intro sys_ok_same [OF writes.prems(1)]) (simp_all add: same_members_writePump)
  then show ?case using writes.prems(2) by simp
qed (auto simp: sys_ok_def)

lemma sysReach_ok: "sysReach s \<Longrightarrow> sys_ok s"
proof (induction rule: sysReach.induct)
  case start
  show ?case using hub_ok_new by (simp add: sys_ok_def sysStart_def newHub_def openClient_def)
next
  case (more s s')
  then show ?case by (blast intro: sysStep_ok)
qed
section \<open>When the server panics\<close>

inductive_cases sysPanic: "sysStep s None"

lemma open_command: "hub_ok h \<Longrightarrow> c \<in> present h \<Longrightarrow> onCommand cmd a c h \<noteq> None"
  using onCommand_ok [of h c cmd a] by auto

lemma known_client: "c |\<in>| fmdom (objects h) \<Longrightarrow> isClosed h c \<or> openClient h c"
  by (auto simp: isClosed_def openClient_def fmlookup_dom_iff)


text \<open>C39: The race is real: a message to a user whose removal is due is looked up, the hub removes the
  client and closes its channel, and the send brings the server down.\<close>

theorem hub_send_race:
  assumes "sysReach s" and "fmlookup (userIndex (sysHub s)) u = Some c" and "unregisterQ (sysHub s) = c # cs"
  shows "\<exists>s1 s2. sysStep s (Some s1) \<and> inFlight s1 = inFlight s @ [(m, c)] \<and> sysStep s1 (Some s2)
    \<and> runUnregister (sysHub s) = Some (sysHub s2) \<and> sysStep s2 None"
proof -
  have ok: "hub_ok (sysHub s)" using sysReach_ok [OF assms(1)] by (simp add: sys_ok_def)
  let ?g = "sysHub s\<lparr>unregisterQ := cs\<rparr>"
  obtain h where h: "runUnregister (sysHub s) = Some h" using runUnregister_ok [OF ok] by blast
  have "c |\<in>| clients (sysHub s)" using ok assms(2) by (auto simp: hub_ok_def)
  moreover from this have "openClient (sysHub s) c" using ok by (simp add: hub_ok_def present_def)
  ultimately have closed: "isClosed h c"
    using h assms(3) by (auto simp: runUnregister_def removeClient_dropClient isClosed_def openClient_def updClient_lookup
        split: if_splits)
  define s1 where "s1 = s\<lparr>inFlight := inFlight s @ [(m, c)]\<rparr>"
  define s2 where "s2 = s1\<lparr>sysHub := h\<rparr>"
  have "sysStep s (Some s1)" unfolding s1_def by (rule sysStep.findUser [OF assms(2)])
  moreover have "sysStep s1 (Some s2)" using sysStep.unregister [of s1] h by (simp add: s1_def s2_def)
  moreover have "(m, c) \<in> set (inFlight s2)" by (simp add: s1_def s2_def)
  from sysStep.delivers [OF this] have "sysStep s2 None" using closed closed_send [of m c h] by (simp add: s2_def)
  ultimately show ?thesis using h by (intro exI [of _ s1] exI [of _ s2]) (simp add: s1_def s2_def)
qed
text \<open>A user's connection that has just failed.\<close>

definition closingHub :: hub where
  "closingHub = readPumpEnd 0 (runRegister (handleUpgrade (\<lambda>_. Some ''u'') 0 newHub))"

definition closingSys :: hubSys where
  "closingSys = \<lparr>sysHub = closingHub, inFlight = [], reading = {||}\<rparr>"

lemma closingSys_reach: "sysReach closingSys"
proof -
  let ?h = "handleUpgrade (\<lambda>_. Some ''u'') 0 newHub"
  have "sysReach \<lparr>sysHub = ?h, inFlight = [], reading = {|0|}\<rparr>"
    using sysReach.more [OF sysReach.start sysStep.upgrade [of 0 sysStart "\<lambda>_. Some ''u''"]] by (simp add: sysStart_def newHub_def)
  from sysReach.more [OF this sysStep.register] have r: "sysReach \<lparr>sysHub = runRegister ?h, inFlight = [], reading = {|0|}\<rparr>" by simp
  have "readPumpTurn (\<lambda>_. Inl ''syntax'') '''' 0 (Inl ''EOF'') (runRegister ?h) = Some (closingHub, False)"
    by (simp add: readPumpTurn_def closingHub_def)
  with sysReach.more [OF r, of closingSys] sysStep.reads [of 0 "\<lparr>sysHub = runRegister ?h, inFlight = [], reading = {|0|}\<rparr>"
      "\<lambda>_. Inl ''syntax''" "''''" "Inl ''EOF''"]
  show ?thesis by (simp add: closingSys_def)
qed

lemma closingHub_facts: "fmlookup (userIndex closingHub) ''u'' = Some 0" "unregisterQ closingHub = [0]" "\<not> isClosed closingHub c"
  by (auto simp: closingHub_def readPumpEnd_def runRegister_def addClient_def handleUpgrade_def newHub_def Let_def userOf_def isClosed_def
      split: option.split)


theorem hub_send_race_witness:
  "\<exists>s1 s2. sysStep closingSys (Some s1) \<and> sysStep s1 (Some s2) \<and> sysStep s2 None"
  using hub_send_race [OF closingSys_reach, of "''u''" 0 "[]" "''m''"] closingHub_facts by (auto simp: closingSys_def)

section \<open>The hub as a registry\<close>

text \<open>What the hub is for, without channels, buffers, queues and two maps for one relation: members with an
  address each, who follows which topic, and to whom a message to an address goes.\<close>

record registry =
  members :: "clientId set"
  addressOf :: "clientId \<Rightarrow> string"
  subscriptions :: "(topic \<times> clientId) set"
  reachedAt :: "string \<Rightarrow> clientId option"

inductive registryStep :: "registry \<Rightarrow> registry \<Rightarrow> bool" where
  connect: "c \<notin> members r \<Longrightarrow>
     registryStep r (r\<lparr>members := insert c (members r), addressOf := (addressOf r)(c := a)\<rparr>)"
| announce: "c \<in> members r \<Longrightarrow> addressOf r c \<noteq> '''' \<Longrightarrow>
     registryStep r (r\<lparr>reachedAt := (reachedAt r)(addressOf r c \<mapsto> c)\<rparr>)"
| follow: "c \<in> members r \<Longrightarrow> isValidTopic t \<Longrightarrow> registryStep r (r\<lparr>subscriptions := insert (t, c) (subscriptions r)\<rparr>)"
| unfollow: "c \<in> members r \<Longrightarrow> registryStep r (r\<lparr>subscriptions := subscriptions r - {(t, c)}\<rparr>)"
| disconnect: "c \<in> members r \<Longrightarrow>
     registryStep r (r\<lparr>members := members r - {c}, subscriptions := {(t, d) \<in> subscriptions r. d \<noteq> c},
       reachedAt := (if addressOf r c = '''' then reachedAt r else (reachedAt r)(addressOf r c := None))\<rparr>)"
| stutter: "registryStep r r"

definition registryOf :: "hub \<Rightarrow> registry" where
  "registryOf h = \<lparr>members = present h, addressOf = userOf h, subscriptions = {(t, c). c |\<in>| subscribers t h},
     reachedAt = fmlookup (userIndex h)\<rparr>"

text \<open>A client's own set of topics says the same as the hub's.\<close>

definition topics_agree :: "hub \<Rightarrow> bool" where
  "topics_agree h \<longleftrightarrow> (\<forall>c x. fmlookup (objects h) c = Some x \<and> \<not> sendClosed x \<longrightarrow>
     (\<forall>t. t |\<in>| topics x \<longleftrightarrow> c |\<in>| subscribers t h))"

text \<open>The operations on buffers and queues leave the registry and the clients' topics alone.\<close>

definition same_registry :: "hub \<Rightarrow> hub \<Rightarrow> bool" where
  "same_registry h h' \<longleftrightarrow> registryOf h' = registryOf h \<and> (topics_agree h \<longrightarrow> topics_agree h')"

lemma same_registryI:
  assumes "same_members h h'" and "topicSubs h' = topicSubs h" and "userIndex h' = userIndex h"
    and "\<And>c. map_option (\<lambda>x. (cUserAddress x, topics x, sendClosed x)) (fmlookup (objects h') c) =
      map_option (\<lambda>x. (cUserAddress x, topics x, sendClosed x)) (fmlookup (objects h) c)"
  shows "same_registry h h'"
proof -
  have s: "subscribers t h' = subscribers t h" for t using assms(2) by (simp add: subscribers_def)
  have "userOf h' c = userOf h c" for c
    using assms(4) [of c] by (cases "fmlookup (objects h') c"; cases "fmlookup (objects h) c") (simp_all add: userOf_def)
  then have "registryOf h' = registryOf h" using assms(1,3) s by (simp add: registryOf_def same_members_def fun_eq_iff)
  moreover have "topics_agree h'" if "topics_agree h"
    unfolding topics_agree_def
  proof (intro allI impI)
    fix c x t
    assume x: "fmlookup (objects h') c = Some x \<and> \<not> sendClosed x"
    then obtain y where "fmlookup (objects h) c = Some y" "topics y = topics x" "\<not> sendClosed y"
      using assms(4) [of c] by (cases "fmlookup (objects h) c") auto
    then show "t |\<in>| topics x \<longleftrightarrow> c |\<in>| subscribers t h'" using that s by (auto simp: topics_agree_def)
  qed
  ultimately show ?thesis by (simp add: same_registry_def)
qed

lemma same_registry_buffer: "same_registry h (updClient c (sendBuffer_update f) h)"
  by (rule same_registryI) (simp_all add: same_members_updClient updClient_lookup option.map_comp comp_def)

lemma same_registry_queue: "same_registry h (h\<lparr>unregisterQ := q\<rparr>)" "same_registry h h"
  by (rule same_registryI, simp_all add: same_members_def openClient_def present_def fun_eq_iff)+

lemma same_registry_trySend: "trySend m c h = Some h' \<Longrightarrow> same_registry h h'"
  by (auto simp: trySend_def same_registry_buffer same_registry_queue split: option.splits if_splits)

lemma same_registry_sendAck: "sendAck a c h = Some h' \<Longrightarrow> same_registry h h'"
  by (auto simp: sendAck_def same_registry_buffer same_registry_queue split: option.splits if_splits)

lemma same_registry_writePump: "same_registry h (fst (writePumpTurn ans c h))"
  by (auto simp: writePumpTurn_def same_registry_buffer same_registry_queue split: option.split list.split)
section \<open>The hub refines the registry\<close>

lemma commands_view:
  "subscribers t' (hubSubscribe c t h) = (if t' = t then finsert c (subscribers t h) else subscribers t' h)"
  "subscribers t' (hubUnsubscribe c t h) = (if t' = t then subscribers t h |-| {|c|} else subscribers t' h)"
  "userIndex (hubSubscribe c t h) = userIndex h" "userIndex (hubUnsubscribe c t h) = userIndex h"
  "fmlookup (objects (hubSubscribe c t h)) d = (if d = c then map_option (topics_update (finsert t)) (fmlookup (objects h) d) else fmlookup (objects h) d)"
  "fmlookup (objects (hubUnsubscribe c t h)) d = (if d = c then map_option (topics_update (\<lambda>ts. ts |-| {|t|})) (fmlookup (objects h) d) else fmlookup (objects h) d)"
  by (auto simp: subscribers_def hubSubscribe_def hubUnsubscribe_def Let_def updClient_lookup split: option.split)

lemma commands_user: "userOf (hubSubscribe c t h) = userOf h" "userOf (hubUnsubscribe c t h) = userOf h"
  by (auto simp: userOf_def commands_view fun_eq_iff split: option.split)

lemma subscribe_registry:
  assumes "c \<in> present h" and "isValidTopic t"
  shows "registryStep (registryOf h) (registryOf (hubSubscribe c t h))"
proof -
  have "registryOf (hubSubscribe c t h) = registryOf h\<lparr>subscriptions := insert (t, c) (subscriptions (registryOf h))\<rparr>"
    by (auto simp: registryOf_def commands_view commands_user split: if_splits)
  then show ?thesis using registryStep.follow [of c "registryOf h" t] assms by (simp add: registryOf_def)
qed

lemma unsubscribe_registry:
  assumes "c \<in> present h"
  shows "registryStep (registryOf h) (registryOf (hubUnsubscribe c t h))"
proof -
  have "registryOf (hubUnsubscribe c t h) = registryOf h\<lparr>subscriptions := subscriptions (registryOf h) - {(t, c)}\<rparr>"
    by (auto simp: registryOf_def commands_view commands_user split: if_splits)
  then show ?thesis using registryStep.unfollow [of c "registryOf h" t] assms by (simp add: registryOf_def)
qed

lemma commands_topics:
  assumes "topics_agree h"
  shows "topics_agree (hubSubscribe c t h)" "topics_agree (hubUnsubscribe c t h)"
  using assms by (auto simp: topics_agree_def commands_view split: if_splits)

lemma onCommand_registry:
  assumes "hub_ok h" and "c \<in> present h" and "onCommand cmd a c h = Some h'" and "topics_agree h"
  shows "registryStep (registryOf h) (registryOf h') \<and> topics_agree h'"
proof (cases cmd)
  case (CmdSubscribe t)
  show ?thesis
  proof (cases "isValidTopic t")
    case True
    then have "same_registry (hubSubscribe c t h) h'" using assms(3) CmdSubscribe by (simp add: onCommand_def same_registry_sendAck)
    then show ?thesis using subscribe_registry [OF assms(2) True] commands_topics(1) [OF assms(4)] by (simp add: same_registry_def)
  qed (use assms CmdSubscribe in \<open>simp add: onCommand_def registryStep.stutter\<close>)
next
  case (CmdUnsubscribe t)
  then have "same_registry (hubUnsubscribe c t h) h'" using assms(3) by (simp add: onCommand_def same_registry_sendAck)
  then show ?thesis using unsubscribe_registry [OF assms(2)] commands_topics(2) [OF assms(4)] by (simp add: same_registry_def)
qed (use assms in \<open>simp add: onCommand_def registryStep.stutter\<close>)

lemma register_registry:
  assumes "hub_ok h" and "topics_agree h"
  shows "registryStep (registryOf h) (registryOf (runRegister h)) \<and> topics_agree (runRegister h)"
proof (cases "registerQ h")
  case Nil
  then show ?thesis using assms by (simp add: runRegister_def registryStep.stutter)
next
  case (Cons c cs)
  have v: "objects (runRegister h) = objects h" "topicSubs (runRegister h) = topicSubs h"
      "userIndex (runRegister h) = (if userOf h c \<noteq> '''' then fmupd (userOf h c) c (userIndex h) else userIndex h)"
    using Cons by (simp_all add: runRegister_def addClient_def Let_def userOf_def)
  have u: "userOf (runRegister h) = userOf h" "subscribers t (runRegister h) = subscribers t h" for t
    using v by (simp_all add: userOf_def subscribers_def fun_eq_iff)
  have p: "present (runRegister h) = present h" "c \<in> present h"
    using same_members_register [of h] Cons by (simp_all add: same_members_def present_def)
  have "registryOf (runRegister h) = (if userOf h c = '''' then registryOf h
      else registryOf h\<lparr>reachedAt := (reachedAt (registryOf h))(addressOf (registryOf h) c \<mapsto> c)\<rparr>)"
    using v u p by (auto simp: registryOf_def fun_eq_iff)
  moreover have "topics_agree (runRegister h)" using assms(2) v u by (simp add: topics_agree_def)
  ultimately show ?thesis using registryStep.announce [of c "registryOf h"] p(2) by (auto simp: registryOf_def registryStep.stutter)
qed

lemma removeClient_registry:
  assumes "hub_ok h" and "removeClient c h = Some h'" and "topics_agree h"
  shows "registryStep (registryOf h) (registryOf h') \<and> topics_agree h'"
proof (cases "c |\<in>| clients h")
  case False
  then show ?thesis using assms by (simp add: removeClient_dropClient registryStep.stutter)
next
  case True
  then have h': "h' = updClient c (sendClosed_update (\<lambda>_. True)) (dropClient c h)"
    using assms(2) by (simp add: removeClient_dropClient split: if_splits)
  have u: "userOf h' = userOf h" by (auto simp: h' userOf_def updClient_lookup fun_eq_iff split: option.split)
  have s: "subscribers t h' = subscribers t h |-| {|c|}" for t by (simp add: h')
  have q: "c \<notin> set (registerQ h)" using assms(1) True by (auto simp: hub_ok_def)
  have p: "present h' = present h - {c}" "c \<in> present h" using q True by (auto simp: h' present_def)
  have i: "fmlookup (userIndex h') = (if userOf h c = '''' then fmlookup (userIndex h) else (fmlookup (userIndex h))(userOf h c := None))"
    by (auto simp: h' dropClient_def fun_eq_iff)
  have "registryOf h' = registryOf h\<lparr>members := members (registryOf h) - {c},
      subscriptions := {(t, d) \<in> subscriptions (registryOf h). d \<noteq> c},
      reachedAt := (if addressOf (registryOf h) c = '''' then reachedAt (registryOf h)
        else (reachedAt (registryOf h))(addressOf (registryOf h) c := None))\<rparr>"
    by (auto simp: registryOf_def u s p i)
  moreover have "topics_agree h'"
    using assms(3) by (auto simp: topics_agree_def s) (auto simp: h' updClient_lookup split: if_splits)
  ultimately show ?thesis using registryStep.disconnect [of c "registryOf h"] p(2) by (simp add: registryOf_def)
qed

lemma upgrade_registry:
  assumes "hub_ok h" and "c |\<notin>| fmdom (objects h)" and "topics_agree h"
  shows "registryStep (registryOf h) (registryOf (handleUpgrade ctx c h)) \<and> topics_agree (handleUpgrade ctx c h)"
proof -
  let ?g = "handleUpgrade ctx c h"
  have n: "c \<notin> present h" using assms(1,2) by (auto simp: hub_ok_def openClient_def fmdomI)
  have ns: "c |\<notin>| subscribers t h" for t using n assms(1) by (auto simp: hub_ok_def)
  have s: "subscribers t ?g = subscribers t h" for t by (simp add: subscribers_def handleUpgrade_def Let_def)
  have u: "userOf ?g = (userOf h)(c := userOf ?g c)" by (auto simp: userOf_def handleUpgrade_def Let_def fun_eq_iff)
  have i: "userIndex ?g = userIndex h" by (simp add: handleUpgrade_def Let_def)
  have "registryOf ?g = registryOf h\<lparr>members := insert c (members (registryOf h)),
      addressOf := (addressOf (registryOf h))(c := userOf ?g c)\<rparr>"
    using u by (simp add: registryOf_def s i handleUpgrade_open(2) [OF assms(2)])
  moreover have "topics_agree ?g"
    using assms(3) ns by (auto simp: topics_agree_def s) (auto simp: handleUpgrade_def Let_def split: if_splits)
  ultimately show ?thesis using registryStep.connect [of c "registryOf h" "userOf ?g c"] n by (simp add: registryOf_def)
qed
lemma same_registry_step:
  "same_registry h h' \<Longrightarrow> topics_agree h \<Longrightarrow> registryStep (registryOf h) (registryOf h') \<and> topics_agree h'"
  by (simp add: same_registry_def registryStep.stutter)

lemma readPumpTurn_registry:
  assumes "sys_ok s" and "c |\<in>| reading s" and "readPumpTurn decode ack c msg (sysHub s) = Some (h', on)" and "topics_agree (sysHub s)"
  shows "registryStep (registryOf (sysHub s)) (registryOf h') \<and> topics_agree h'"
proof (cases "\<exists>text cmd. msg = Inr text \<and> decode text = Inr cmd")
  case True
  then obtain cmd where cmd: "onCommand cmd ack c (sysHub s) = Some h'" using assms(3) by (auto simp: readPumpTurn_def)
  show ?thesis
  proof (cases "isClosed (sysHub s) c")
    case True
    then have "h' = sysHub s" using cmd by (auto simp: closed_command split: clientCommand.splits if_splits)
    then show ?thesis using assms(4) by (simp add: registryStep.stutter)
  next
    case False
    then have "c \<in> present (sysHub s)" using assms(1,2) known_client [of c "sysHub s"] by (auto simp: sys_ok_def)
    then show ?thesis using onCommand_registry [OF _ _ cmd assms(4)] assms(1) by (simp add: sys_ok_def)
  qed
next
  case False
  then have "h' = sysHub s \<or> h' = readPumpEnd c (sysHub s)" using assms(3) by (auto simp: readPumpTurn_def split: sum.splits)
  then have "same_registry (sysHub s) h'" by (auto simp: readPumpEnd_def same_registry_queue)
  then show ?thesis using assms(4) by (rule same_registry_step)
qed

lemma runUnregister_registry:
  assumes "hub_ok h" and "runUnregister h = Some h'" and "topics_agree h"
  shows "registryStep (registryOf h) (registryOf h') \<and> topics_agree h'"
proof (cases "unregisterQ h")
  case Nil
  then show ?thesis using assms by (simp add: runUnregister_def registryStep.stutter)
next
  case (Cons c cs)
  let ?g = "h\<lparr>unregisterQ := cs\<rparr>"
  have "hub_ok ?g" using assms(1) by (simp add: hub_ok_def openClient_def userOf_def present_def subscribers_def)
  moreover have "removeClient c ?g = Some h'" using assms(2) Cons by (simp add: runUnregister_def)
  moreover have "topics_agree ?g" "registryOf ?g = registryOf h"
    using same_registry_queue(1) [of h cs] assms(3) by (simp_all add: same_registry_def)
  ultimately show ?thesis using removeClient_registry [of ?g c h'] by simp
qed

lemma sysStep_registry:
  assumes "sysStep s r" and "sys_ok s" and "topics_agree (sysHub s)" and "r = Some s'"
  shows "registryStep (registryOf (sysHub s)) (registryOf (sysHub s')) \<and> topics_agree (sysHub s')"
  using assms
proof (induction arbitrary: s' rule: sysStep.induct)
  case (upgrade c s ctx)
  then show ?case using upgrade_registry [of "sysHub s" c ctx] by (auto simp: sys_ok_def)
next
  case (register s)
  then show ?case using register_registry [of "sysHub s"] by (auto simp: sys_ok_def)
next
  case (unregister s)
  then show ?case using runUnregister_registry [of "sysHub s"] by (auto simp: sys_ok_def)
next
  case (delivers m c s)
  then obtain h where "trySend m c (sysHub s) = Some h" "sysHub s' = h" by auto
  then show ?case using same_registry_step [OF same_registry_trySend] delivers.prems(2) by blast
next
  case (reads c s decode ack msg)
  then obtain h on where "readPumpTurn decode ack c msg (sysHub s) = Some (h, on)" "sysHub s' = h" by auto
  then show ?case using readPumpTurn_registry [OF reads.prems(1) reads.hyps] reads.prems(2) by blast
next
  case (writes s ans c)
  then have "sysHub s' = fst (writePumpTurn ans c (sysHub s))" by auto
  then show ?case using same_registry_step [OF same_registry_writePump writes.prems(2)] by simp
qed (auto simp: registryStep.stutter)

lemma sysReach_topics: "sysReach s \<Longrightarrow> topics_agree (sysHub s)"
proof (induction rule: sysReach.induct)
  case start
  show ?case by (simp add: topics_agree_def sysStart_def newHub_def)
next
  case (more s s')
  then show ?case using sysStep_registry [OF _ sysReach_ok] by blast
qed



section \<open>Uninterrupted operations\<close>

text \<open>The two senders of \<open>Hub\<close>, which find and send in one step, are runs of this system: what holds for every
  run of it holds for them.\<close>

inductive sysRun :: "hubSys \<Rightarrow> hubSys \<Rightarrow> bool" where
  halt: "sysRun s s"
| onward: "sysStep s (Some s1) \<Longrightarrow> sysRun s1 s2 \<Longrightarrow> sysRun s s2"

lemma sendAll_run:
  assumes "set order \<subseteq> fset (subscribers t (sysHub s))" and "sendAll m order (sysHub s) = Some h" and "inFlight s = []"
  shows "sysRun s (s\<lparr>sysHub := h\<rparr>)"
  using assms
proof (induction order arbitrary: s)
  case Nil
  then have "s\<lparr>sysHub := h\<rparr> = s" by simp
  then show ?case by (simp add: sysRun.halt)
next
  case (Cons c cs)
  then obtain h1 where h1: "trySend m c (sysHub s) = Some h1" "sendAll m cs h1 = Some h" by (auto simp: bind_eq_Some_conv)
  define s1 where "s1 = s\<lparr>inFlight := [(m, c)]\<rparr>"
  define s2 where "s2 = s\<lparr>sysHub := h1\<rparr>"
  have "sysStep s (Some s1)" using sysStep.findSub [of c t s m] Cons.prems(1,3) by (simp add: s1_def)
  moreover have "sysStep s1 (Some s2)"
    using sysStep.delivers [of m c s1] h1(1) Cons.prems(3) by (cases s) (simp add: s1_def s2_def)
  moreover have "subscribers t h1 = subscribers t (sysHub s)"
    using h1(1) by (auto simp: trySend_def subscribers_def split: option.splits if_splits)
  then have "sysRun s2 (s2\<lparr>sysHub := h\<rparr>)"
    using Cons.prems h1(2) by (intro Cons.IH) (auto simp: s2_def)
  ultimately show ?case by (auto simp: s2_def intro: sysRun.onward)
qed

lemma atomic_senders_run:
  assumes "inFlight s = []"
  shows "set order \<subseteq> fset (subscribers t (sysHub s)) \<Longrightarrow> broadcastToTopic encoded order (sysHub s) = Some h \<Longrightarrow> sysRun s (s\<lparr>sysHub := h\<rparr>)"
    and "sendToUser u encoded (sysHub s) = Some h \<Longrightarrow> sysRun s (s\<lparr>sysHub := h\<rparr>)"
proof -
  show "sysRun s (s\<lparr>sysHub := h\<rparr>)" if "set order \<subseteq> fset (subscribers t (sysHub s))" "broadcastToTopic encoded order (sysHub s) = Some h"
    using that sendAll_run [OF that(1) _ assms] by (cases encoded) (auto simp: broadcastToTopic_def sysRun.halt)
  show "sysRun s (s\<lparr>sysHub := h\<rparr>)" if h: "sendToUser u encoded (sysHub s) = Some h"
  proof (cases "fmlookup (userIndex (sysHub s)) u = None \<or> isl encoded")
    case True
    then have "h = sysHub s" using h by (auto simp: sendToUser_def split: option.splits sum.splits)
    then show ?thesis by (simp add: sysRun.halt)
  next
    case False
    then obtain c m where c: "fmlookup (userIndex (sysHub s)) u = Some c" "encoded = Inr m" by (cases encoded) auto
    then have t: "trySend m c (sysHub s) = Some h" using h by (simp add: sendToUser_def)
    define s1 where "s1 = s\<lparr>inFlight := [(m, c)]\<rparr>"
    have "sysStep s (Some s1)" using sysStep.findUser [OF c(1), of m] assms by (simp add: s1_def)
    moreover have "sysStep s1 (Some (s\<lparr>sysHub := h\<rparr>))" using sysStep.delivers [of m c s1] t assms by (cases s) (simp add: s1_def)
    ultimately show ?thesis by (meson sysRun.intros)
  qed
qed

end
