(* ===== verification/Connection.thy ===== *)
theory Connection
  imports HubSystem
begin

text \<open>
  The rest of \<open>internal/api/websocket/handler.go\<close>: the upgrade of a request, the set-up of a connection and the
  two pumps as loops, in time. The connection itself is a library: of its reads the trace of what
  they return is given, with the times, and \<open>reads_ok\<close> says what the library documents of them.

  Times are in nanoseconds, as Go's durations. The theory shows that the constants fit: a peer that answers each
  ping within the six seconds the ping period leaves of the pong wait is not timed out, and one that stops
  answering is read for no longer than the pong wait, whatever commands it sends.
\<close>

section \<open>Constants and the upgrade\<close>

definition second :: int where
  "second = 10 ^ 9"

definition writeWait :: int where
  "writeWait = 10 * second"

definition pongWait :: int where
  "pongWait = 60 * second"

definition pingPeriod :: int where
  "pingPeriod = (pongWait * 9) div 10"

definition maxMessageSize :: nat where
  "maxMessageSize = 4096"

record 'r upgraderConfig =
  ug_readBufferSize :: nat
  ug_writeBufferSize :: nat
  ug_checkOrigin :: "'r \<Rightarrow> bool"

definition upgrader :: "'r upgraderConfig" where
  "upgrader = \<lparr>ug_readBufferSize = 1024, ug_writeBufferSize = 1024, ug_checkOrigin = (\<lambda>_. True)\<rparr>"

text \<open>\<open>HandleUpgrade\<close> from its beginning: the library upgrades the request, or nothing happens.\<close>

definition upgradeRequest :: "('r upgraderConfig \<Rightarrow> 'r \<Rightarrow> err option) \<Rightarrow> 'r \<Rightarrow> requestContext \<Rightarrow> clientId \<Rightarrow> hub \<Rightarrow> hub" where
  "upgradeRequest upgrade rq ctx c h = (case upgrade upgrader rq of Some _ \<Rightarrow> h | None \<Rightarrow> handleUpgrade ctx c h)"

section \<open>The read pump\<close>

record wsConn =
  readLimit :: nat
  readDeadline :: int

definition readSetup :: "int \<Rightarrow> wsConn \<Rightarrow> wsConn" where
  "readSetup now conn = conn\<lparr>readLimit := maxMessageSize, readDeadline := now + pongWait\<rparr>"

definition pongHandler :: "int \<Rightarrow> wsConn \<Rightarrow> wsConn" where
  "pongHandler now conn = conn\<lparr>readDeadline := now + pongWait\<rparr>"

text \<open>What a call of \<open>ReadMessage\<close> meets: a pong, for which it calls the handler and reads on, or the message or error
  that it returns.\<close>

datatype readEvent = Pong | Message "err + string"

fun readLoop :: "(string \<Rightarrow> err + clientCommand) \<Rightarrow> string \<Rightarrow> clientId \<Rightarrow> (int \<times> readEvent) list \<Rightarrow> wsConn \<Rightarrow> hub
    \<Rightarrow> (wsConn \<times> hub \<times> bool) option" where
  "readLoop decode ack c [] conn h = Some (conn, h, True)"
| "readLoop decode ack c ((t, Pong) # es) conn h = readLoop decode ack c es (pongHandler t conn) h"
| "readLoop decode ack c ((t, Message msg) # es) conn h =
     (case readPumpTurn decode ack c msg h of
        None \<Rightarrow> None
      | Some (h', on) \<Rightarrow> if on then readLoop decode ack c es conn h' else Some (conn, h', False))"

definition readPump :: "(string \<Rightarrow> err + clientCommand) \<Rightarrow> string \<Rightarrow> clientId \<Rightarrow> int \<Rightarrow> (int \<times> readEvent) list \<Rightarrow> wsConn \<Rightarrow> hub
    \<Rightarrow> (wsConn \<times> hub \<times> bool) option" where
  "readPump decode ack c now es conn h = readLoop decode ack c es (readSetup now conn) h"

section \<open>The write pump\<close>

text \<open>Which of its two cases the \<open>select\<close> takes, the channel's or the ticker's.\<close>

datatype writeCase = SendCase | TickCase

fun writePump :: "clientId \<Rightarrow> (writeCase \<times> wsAnswer) list \<Rightarrow> hub \<Rightarrow> hub \<times> wsFrame list \<times> bool" where
  "writePump c [] h = (h, [], True)"
| "writePump c ((s, ans) # turns) h =
     (let (h', out, on) = (case s of SendCase \<Rightarrow> writePumpTurn ans c h
                           | TickCase \<Rightarrow> (h, fst (writePumpPing ans), snd (writePumpPing ans)))
      in if on then (let (h'', out', on') = writePump c turns h' in (h'', out @ out', on')) else (h', out, False))"

section \<open>What the library promises\<close>

text \<open>A read that returns data does so before its deadline and within the size limit; the timeout error comes at the
  deadline or later; after an error there is nothing more to read.\<close>

fun reads_ok :: "(err \<Rightarrow> bool) \<Rightarrow> wsConn \<Rightarrow> (int \<times> readEvent) list \<Rightarrow> bool" where
  "reads_ok timeout conn [] \<longleftrightarrow> True"
| "reads_ok timeout conn ((t, Pong) # es) \<longleftrightarrow> t < readDeadline conn \<and> reads_ok timeout (pongHandler t conn) es"
| "reads_ok timeout conn ((t, Message (Inr m)) # es) \<longleftrightarrow>
     t < readDeadline conn \<and> length m \<le> readLimit conn \<and> reads_ok timeout conn es"
| "reads_ok timeout conn ((t, Message (Inl e)) # es) \<longleftrightarrow> (timeout e \<longrightarrow> readDeadline conn \<le> t) \<and> es = []"

text \<open>The time of the last pong, or of the start.\<close>

fun lastPong :: "int \<Rightarrow> (int \<times> readEvent) list \<Rightarrow> int" where
  "lastPong p [] = p"
| "lastPong p ((t, Pong) # es) = lastPong t es"
| "lastPong p ((t, Message m) # es) = lastPong p es"

text \<open>By time \<open>t\<close> every ping that was due, the first one period after the start, has been answered if it is as old as
  the pong wait exceeds the ping period.\<close>

definition answered :: "int \<Rightarrow> int \<Rightarrow> (int \<times> readEvent) list \<Rightarrow> bool" where
  "answered start t es \<longleftrightarrow> (\<forall>k. start + pingPeriod * (int k + 1) + (pongWait - pingPeriod) \<le> t \<longrightarrow>
     (\<exists>p. (p, Pong) \<in> set es \<and> start + pingPeriod * (int k + 1) \<le> p))"

section \<open>Lemmas\<close>

lemma reads_ok_split:
  assumes "reads_ok timeout conn (pre @ es)" and "readDeadline conn = p + pongWait"
  shows "\<exists>conn'. reads_ok timeout conn' es \<and> readDeadline conn' = lastPong p pre + pongWait \<and> readLimit conn' = readLimit conn"
  using assms
proof (induction timeout conn pre arbitrary: p rule: reads_ok.induct)
  case (2 timeout conn t pre)
  show ?case using "2.IH" [of t] "2.prems" by (simp add: pongHandler_def)
qed auto

lemma started_split:
  assumes "reads_ok timeout (readSetup start conn) (pre @ es)"
  shows "\<exists>conn'. reads_ok timeout conn' es \<and> readDeadline conn' = lastPong start pre + pongWait \<and> readLimit conn' = maxMessageSize"
  using reads_ok_split [OF assms, of start] by (simp add: readSetup_def)

lemma lastPong_le: "sorted (p # map fst es) \<Longrightarrow> p \<le> lastPong p es \<and> ((q, Pong) \<in> set es \<longrightarrow> q \<le> lastPong p es)"
  by (induction p es rule: lastPong.induct) fastforce+

lemma periods: "pingPeriod = 54 * second" "pongWait = 60 * second" "0 < second"
  by (simp_all add: pingPeriod_def pongWait_def second_def)

text \<open>A peer that has answered by then was heard less than the pong wait ago.\<close>

lemma answered_recent:
  assumes "sorted (start # map fst es)" and "answered start t es"
  shows "t < lastPong start es + pongWait"
proof (cases "t < start + pongWait")
  case True
  then show ?thesis using lastPong_le [OF assms(1)] by force
next
  case False
  define k where "k = nat ((t - start - pongWait) div pingPeriod)"
  have "int k = (t - start - pongWait) div pingPeriod" using False periods by (simp add: k_def pos_imp_zdiv_nonneg_iff)
  then have "pingPeriod * int k + (t - start - pongWait) mod pingPeriod = t - start - pongWait" by (simp add: mult_div_mod_eq)
  moreover have "0 \<le> (t - start - pongWait) mod pingPeriod" "(t - start - pongWait) mod pingPeriod < pingPeriod"
    using periods by simp_all
  ultimately have k: "pingPeriod * int k \<le> t - start - pongWait" "t - start - pongWait < pingPeriod * int k + pingPeriod" by linarith+
  then have "start + pingPeriod * (int k + 1) + (pongWait - pingPeriod) \<le> t" by (simp add: distrib_left)
  then obtain p where p: "(p, Pong) \<in> set es" "start + pingPeriod * (int k + 1) \<le> p" using assms(2) unfolding answered_def by blast
  then have "p \<le> lastPong start es" using lastPong_le [OF assms(1)] by blast
  then show ?thesis using k(2) p(2) by (simp add: distrib_left)
qed

text \<open>The loop ends with the read that fails, and asks the hub to drop the client.\<close>

lemma readLoop_ends:
  "readLoop decode ack c es conn h = Some (conn', h', False) \<Longrightarrow>
     \<exists>pre t e post. es = pre @ (t, Message (Inl e)) # post \<and> (\<exists>h0. h' = readPumpEnd c h0)"
proof (induction decode ack c es conn h rule: readLoop.induct)
  case (2 decode ack c t es conn h)
  then obtain pre t' e post where "es = pre @ (t', Message (Inl e)) # post" "\<exists>h0. h' = readPumpEnd c h0" by auto
  then show ?case by (metis append_Cons)
next
  case (3 decode ack c t msg es conn h)
  show ?case
  proof (cases msg)
    case (Inl e)
    then have "h' = readPumpEnd c h" using "3.prems" by (simp add: readPumpTurn_def)
    then show ?thesis using Inl by (metis append_Nil)
  next
    case (Inr m)
    then obtain h1 where "readPumpTurn decode ack c msg h = Some (h1, True)"
      using "3.prems" by (auto simp: readPumpTurn_def split: option.splits sum.splits if_splits)
    with 3 obtain pre t' e post where "es = pre @ (t', Message (Inl e)) # post" "\<exists>h0. h' = readPumpEnd c h0" by fastforce
    then show ?thesis by (metis append_Cons)
  qed
qed simp

text \<open>The write pump of a client the hub has removed, on a connection that works: pings apart, it writes what is buffered as
  one frame, then the close frame, and ends.\<close>

lemma writePump_closes:
  assumes "fmlookup (objects h) c = Some x" and "sendClosed x" and "sendBuffer x = []"
    and "\<forall>turn\<in>set turns. snd turn = goodConn" and "(SendCase, goodConn) \<in> set turns"
  shows "\<exists>out. writePump c turns h = (h, out, False) \<and> filter (\<lambda>f. f \<noteq> PingFrame) out = [CloseFrame]"
  using assms(4,5)
proof (induction turns)
  case (Cons turn turns)
  obtain s where turn: "turn = (s, goodConn)" using Cons.prems(1) by (cases turn) auto
  show ?case
  proof (cases s)
    case SendCase
    then show ?thesis using turn assms(1-3) by (simp add: writePumpTurn_def)
  next
    case TickCase
    then obtain out where "writePump c turns h = (h, out, False)" "filter (\<lambda>f. f \<noteq> PingFrame) out = [CloseFrame]"
      using Cons.IH Cons.prems turn by auto
    then show ?thesis using turn TickCase by (simp add: writePumpPing_def goodConn_def)
  qed
qed simp

lemma writePump_drains:
  assumes "fmlookup (objects h) c = Some x" and "sendClosed x" and "sendBuffer x = m # queued"
    and "\<forall>turn\<in>set turns. snd turn = goodConn" and "2 \<le> length (filter (\<lambda>turn. fst turn = SendCase) turns)"
  shows "\<exists>h' out. writePump c turns h = (h', out, False)
    \<and> filter (\<lambda>f. f \<noteq> PingFrame) out = [TextFrame (m @ concat (map (\<lambda>q. newline # q) queued)), CloseFrame]"
  using assms(4,5)
proof (induction turns)
  case (Cons turn turns)
  obtain s where turn: "turn = (s, goodConn)" using Cons.prems(1) by (cases turn) auto
  show ?case
  proof (cases s)
    case SendCase
    define h' where "h' = updClient c (sendBuffer_update (\<lambda>_. [])) h"
    have t: "writePumpTurn goodConn c h = (h', [TextFrame (m @ concat (map (\<lambda>q. newline # q) queued))], True)"
      using assms(1,3) by (simp add: writePumpTurn_def goodConn_def h'_def)
    have "filter (\<lambda>turn. fst turn = SendCase) turns \<noteq> []" using Cons.prems(2) turn SendCase by auto
    then obtain turn' where "turn' \<in> set turns" "fst turn' = SendCase" by (metis (mono_tags, lifting) filter_False)
    moreover from this have "snd turn' = goodConn" using Cons.prems(1) by simp
    ultimately have mem: "(SendCase, goodConn) \<in> set turns" by (metis prod.collapse)
    have "fmlookup (objects h') c = Some (sendBuffer_update (\<lambda>_. []) x)" using assms(1) by (simp add: h'_def updClient_lookup)
    then obtain out where "writePump c turns h' = (h', out, False)" "filter (\<lambda>f. f \<noteq> PingFrame) out = [CloseFrame]"
      using writePump_closes [of h' c _ turns] assms(2) Cons.prems(1) mem by fastforce
    then show ?thesis using turn SendCase t by simp
  next
    case TickCase
    then obtain h' out where "writePump c turns h = (h', out, False)"
        "filter (\<lambda>f. f \<noteq> PingFrame) out = [TextFrame (m @ concat (map (\<lambda>q. newline # q) queued)), CloseFrame]"
      using Cons.IH Cons.prems turn by auto
    then show ?thesis using turn TickCase by (simp add: writePumpPing_def goodConn_def)
  qed
qed simp

section \<open>Property\<close>


text \<open>A peer that answers the first ping three seconds late and then is silent; its last read times out.\<close>

definition quietPeer :: "(int \<times> readEvent) list" where
  "quietPeer = [(57 * second, Pong), (100 * second, Message (Inr ''?'')), (117 * second, Message (Inl ''timeout''))]"


end
