(* ===== verification/Notification.thy ===== *)
theory Notification
  imports Prelude
begin

text \<open>
  \<open>internal/notification\<close>: notifications, their throttling and their delivery.

  The store and the senders are interfaces of the service; \<open>notifEnv\<close> holds what it calls of them,
  over a state \<open>'w\<close> of the outside world. \<open>Save\<close> gets a pointer and may fill in the identifier, so it
  returns the notification. A call reads the clock up to four times: \<open>clockAt w k\<close> is reading \<open>k\<close> of a
  call that starts in world \<open>w\<close>, in nanoseconds.
\<close>

section \<open>Data\<close>

type_synonym channel = string
type_synonym notificationType = string

definition ChannelWebSocket :: channel where [simp]: "ChannelWebSocket = ''websocket''"
definition ChannelTelegram :: channel where [simp]: "ChannelTelegram = ''telegram''"
definition ChannelEmail :: channel where [simp]: "ChannelEmail = ''email''"
definition ChannelWebhook :: channel where [simp]: "ChannelWebhook = ''webhook''"

definition TypeHealthFactorAlert :: notificationType where [simp]: "TypeHealthFactorAlert = ''health_factor_alert''"
definition TypeLiquidation :: notificationType where [simp]: "TypeLiquidation = ''liquidation''"
definition TypeRateChange :: notificationType where [simp]: "TypeRateChange = ''rate_change''"
definition TypeRiskAlert :: notificationType where [simp]: "TypeRiskAlert = ''risk_alert''"
definition TypeSystemAlert :: notificationType where [simp]: "TypeSystemAlert = ''system_alert''"

text \<open>\<open>Status\<close> is a string in the source; \<open>StatusUnset\<close> is its zero value.\<close>

datatype notifStatus = StatusUnset | StatusPending | StatusSent | StatusFailed | StatusThrottled

record notification =
  n_id :: i64
  n_userAddress :: string
  n_type :: notificationType
  n_channel :: channel
  n_title :: string
  n_content :: string
  n_data :: "(string, string) fmap"
  n_status :: notifStatus
  n_createdAt :: int
  n_sentAt :: "int option"

record 'w notifEnv =
  saveNotification :: "notification \<Rightarrow> 'w \<Rightarrow> err option \<times> notification \<times> 'w"
  updateStatus :: "i64 \<Rightarrow> notifStatus \<Rightarrow> 'w \<Rightarrow> err option \<times> 'w"
  senders :: "(channel, notification \<Rightarrow> 'w \<Rightarrow> err option \<times> 'w) fmap"
  cooldown :: int
  clockAt :: "'w \<Rightarrow> nat \<Rightarrow> int"

text \<open>The mutable part of the service: when a notification of a key was last sent.\<close>

type_synonym sentTimes = "(string, int) fmap"

section \<open>The service\<close>

text \<open>\<open>NewService\<close>'s index of the senders: for two senders of one channel the later one is used.\<close>

definition indexSenders :: "(channel \<times> (notification \<Rightarrow> 'w \<Rightarrow> err option \<times> 'w)) list
    \<Rightarrow> (channel, notification \<Rightarrow> 'w \<Rightarrow> err option \<times> 'w) fmap" where
  "indexSenders ss = foldl (\<lambda>sm s. fmupd (fst s) (snd s) sm) fmempty ss"

definition throttleKey :: "notification \<Rightarrow> string" where
  "throttleKey n = n_type n @ '':'' @ n_userAddress n"

definition isThrottled :: "int \<Rightarrow> sentTimes \<Rightarrow> int \<Rightarrow> notification \<Rightarrow> bool" where
  "isThrottled cd sent now n =
     (case fmlookup sent (throttleKey n) of None \<Rightarrow> False | Some lastTime \<Rightarrow> now - lastTime < cd)"

definition recordSent :: "notification \<Rightarrow> int \<Rightarrow> sentTimes \<Rightarrow> sentTimes" where
  "recordSent n now sent = fmupd (throttleKey n) now sent"

text \<open>\<open>Notify\<close> after the throttle check, with the readings of the clock it still makes.\<close>

definition dispatch :: "'w notifEnv \<Rightarrow> (nat \<Rightarrow> int) \<Rightarrow> notification \<Rightarrow> sentTimes \<Rightarrow> 'w
    \<Rightarrow> err option \<times> notification \<times> sentTimes \<times> 'w" where
  "dispatch env clock n sent w =
     (case saveNotification env (n\<lparr>n_status := StatusPending, n_createdAt := clock 1\<rparr>) w of
        (Some e, n1, w1) \<Rightarrow> (Some (''save notification: '' @ e), n1, sent, w1)
      | (None, n1, w1) \<Rightarrow>
          (case fmlookup (senders env) (n_channel n1) of
             None \<Rightarrow> (Some (''no sender for channel '' @ n_channel n1), n1, sent,
                 snd (updateStatus env (n_id n1) StatusFailed w1))
           | Some send \<Rightarrow>
               (case send n1 w1 of
                  (Some e, w2) \<Rightarrow> (Some (''send notification: '' @ e), n1, sent,
                      snd (updateStatus env (n_id n1) StatusFailed w2))
                | (None, w2) \<Rightarrow>
                    (let n2 = n1\<lparr>n_status := StatusSent, n_sentAt := Some (clock 2)\<rparr>;
                         w3 = snd (updateStatus env (n_id n2) StatusSent w2)
                     in (None, n2, recordSent n2 (clock 3) sent, w3)))))"

definition notify :: "'w notifEnv \<Rightarrow> notification \<Rightarrow> sentTimes \<Rightarrow> 'w \<Rightarrow> err option \<times> notification \<times> sentTimes \<times> 'w" where
  "notify env n sent w =
     (if isThrottled (cooldown env) sent (clockAt env w 0) n
      then (None, n\<lparr>n_status := StatusThrottled\<rparr>, sent, w)
      else dispatch env (clockAt env w) n sent w)"

text \<open>\<open>NotifyMultiChannel\<close> makes a copy for each channel; the copies as \<open>Notify\<close> leaves them are listed.\<close>

fun notifyMultiChannel :: "'w notifEnv \<Rightarrow> channel list \<Rightarrow> notification \<Rightarrow> sentTimes \<Rightarrow> 'w
    \<Rightarrow> notification list \<times> sentTimes \<times> 'w" where
  "notifyMultiChannel env [] base sent w = ([], sent, w)"
| "notifyMultiChannel env (ch # channels) base sent w =
     (let (e, n, sent1, w1) = notify env (base\<lparr>n_channel := ch\<rparr>) sent w;
          (ns, sent2, w2) = notifyMultiChannel env channels base sent1 w1
      in (n # ns, sent2, w2))"

section \<open>One call\<close>

text \<open>What the service relies on: \<open>Save\<close> fills in the identifier and nothing else.\<close>

locale notification_store =
  fixes env :: "'w notifEnv"
  assumes save_keeps: "saveNotification env n w = (r, n', w') \<Longrightarrow> \<exists>i. n' = n\<lparr>n_id := i\<rparr>"
begin

lemma save_fields:
  assumes "saveNotification env n w = (r, n', w')"
  shows "n_status n' = n_status n" "n_channel n' = n_channel n" "throttleKey n' = throttleKey n"
  using save_keeps [OF assms] by (auto simp: throttleKey_def)

text \<open>A call that is not throttled either sends, and records the time under the key, or fails and leaves
  the times alone.\<close>

lemma dispatch_cases:
  assumes "dispatch env clock n sent w = (r, n', sent', w')"
  shows "if r = None then n_status n' = StatusSent \<and> sent' = fmupd (throttleKey n) (clock 3) sent
     else n_status n' = StatusPending \<and> sent' = sent"
    and "throttleKey n' = throttleKey n" and "n_channel n' = n_channel n"
  using assms
  by (auto simp: dispatch_def Let_def recordSent_def throttleKey_def split: prod.splits option.splits if_splits dest!: save_keeps)

lemma notify_cases:
  assumes "notify env n sent w = (r, n', sent', w')"
  shows "if isThrottled (cooldown env) sent (clockAt env w 0) n
     then r = None \<and> n' = n\<lparr>n_status := StatusThrottled\<rparr> \<and> sent' = sent \<and> w' = w
     else if r = None then n_status n' = StatusSent \<and> sent' = fmupd (throttleKey n) (clockAt env w 3) sent
     else n_status n' = StatusPending \<and> sent' = sent"
    and "throttleKey n' = throttleKey n"
  using assms dispatch_cases [of "clockAt env w" n sent w r n' sent' w']
  by (auto simp: notify_def throttleKey_def split: if_splits)

end

section \<open>A history of calls\<close>

text \<open>Calls one after the other, each from the world it finds; \<open>sends\<close> lists those that sent: the key,
  the time of the throttle check and the time that was recorded.\<close>

fun sends :: "'w notifEnv \<Rightarrow> (notification \<times> 'w) list \<Rightarrow> sentTimes \<Rightarrow> (string \<times> int \<times> int) list" where
  "sends env [] sent = []"
| "sends env ((n, w) # calls) sent =
     (let (r, n', sent', w') = notify env n sent w
      in (if r = None \<and> n_status n' = StatusSent then [(throttleKey n, clockAt env w 0, clockAt env w 3)] else [])
         @ sends env calls sent')"

fun readings :: "'w notifEnv \<Rightarrow> (notification \<times> 'w) list \<Rightarrow> int list" where
  "readings env [] = []"
| "readings env ((n, w) # calls) = clockAt env w 0 # clockAt env w 3 # readings env calls"

text \<open>Every recorded time lies before what the calls will read.\<close>

definition recorded_before :: "sentTimes \<Rightarrow> int list \<Rightarrow> bool" where
  "recorded_before sent rs \<longleftrightarrow> (\<forall>k t. fmlookup sent k = Some t \<longrightarrow> (\<forall>x\<in>set rs. t \<le> x))"

lemma recorded_before_step:
  assumes "recorded_before sent (readings env ((n, w) # calls))" and "sorted (readings env ((n, w) # calls))"
  shows "recorded_before sent (readings env calls)" "recorded_before (fmupd k (clockAt env w 3) sent) (readings env calls)"
    "sorted (readings env calls)"
  using assms by (auto simp: recorded_before_def)

context notification_store
begin

lemma sends_Cons:
  shows "sends env ((n, w) # calls) sent =
    (if isThrottled (cooldown env) sent (clockAt env w 0) n then sends env calls sent
     else if fst (notify env n sent w) = None
     then (throttleKey n, clockAt env w 0, clockAt env w 3) # sends env calls (fmupd (throttleKey n) (clockAt env w 3) sent)
     else sends env calls sent)"
proof -
  obtain r n' sent' w' where e: "notify env n sent w = (r, n', sent', w')" by (metis prod_cases4)
  show ?thesis using notify_cases(1) [OF e] by (auto simp: e)
qed

text \<open>What was recorded before the history keeps every later send of its key away.\<close>

lemma sends_after:
  assumes "recorded_before sent (readings env calls)" and "sorted (readings env calls)"
    and "(k, c, t) \<in> set (sends env calls sent)" and "fmlookup sent k = Some t0"
  shows "cooldown env \<le> c - t0"
  using assms
proof (induction calls arbitrary: sent t0)
  case (Cons call calls)
  obtain n w where call: "call = (n, w)" by fastforce
  define u where "u = clockAt env w 3"
  note step = recorded_before_step [OF Cons.prems(1,2) [unfolded call]]
  consider "(k, c, t) \<in> set (sends env calls sent)"
    | "\<not> isThrottled (cooldown env) sent (clockAt env w 0) n" "k = throttleKey n" "c = clockAt env w 0"
    | "(k, c, t) \<in> set (sends env calls (fmupd (throttleKey n) u sent))"
    using Cons.prems(3) by (auto simp: call sends_Cons u_def simp del: sends.simps split: if_splits)
  then show ?case
  proof cases
    case 1
    then show ?thesis using Cons.IH [OF step(1,3) _ Cons.prems(4)] by blast
  next
    case 2
    then show ?thesis using Cons.prems(4) by (auto simp: isThrottled_def)
  next
    case 3
    have "t0 \<le> u" using Cons.prems(1,4) by (auto simp: recorded_before_def call u_def)
    moreover have "fmlookup (fmupd (throttleKey n) u sent) k = Some (if k = throttleKey n then u else t0)"
      using Cons.prems(4) by simp
    ultimately show ?thesis using Cons.IH [OF step(2,3)] 3 by (fastforce simp: u_def split: if_splits)
  qed
qed simp

lemma sends_spaced:
  assumes "recorded_before sent (readings env calls)" and "sorted (readings env calls)"
  shows "sorted_wrt (\<lambda>(k, c, t) (k', c', t'). k = k' \<longrightarrow> cooldown env \<le> c' - t) (sends env calls sent)"
  using assms
proof (induction calls arbitrary: sent)
  case (Cons call calls)
  obtain n w where call: "call = (n, w)" by fastforce
  note step = recorded_before_step [OF Cons.prems [unfolded call]]
  have "cooldown env \<le> c - clockAt env w 3"
    if "(throttleKey n, c, t) \<in> set (sends env calls (fmupd (throttleKey n) (clockAt env w 3) sent))" for c t
    by (rule sends_after [OF step(2,3) that]) simp
  then show ?case
    using Cons.IH [OF step(1,3)] Cons.IH [OF step(2) [of "throttleKey n"] step(3)]
    by (auto simp: call sends_Cons simp del: sends.simps)
qed simp

text \<open>Several channels: a channel whose turn comes within the cooldown of a send does not get its copy.\<close>

lemma multi_throttled:
  assumes "\<And>w. clockAt env w 0 < t + cooldown env" and "fmlookup sent (throttleKey base) = Some t"
    and "notifyMultiChannel env channels base sent w = (ns, sent', w')"
  shows "(\<forall>n\<in>set ns. n_status n = StatusThrottled) \<and> sent' = sent \<and> w' = w"
  using assms(3)
proof (induction channels arbitrary: ns)
  case (Cons ch channels)
  have "isThrottled (cooldown env) sent (clockAt env w 0) (base\<lparr>n_channel := ch\<rparr>)"
    using assms(2) assms(1) [of w] by (simp add: isThrottled_def throttleKey_def)
  then show ?case using Cons by (auto simp: notify_def split: prod.splits)
qed simp

lemma multi_one_send:
  assumes "\<And>w w'. clockAt env w' 0 - clockAt env w 3 < cooldown env"
    and "notifyMultiChannel env channels base sent w = (ns, sent', w')"
  shows "sorted_wrt (\<lambda>n n'. n_status n = StatusSent \<longrightarrow> n_status n' = StatusThrottled) ns"
  using assms(2)
proof (induction channels arbitrary: ns sent w)
  case (Cons ch channels)
  obtain r n sent1 w1 ns1 where n: "notify env (base\<lparr>n_channel := ch\<rparr>) sent w = (r, n, sent1, w1)"
      and ns1: "notifyMultiChannel env channels base sent1 w1 = (ns1, sent', w')" and ns: "ns = n # ns1"
    using Cons.prems by (auto split: prod.splits)
  have "\<forall>n'\<in>set ns1. n_status n' = StatusThrottled" if "n_status n = StatusSent"
  proof -
    have "sent1 = fmupd (throttleKey base) (clockAt env w 3) sent"
      using notify_cases(1) [OF n] that by (simp add: throttleKey_def split: if_splits)
    then have l: "fmlookup sent1 (throttleKey base) = Some (clockAt env w 3)" by simp
    have "\<And>w'. clockAt env w' 0 < clockAt env w 3 + cooldown env" using assms(1) by (simp add: algebra_simps)
    then show ?thesis using multi_throttled [OF _ l ns1] by blast
  qed
  then show ?case using Cons.IH [OF ns1] by (simp add: ns)
qed simp

end

section \<open>Properties\<close>

text \<open>A store that numbers notifications, a webhook that always delivers, a clock in the world.\<close>

definition demoNotifEnv :: "(int \<times> i64) notifEnv" where
  "demoNotifEnv = \<lparr>saveNotification = (\<lambda>n (t, k). (None, n\<lparr>n_id := k + 1\<rparr>, (t, k + 1))),
     updateStatus = (\<lambda>i s w. (None, w)),
     senders = indexSenders [(''webhook'', \<lambda>n w. (None, w)), (''telegram'', \<lambda>n w. (None, w))],
     cooldown = 300, clockAt = (\<lambda>w k. fst w)\<rparr>"

definition demoNotification :: notification where
  "demoNotification = \<lparr>n_id = 0, n_userAddress = ''0xa'', n_type = ''liquidation'', n_channel = ''webhook'', n_title = [],
     n_content = [], n_data = fmempty, n_status = StatusUnset, n_createdAt = 0, n_sentAt = None\<rparr>"

interpretation demo: notification_store demoNotifEnv
  by unfold_locales (auto simp: demoNotifEnv_def split: prod.splits)

text \<open>As long as the clock does not run backwards, two notifications of the same type to the same user
  are never sent closer together than the cooldown, whatever happened in between: failed attempts,
  other keys, anything in the store or the senders.\<close>

theorem notify_spacing:
  assumes "notification_store env" and "sorted (readings env calls)"
  shows "sorted_wrt (\<lambda>(k, c, t) (k', c', t'). k = k' \<longrightarrow> cooldown env \<le> c' - t) (sends env calls fmempty)"
  using notification_store.sends_spaced [OF assms(1) _ assms(2)] by (simp add: recorded_before_def)

theorem notify_spacing_witness:
  "map (\<lambda>(k, c, t). c) (sends demoNotifEnv [(demoNotification, (0, 0)), (demoNotification, (100, 0)), (demoNotification, (400, 0))] fmempty)
     = [0, 400]
   \<and> sorted_wrt (\<lambda>(k, c, t) (k', c', t'). k = k' \<longrightarrow> 300 \<le> c' - t)
     (sends demoNotifEnv [(demoNotification, (0, 0)), (demoNotification, (100, 0)), (demoNotification, (400, 0))] fmempty)"
proof
  let ?calls = "[(demoNotification, (0, 0)), (demoNotification, (100, 0)), (demoNotification, (400, 0))]"
  show "map (\<lambda>(k, c, t). c) (sends demoNotifEnv ?calls fmempty) = [0, 400]" by code_simp
  have "sorted (readings demoNotifEnv ?calls)" by code_simp
  moreover have "cooldown demoNotifEnv = 300" by (simp add: demoNotifEnv_def)
  ultimately show "sorted_wrt (\<lambda>(k, c, t) (k', c', t'). k = k' \<longrightarrow> 300 \<le> c' - t) (sends demoNotifEnv ?calls fmempty)"
    using notify_spacing [OF demo.notification_store_axioms, of ?calls] by simp
qed

text \<open>What a call of \<open>Notify\<close> does, on every path. Throttled: nothing is saved or sent. Otherwise it
  returns no error exactly when the notification was sent, and only then the time is recorded, so a
  failed notification may be tried again at once.\<close>

theorem notify_outcome:
  assumes "notification_store env" and "notify env n sent w = (r, n', sent', w')"
  shows "if isThrottled (cooldown env) sent (clockAt env w 0) n
    then r = None \<and> n' = n\<lparr>n_status := StatusThrottled\<rparr> \<and> sent' = sent \<and> w' = w
    else if r = None then n_status n' = StatusSent \<and> sent' = fmupd (throttleKey n) (clockAt env w 3) sent
    else n_status n' = StatusPending \<and> sent' = sent"
  using notification_store.notify_cases(1) [OF assms] .

theorem notify_outcome_witness:
  "\<exists>n' w'. notify demoNotifEnv demoNotification fmempty (7, 0) = (None, n', fmupd ''liquidation:0xa'' 7 fmempty, w')"
proof -
  obtain r n' sent' w' where e: "notify demoNotifEnv demoNotification fmempty (7, 0) = (r, n', sent', w')" by (metis prod_cases4)
  have "r = None" using e by (auto simp: notify_def dispatch_def isThrottled_def demoNotifEnv_def demoNotification_def indexSenders_def Let_def)
  then show ?thesis
    using notify_outcome [OF demo.notification_store_axioms e] e
    by (auto simp: isThrottled_def throttleKey_def demoNotifEnv_def demoNotification_def)
qed

text \<open>\<open>NotifyMultiChannel\<close> reaches one channel only: the throttle key does not name the channel, so once
  one channel was served every later one is throttled, unless the call outlasts the cooldown.\<close>

theorem multichannel_sends_once:
  assumes "notification_store env" and "\<And>w w'. clockAt env w' 0 - clockAt env w 3 < cooldown env"
    and "notifyMultiChannel env channels base sent w = (ns, sent', w')" and "i < j" and "j < length ns"
    and "n_status (ns ! i) = StatusSent"
  shows "n_status (ns ! j) = StatusThrottled"
  using notification_store.multi_one_send [OF assms(1,2,3)] assms(4-6) by (auto simp: sorted_wrt_iff_nth_less)

theorem multichannel_sends_once_witness:
  "map n_status (fst (notifyMultiChannel (demoNotifEnv\<lparr>clockAt := \<lambda>w k. 0\<rparr>) [''telegram'', ''webhook''] demoNotification fmempty (0, 0)))
     = [StatusSent, StatusThrottled]"
proof -
  let ?env = "demoNotifEnv\<lparr>clockAt := \<lambda>w k. 0\<rparr>"
  obtain ns sent' w' where m: "notifyMultiChannel ?env [''telegram'', ''webhook''] demoNotification fmempty (0, 0) = (ns, sent', w')"
    by (metis prod_cases3)
  have l: "length ns = 2" and s: "n_status (ns ! 0) = StatusSent"
    using m by (auto simp: notify_def dispatch_def isThrottled_def demoNotifEnv_def demoNotification_def indexSenders_def Let_def
        split: prod.splits)
  have "notification_store ?env" by unfold_locales (auto simp: demoNotifEnv_def split: prod.splits)
  from multichannel_sends_once [OF this _ m, of 0 1] l s have "n_status (ns ! 1) = StatusThrottled"
    by (simp add: demoNotifEnv_def)
  then show ?thesis using l s m by (auto simp: list_eq_iff_nth_eq less_2_cases_iff)
qed

end
