(* ===== verification/NotifyInterleaved.thy ===== *)
theory NotifyInterleaved
  imports Notification
begin

text \<open>
  Calls of \<open>Notify\<close> from several goroutines. \<open>isThrottled\<close> and \<open>recordSent\<close> take the service's mutex one after
  the other, not together: between the two a call saves and sends its notification while other calls
  check and record. A step here is one of the two critical sections, with what the call does in between
  counted to the second; what the store and the senders answer there is arbitrary.
\<close>

section \<open>Steps\<close>

text \<open>The service, the wall clock, the calls that have passed the check (with the reading of the clock they made
  there), and what was sent so far: key, reading at the check, recorded time.\<close>

record notifSys =
  nsSent :: sentTimes
  nsNow :: int
  nsPassed :: "(notification \<times> int) list"
  nsLog :: "(string \<times> int \<times> int) list"

inductive notifStep :: "'w notifEnv \<Rightarrow> notifSys \<Rightarrow> notifSys \<Rightarrow> bool" for env where
  elapse: "nsNow s \<le> t \<Longrightarrow> notifStep env s (s\<lparr>nsNow := t\<rparr>)"
| throttle: "isThrottled (cooldown env) (nsSent s) (nsNow s) n \<Longrightarrow> notifStep env s s"
| pass: "\<not> isThrottled (cooldown env) (nsSent s) (nsNow s) n \<Longrightarrow>
     notifStep env s (s\<lparr>nsPassed := nsPassed s @ [(n, nsNow s)]\<rparr>)"
| complete: "(n, c) \<in> set (nsPassed s) \<Longrightarrow> clock 3 = nsNow s \<Longrightarrow> dispatch env clock n (nsSent s) w = (r, n', sent', w') \<Longrightarrow>
     notifStep env s (s\<lparr>nsSent := sent', nsPassed := remove1 (n, c) (nsPassed s),
       nsLog := nsLog s @ (if r = None then [(throttleKey n, c, nsNow s)] else [])\<rparr>)"

definition notifStart :: notifSys where
  "notifStart = \<lparr>nsSent = fmempty, nsNow = 0, nsPassed = [], nsLog = []\<rparr>"

inductive notifReach :: "'w notifEnv \<Rightarrow> notifSys \<Rightarrow> bool" for env where
  start: "notifReach env notifStart"
| more: "notifReach env s \<Longrightarrow> notifStep env s s' \<Longrightarrow> notifReach env s'"

section \<open>The invariant\<close>

text \<open>Two sends of one key are a cooldown apart, or the later one made its check before the earlier one was
  recorded.\<close>

definition apart :: "int \<Rightarrow> string \<times> int \<times> int \<Rightarrow> string \<times> int \<times> int \<Rightarrow> bool" where
  "apart cd = (\<lambda>(k, c, t) (k', c', t'). k = k' \<longrightarrow> cd \<le> c' - t \<or> c' \<le> t)"

text \<open>The times known are those of the last sends, nothing lies in the future, and a call that has passed its
  check is apart from every send so far.\<close>

definition notif_ok :: "'w notifEnv \<Rightarrow> notifSys \<Rightarrow> bool" where
  "notif_ok env s \<longleftrightarrow> sorted_wrt (apart (cooldown env)) (nsLog s)
     \<and> (\<forall>(k, c, t)\<in>set (nsLog s). t \<le> nsNow s \<and> (\<exists>t'. fmlookup (nsSent s) k = Some t' \<and> t \<le> t' \<and> t' \<le> nsNow s))
     \<and> (\<forall>(n, c)\<in>set (nsPassed s). c \<le> nsNow s \<and> (\<forall>x\<in>set (nsLog s). apart (cooldown env) x (throttleKey n, c, nsNow s)))"

text \<open>Whether a send is apart from an earlier one does not depend on when it is recorded.\<close>

lemma apart_recorded: "apart cd x (k, c, t) \<longleftrightarrow> apart cd x (k, c, t')"
  by (cases x) (simp add: apart_def)

context notification_store
begin

lemma notif_ok_step:
  assumes "notifStep env s s'" and "notif_ok env s"
  shows "notif_ok env s'"
  using assms
proof (induction rule: notifStep.induct)
  case (elapse s t)
  then show ?case by (fastforce simp: notif_ok_def apart_def)
next
  case (pass s n)
  have "apart (cooldown env) x (throttleKey n, nsNow s, nsNow s)" if x: "x \<in> set (nsLog s)" for x
  proof -
    obtain k c t where e: "x = (k, c, t)" by (metis prod_cases3)
    with x pass.prems obtain t' where "fmlookup (nsSent s) k = Some t'" "t \<le> t'" by (force simp: notif_ok_def)
    then show ?thesis using pass.hyps by (auto simp: e apart_def isThrottled_def)
  qed
  then show ?case using pass.prems by (auto simp: notif_ok_def)
next
  case (complete n c s clock w r n' sent' w')
  note d = dispatch_cases(1) [OF complete.hyps(3)]
  have old: "c \<le> nsNow s" "\<forall>x\<in>set (nsLog s). apart (cooldown env) x (throttleKey n, c, nsNow s)"
    using complete.prems complete.hyps(1) by (force simp: notif_ok_def)+
  have passed: "\<forall>(m, b)\<in>set (remove1 (n, c) (nsPassed s)). b \<le> nsNow s \<and> (\<forall>x\<in>set (nsLog s). apart (cooldown env) x (throttleKey m, b, nsNow s))"
    using complete.prems set_remove1_subset [of "(n, c)" "nsPassed s"] unfolding notif_ok_def by blast
  show ?case
  proof (cases "r = None")
    case True
    then have "sent' = fmupd (throttleKey n) (nsNow s) (nsSent s)" using d complete.hyps(2) by simp
    moreover have "sorted_wrt (apart (cooldown env)) (nsLog s @ [(throttleKey n, c, nsNow s)])"
      using complete.prems old by (simp add: notif_ok_def sorted_wrt_append)
    moreover have "apart (cooldown env) (throttleKey n, c, nsNow s) (throttleKey m, b, nsNow s)"
      if "(m, b) \<in> set (remove1 (n, c) (nsPassed s))" for m b
      using passed that by (auto simp: apart_def)
    ultimately show ?thesis using complete.prems passed True by (force simp: notif_ok_def)
  next
    case False
    then show ?thesis using complete.prems passed d by (force simp: notif_ok_def)
  qed
qed simp

lemma notifReach_ok: "notifReach env s \<Longrightarrow> notif_ok env s"
  by (induction rule: notifReach.induct) (simp add: notif_ok_def notifStart_def, rule notif_ok_step)

end

section \<open>Properties\<close>


text \<open>The demo's service, always delivering, after one call and a second one that started a cooldown later.\<close>

lemma demo_dispatch:
  "\<exists>n' w'. dispatch demoNotifEnv (\<lambda>_. t) demoNotification sent (0, 0) = (None, n', fmupd ''liquidation:0xa'' t sent, w')"
  by (simp add: dispatch_def demoNotifEnv_def demoNotification_def indexSenders_def recordSent_def throttleKey_def Let_def)

lemma demo_complete:
  assumes "notifReach demoNotifEnv s" and "(demoNotification, c) \<in> set (nsPassed s)"
  shows "notifReach demoNotifEnv (s\<lparr>nsSent := fmupd ''liquidation:0xa'' (nsNow s) (nsSent s),
    nsPassed := remove1 (demoNotification, c) (nsPassed s), nsLog := nsLog s @ [(''liquidation:0xa'', c, nsNow s)]\<rparr>)"
proof -
  obtain n' w' where d: "dispatch demoNotifEnv (\<lambda>_. nsNow s) demoNotification (nsSent s) (0, 0)
      = (None, n', fmupd ''liquidation:0xa'' (nsNow s) (nsSent s), w')"
    using demo_dispatch by blast
  have "throttleKey demoNotification = ''liquidation:0xa''" by (simp add: throttleKey_def demoNotification_def)
  with notifReach.more [OF assms(1) notifStep.complete [OF assms(2) refl d]] show ?thesis by simp
qed

lemma demo_pass:
  assumes "notifReach demoNotifEnv s" and "\<forall>t. fmlookup (nsSent s) ''liquidation:0xa'' = Some t \<longrightarrow> t + 300 \<le> nsNow s"
  shows "notifReach demoNotifEnv (s\<lparr>nsPassed := nsPassed s @ [(demoNotification, nsNow s)]\<rparr>)"
proof -
  have "\<not> isThrottled (cooldown demoNotifEnv) (nsSent s) (nsNow s) demoNotification"
    using assms(2) by (auto simp: isThrottled_def throttleKey_def demoNotification_def demoNotifEnv_def split: option.split)
  then show ?thesis using notifReach.more [OF assms(1)] notifStep.pass by blast
qed

definition twoApart :: notifSys where
  "twoApart = \<lparr>nsSent = fmupd ''liquidation:0xa'' 300 (fmupd ''liquidation:0xa'' 0 fmempty), nsNow = 300, nsPassed = [],
     nsLog = [(''liquidation:0xa'', 0, 0), (''liquidation:0xa'', 300, 300)]\<rparr>"

lemma twoApart_reach: "notifReach demoNotifEnv twoApart"
proof -
  let ?k = "''liquidation:0xa''"
  have "notifReach demoNotifEnv \<lparr>nsSent = fmempty, nsNow = 0, nsPassed = [(demoNotification, 0)], nsLog = []\<rparr>"
    using demo_pass [OF notifReach.start] by (simp add: notifStart_def)
  from demo_complete [OF this, of 0] have "notifReach demoNotifEnv \<lparr>nsSent = fmupd ?k 0 fmempty, nsNow = 0, nsPassed = [], nsLog = [(?k, 0, 0)]\<rparr>"
    by simp
  from notifReach.more [OF this notifStep.elapse [of _ 300]]
  have "notifReach demoNotifEnv \<lparr>nsSent = fmupd ?k 0 fmempty, nsNow = 300, nsPassed = [], nsLog = [(?k, 0, 0)]\<rparr>" by simp
  from demo_pass [OF this] have
    "notifReach demoNotifEnv \<lparr>nsSent = fmupd ?k 0 fmempty, nsNow = 300, nsPassed = [(demoNotification, 300)], nsLog = [(?k, 0, 0)]\<rparr>"
    by simp
  from demo_complete [OF this, of 300] show ?thesis by (simp add: twoApart_def)
qed


text \<open>And it does slip through: two calls at the same moment both pass the check and both send.\<close>

theorem notify_race:
  "\<exists>s. notifReach demoNotifEnv s \<and> nsLog s = [(''liquidation:0xa'', 0, 0), (''liquidation:0xa'', 0, 0)]"
proof -
  let ?k = "''liquidation:0xa''"
  have a: "notifReach demoNotifEnv \<lparr>nsSent = fmempty, nsNow = 0, nsPassed = [(demoNotification, 0)], nsLog = []\<rparr>"
    using demo_pass [OF notifReach.start] by (simp add: notifStart_def)
  from demo_pass [OF this] have
    "notifReach demoNotifEnv \<lparr>nsSent = fmempty, nsNow = 0, nsPassed = [(demoNotification, 0), (demoNotification, 0)], nsLog = []\<rparr>" by simp
  from demo_complete [OF this, of 0] have
    "notifReach demoNotifEnv \<lparr>nsSent = fmupd ?k 0 fmempty, nsNow = 0, nsPassed = [(demoNotification, 0)], nsLog = [(?k, 0, 0)]\<rparr>" by simp
  from demo_complete [OF this, of 0] show ?thesis by fastforce
qed

end
