(* ===== verification/Oracle.thy ===== *)
theory Oracle
  imports GoBytes GoFloat GoStrings
begin

text \<open>
  \<open>internal/oracle\<close>: the Chainlink reader, the price cache and the service that fetches, caches,
  publishes and stores prices.

  go-ethereum, Redis, the JSON codec, Kafka and the database are not part of the repository: the
  record \<open>oracleEnv\<close> holds what the code calls of them, over a state \<open>'w\<close> of the outside world.
  The replies of the price feeds during one call of \<open>FetchAndUpdate\<close> are a function of the feed, the
  clock is read once per call. Times are seconds, as \<open>time.Unix\<close> takes them; \<open>int\<close> durations and clock
  readings are nanoseconds. What the code logs is a list the call returns.
\<close>

section \<open>Data\<close>

type_synonym priceSource = string

definition SourceChainlink :: priceSource where [simp]: "SourceChainlink = ''chainlink''"
definition SourceFallback :: priceSource where [simp]: "SourceFallback = ''fallback''"

record priceData =
  pd_asset :: address
  pd_priceUSD :: int
  pd_decimals :: byte
  pd_source :: priceSource
  pd_roundID :: int
  pd_updatedAt :: i64

record priceFeedConfig =
  fd_asset :: address
  fd_symbol :: string
  fd_feed :: address
  fd_decimals :: byte
  fd_heartbeatSec :: i64
  fd_deviationPct :: float64

section \<open>The Chainlink reader\<close>

definition latestRoundDataSelector :: "(byte list \<Rightarrow> byte list) \<Rightarrow> byte list" where
  "latestRoundDataSelector keccak = take 4 (keccak (bytesOf ''latestRoundData()''))"

definition wordAt :: "nat \<Rightarrow> byte list \<Rightarrow> nat" where
  "wordAt i bs = be_val (take 32 (drop (32 * i) bs))"

definition decodeLatestRoundData :: "byte list \<Rightarrow> err + (int \<times> int \<times> i64)" where
  "decodeLatestRoundData bs =
     (if length bs < 160
      then Inl (''response too short: '' @ show_nat (length bs) @ '' bytes, need 160'')
      else let roundID = int (wordAt 0 bs); answer = int (wordAt 1 bs); updatedAt = wordAt 3 bs
           in if answer \<le> 0 then Inl (''invalid price: '' @ show_int answer)
              else Inr (roundID, answer, word_of_nat updatedAt))"

text \<open>\<open>FetchPrice\<close>: the call is to the feed's contract, with the selector as calldata.\<close>

definition fetchPrice :: "(byte list \<Rightarrow> byte list) \<Rightarrow> (address \<Rightarrow> string) \<Rightarrow> (address \<Rightarrow> byte list \<Rightarrow> err + byte list)
    \<Rightarrow> priceFeedConfig \<Rightarrow> err + priceData" where
  "fetchPrice keccak addrHex callContract feed =
     (case callContract (fd_feed feed) (latestRoundDataSelector keccak) of
        Inl e \<Rightarrow> Inl (''call latestRoundData on '' @ addrHex (fd_feed feed) @ '': '' @ e)
      | Inr reply \<Rightarrow> (case decodeLatestRoundData reply of
          Inl e \<Rightarrow> Inl (''decode latestRoundData: '' @ e)
        | Inr (roundID, price, updatedAt) \<Rightarrow>
            Inr \<lparr>pd_asset = fd_asset feed, pd_priceUSD = price, pd_decimals = fd_decimals feed,
              pd_source = SourceChainlink, pd_roundID = roundID, pd_updatedAt = updatedAt\<rparr>))"

section \<open>The outside world\<close>

record 'w oracleEnv =
  marshalPrice :: "priceData \<Rightarrow> err + string"
  unmarshalPrice :: "string \<Rightarrow> err + priceData"
  hexOf :: "address \<Rightarrow> string"
  redisGet :: "string \<Rightarrow> 'w \<Rightarrow> err + string"
  redisSet :: "string \<Rightarrow> string \<Rightarrow> int \<Rightarrow> 'w \<Rightarrow> err option \<times> 'w"
  publishPrice :: "priceData \<Rightarrow> 'w \<Rightarrow> err option \<times> 'w"
  savePrice :: "i64 \<Rightarrow> priceData \<Rightarrow> 'w \<Rightarrow> err option \<times> 'w"

section \<open>The cache\<close>

definition priceKey :: "'w oracleEnv \<Rightarrow> address \<Rightarrow> string" where
  "priceKey env asset = ''price:'' @ hexOf env asset"

definition cacheSet :: "'w oracleEnv \<Rightarrow> priceData \<Rightarrow> int \<Rightarrow> 'w \<Rightarrow> err option \<times> 'w" where
  "cacheSet env price ttl w =
     (case marshalPrice env price of
        Inl e \<Rightarrow> (Some (''marshal price: '' @ e), w)
      | Inr data \<Rightarrow> redisSet env (priceKey env (pd_asset price)) data ttl w)"

definition cacheGet :: "'w oracleEnv \<Rightarrow> address \<Rightarrow> 'w \<Rightarrow> err + priceData" where
  "cacheGet env asset w =
     (case redisGet env (priceKey env asset) w of
        Inl e \<Rightarrow> Inl (''cache miss for '' @ hexOf env asset @ '': '' @ e)
      | Inr val \<Rightarrow> (case unmarshalPrice env val of
          Inl e \<Rightarrow> Inl (''unmarshal cached price: '' @ e)
        | Inr price \<Rightarrow> Inr price))"

definition cacheGetAll :: "'w oracleEnv \<Rightarrow> address list \<Rightarrow> 'w \<Rightarrow> (address, priceData) fmap" where
  "cacheGetAll env assets w = foldl (\<lambda>result asset. case cacheGet env asset w of
      Inl _ \<Rightarrow> result | Inr p \<Rightarrow> fmupd asset p result) fmempty assets"

section \<open>The service\<close>

text \<open>\<open>big.Float\<close> numbers of the precision of the longer price, at least 64 bits; every operation
  rounds to it, \<open>Float64\<close> rounds to a \<open>float64\<close>.\<close>

definition calculateDeviation :: "int \<Rightarrow> int \<Rightarrow> float64" where
  "calculateDeviation oldPrice newPrice =
     (if oldPrice = 0 then Finite 0
      else let p = max (int_prec oldPrice) (int_prec newPrice);
               diff = bigfloat_round p (of_int newPrice - of_int oldPrice);
               ratio = bigfloat_round p (diff / of_int oldPrice)
           in f64_abs (f64_mul (f64_of_rat ratio) (Finite 100)))"

datatype oracleLog = FetchFailed string err | DeviationAlert string float64 int int
  | HeartbeatStale string float64 | CacheFailed string err | PublishFailed string err | SaveFailed string err

text \<open>\<open>time.Since\<close> of a whole second saturates at the ends of \<open>int64\<close>; \<open>Seconds\<close> adds the whole seconds
  and the remaining nanoseconds as \<open>float64\<close> numbers.\<close>

definition timeSince :: "int \<Rightarrow> i64 \<Rightarrow> int" where
  "timeSince now t = max (- (2 ^ 63)) (min (2 ^ 63 - 1) (now - sint t * 10 ^ 9))"

fun f64_add :: "float64 \<Rightarrow> float64 \<Rightarrow> float64" where
  "f64_add (Finite a) (Finite b) = f64_of_rat (a + b)"
| "f64_add NaN _ = NaN"
| "f64_add _ NaN = NaN"
| "f64_add (Finite _) y = y"
| "f64_add x (Finite _) = x"
| "f64_add x y = (if x = y then x else NaN)"

definition durationSeconds :: "int \<Rightarrow> float64" where
  "durationSeconds d = (let sec = sgn d * (\<bar>d\<bar> div 10 ^ 9); nsec = sgn d * (\<bar>d\<bar> mod 10 ^ 9)
     in f64_add (f64_of_rat (of_int sec)) (f64_of_rat (of_int nsec / 10 ^ 9)))"

definition deviationWarning :: "'w oracleEnv \<Rightarrow> priceFeedConfig \<Rightarrow> priceData \<Rightarrow> 'w \<Rightarrow> oracleLog list" where
  "deviationWarning env feed price w =
     (case cacheGet env (fd_asset feed) w of
        Inl _ \<Rightarrow> []
      | Inr cached \<Rightarrow>
          let deviation = calculateDeviation (pd_priceUSD cached) (pd_priceUSD price)
          in if f64_less (fd_deviationPct feed) deviation \<and> f64_less (Finite 0) (fd_deviationPct feed)
             then [DeviationAlert (fd_symbol feed) deviation (pd_priceUSD cached) (pd_priceUSD price)] else [])"

definition heartbeatWarning :: "int \<Rightarrow> priceFeedConfig \<Rightarrow> priceData \<Rightarrow> oracleLog list" where
  "heartbeatWarning now feed price =
     (if 0 < sint (fd_heartbeatSec feed)
      then let staleness = durationSeconds (timeSince now (pd_updatedAt price))
           in if f64_less (f64_of_rat (of_int (sint (fd_heartbeatSec feed)))) staleness
              then [HeartbeatStale (fd_symbol feed) staleness] else []
      else [])"

definition cacheTTL :: "priceFeedConfig \<Rightarrow> int" where
  "cacheTTL feed = (if 0 < sint (fd_heartbeatSec feed) \<and> sint (fd_heartbeatSec feed) < 30
     then sint (fd_heartbeatSec feed) * 10 ^ 9 else 30 * 10 ^ 9)"

definition errLog :: "(err \<Rightarrow> oracleLog) \<Rightarrow> err option \<Rightarrow> oracleLog list" where
  "errLog f r = (case r of None \<Rightarrow> [] | Some e \<Rightarrow> [f e])"

definition updateFeed :: "'w oracleEnv \<Rightarrow> (priceFeedConfig \<Rightarrow> err + priceData) \<Rightarrow> i64 \<Rightarrow> int \<Rightarrow> priceFeedConfig
    \<Rightarrow> 'w \<Rightarrow> oracleLog list \<times> 'w" where
  "updateFeed env fetch chainID now feed w =
     (case fetch feed of
        Inl e \<Rightarrow> ([FetchFailed (fd_symbol feed) e], w)
      | Inr price \<Rightarrow>
          let warnings = deviationWarning env feed price w @ heartbeatWarning now feed price;
              (e1, w1) = cacheSet env price (cacheTTL feed) w;
              (e2, w2) = publishPrice env price w1;
              (e3, w3) = savePrice env chainID price w2
          in (warnings @ errLog (CacheFailed (fd_symbol feed)) e1 @ errLog (PublishFailed (fd_symbol feed)) e2
                @ errLog (SaveFailed (fd_symbol feed)) e3, w3))"

fun fetchAndUpdate :: "'w oracleEnv \<Rightarrow> (priceFeedConfig \<Rightarrow> err + priceData) \<Rightarrow> i64 \<Rightarrow> int \<Rightarrow> priceFeedConfig list
    \<Rightarrow> 'w \<Rightarrow> oracleLog list \<times> 'w" where
  "fetchAndUpdate env fetch chainID now [] w = ([], w)"
| "fetchAndUpdate env fetch chainID now (feed # feeds) w =
     (let (l1, w1) = updateFeed env fetch chainID now feed w;
          (l2, w2) = fetchAndUpdate env fetch chainID now feeds w1
      in (l1 @ l2, w2))"

definition getPrice :: "'w oracleEnv \<Rightarrow> address \<Rightarrow> 'w \<Rightarrow> err + priceData" where
  "getPrice env asset w =
     (case cacheGet env asset w of Inr cached \<Rightarrow> Inr cached | Inl _ \<Rightarrow> Inl (''no cached price for '' @ hexOf env asset))"

definition getPrices :: "'w oracleEnv \<Rightarrow> address list \<Rightarrow> 'w \<Rightarrow> (address, priceData) fmap" where
  "getPrices env assets w = cacheGetAll env assets w"

section \<open>The reply of a price feed\<close>

text \<open>The ABI encoding the contract replies with: five words, the answer in two's complement.\<close>

definition abiRoundData :: "nat \<Rightarrow> int \<Rightarrow> nat \<Rightarrow> nat \<Rightarrow> nat \<Rightarrow> byte list" where
  "abiRoundData roundId answer startedAt updatedAt answeredInRound =
     abiWord roundId @ abiWord (nat (answer mod 2 ^ 256)) @ abiWord startedAt @ abiWord updatedAt @ abiWord answeredInRound"

lemma wordAt_zero: "length u = 32 \<Longrightarrow> wordAt 0 (u @ v) = be_val u"
  by (simp add: wordAt_def)

lemma wordAt_Suc: "length u = 32 \<Longrightarrow> wordAt (Suc i) (u @ v) = wordAt i v"
  by (simp add: wordAt_def)

lemma decode_abiRoundData:
  assumes "roundId < 2 ^ 80" and "startedAt < 2 ^ 256" and "updatedAt < 2 ^ 256" and "answeredInRound < 2 ^ 80"
  shows "decodeLatestRoundData (abiRoundData roundId answer startedAt updatedAt answeredInRound) =
    (if answer mod 2 ^ 256 = 0 then Inl ''invalid price: 0''
     else Inr (int roundId, answer mod 2 ^ 256, word_of_nat updatedAt))"
proof -
  define m where "m = answer mod 2 ^ 256"
  have m: "0 \<le> m" "m < 2 ^ 256" by (simp_all add: m_def)
  have l: "length (abiWord roundId) = 32" "length (abiWord (nat m)) = 32" "length (abiWord startedAt) = 32"
      "length (abiWord updatedAt) = 32" "length (abiWord answeredInRound) = 32"
    using assms m by (auto intro!: abiWord_length)
  have d: "abiRoundData roundId answer startedAt updatedAt answeredInRound
      = abiWord roundId @ abiWord (nat m) @ abiWord startedAt @ abiWord updatedAt @ abiWord answeredInRound"
    by (simp only: abiRoundData_def m_def)
  have w: "wordAt 3 (abiRoundData roundId answer startedAt updatedAt answeredInRound) = updatedAt"
      "wordAt 1 (abiRoundData roundId answer startedAt updatedAt answeredInRound) = nat m"
      "wordAt 0 (abiRoundData roundId answer startedAt updatedAt answeredInRound) = roundId"
      "length (abiRoundData roundId answer startedAt updatedAt answeredInRound) = 160"
    unfolding d using l by (simp_all add: wordAt_zero wordAt_Suc numeral_3_eq_3 wordAt_Suc [of _ 0, simplified])
  have "show_int 0 = ''0''" by code_simp
  then show ?thesis unfolding m_def [symmetric] using m by (simp add: decodeLatestRoundData_def w Let_def del: One_nat_def)
qed

section \<open>What a fetcher promises, and what the service does with it\<close>

definition fetched :: "(priceFeedConfig \<Rightarrow> err + priceData) \<Rightarrow> priceFeedConfig list \<Rightarrow> priceData list" where
  "fetched fetch feeds = concat (map (\<lambda>feed. case fetch feed of Inl _ \<Rightarrow> [] | Inr p \<Rightarrow> [p]) feeds)"

lemma fetched_simps [simp]:
  "fetched fetch [] = []"
  "fetched fetch (feed # feeds) = (case fetch feed of Inl _ \<Rightarrow> [] | Inr p \<Rightarrow> [p]) @ fetched fetch feeds"
  by (simp_all add: fetched_def)

text \<open>A fetcher's price is for the feed's asset, with its decimals, and positive.\<close>

locale price_fetcher =
  fixes fetch :: "priceFeedConfig \<Rightarrow> err + priceData"
  assumes fetch_feed: "fetch feed = Inr p \<Longrightarrow> pd_asset p = fd_asset feed \<and> pd_decimals p = fd_decimals feed"
    and fetch_positive: "fetch feed = Inr p \<Longrightarrow> 0 < pd_priceUSD p"
begin

lemma fetched_ok:
  "p \<in> set (fetched fetch feeds) \<Longrightarrow>
     0 < pd_priceUSD p \<and> (\<exists>feed\<in>set feeds. pd_asset p = fd_asset feed \<and> pd_decimals p = fd_decimals feed)"
proof (induction feeds)
  case (Cons feed feeds)
  then show ?case using fetch_feed [of feed] fetch_positive [of feed] by (cases "fetch feed") auto
qed simp

end

interpretation chainlink: price_fetcher "fetchPrice keccak addrHex callContract"
  by unfold_locales (auto simp: fetchPrice_def decodeLatestRoundData_def Let_def split: sum.splits if_splits)

text \<open>The cache as a client sees it. Redis keeps what was set under the key, the other two services do
  not touch it, the codec reads back what it wrote, and an address's text determines the address.\<close>

definition redis_ok :: "'w oracleEnv \<Rightarrow> bool" where
  "redis_ok env \<longleftrightarrow> inj (hexOf env)
     \<and> (\<forall>k v ttl w. 0 < ttl \<longrightarrow> (\<exists>w'. redisSet env k v ttl w = (None, w')
          \<and> (\<forall>k'. redisGet env k' w' = (if k' = k then Inr v else redisGet env k' w))))
     \<and> (\<forall>p w k. redisGet env k (snd (publishPrice env p w)) = redisGet env k w)
     \<and> (\<forall>c p w k. redisGet env k (snd (savePrice env c p w)) = redisGet env k w)"

definition codec_ok :: "'w oracleEnv \<Rightarrow> priceData \<Rightarrow> bool" where
  "codec_ok env p \<longleftrightarrow> (case marshalPrice env p of Inl _ \<Rightarrow> False | Inr s \<Rightarrow> unmarshalPrice env s = Inr p)"

lemma cacheTTL_pos: "0 < cacheTTL feed"
  by (simp add: cacheTTL_def)

lemma cacheSet_get:
  assumes "redis_ok env" and "codec_ok env p" and "0 < ttl"
  shows "cacheGet env a (snd (cacheSet env p ttl w)) = (if a = pd_asset p then Inr p else cacheGet env a w)"
proof -
  obtain s where s: "marshalPrice env p = Inr s" "unmarshalPrice env s = Inr p"
    using assms(2) by (auto simp: codec_ok_def split: sum.splits)
  obtain w' where w': "redisSet env (priceKey env (pd_asset p)) s ttl w = (None, w')"
      "\<forall>k'. redisGet env k' w' = (if k' = priceKey env (pd_asset p) then Inr s else redisGet env k' w)"
    using assms(1,3) unfolding redis_ok_def by blast
  have "priceKey env a = priceKey env (pd_asset p) \<longleftrightarrow> a = pd_asset p"
    using assms(1) by (auto simp: redis_ok_def priceKey_def dest: injD)
  then show ?thesis by (simp add: cacheSet_def cacheGet_def s w')
qed

lemma cacheGet_cong: "(\<And>k. redisGet env k w' = redisGet env k w) \<Longrightarrow> cacheGet env a w' = cacheGet env a w"
  by (simp add: cacheGet_def)

lemma updateFeed_get:
  assumes r: "redis_ok env" and c: "\<forall>p. fetch feed = Inr p \<longrightarrow> codec_ok env p"
  shows "cacheGet env a (snd (updateFeed env fetch chainID now feed w)) =
    (case fetch feed of Inr p \<Rightarrow> if a = pd_asset p then Inr p else cacheGet env a w | Inl _ \<Rightarrow> cacheGet env a w)"
proof (cases "fetch feed")
  case (Inr p)
  define w1 where "w1 = snd (cacheSet env p (cacheTTL feed) w)"
  have "snd (updateFeed env fetch chainID now feed w) = snd (savePrice env chainID p (snd (publishPrice env p w1)))"
    by (simp add: updateFeed_def Inr w1_def Let_def split: prod.split)
  moreover have "cacheGet env a (snd (savePrice env chainID p (snd (publishPrice env p w1)))) = cacheGet env a w1"
    using r by (intro cacheGet_cong) (simp add: redis_ok_def)
  ultimately show ?thesis using cacheSet_get [OF r _ cacheTTL_pos [of feed], of p a w] c Inr by (simp add: w1_def)
qed (simp add: updateFeed_def)

text \<open>The last price the feeds gave for an asset.\<close>

fun latestPrice :: "(priceFeedConfig \<Rightarrow> err + priceData) \<Rightarrow> priceFeedConfig list \<Rightarrow> address \<Rightarrow> priceData option" where
  "latestPrice fetch [] a = None"
| "latestPrice fetch (feed # feeds) a =
     (case latestPrice fetch feeds a of Some p \<Rightarrow> Some p
      | None \<Rightarrow> (case fetch feed of Inr p \<Rightarrow> if a = pd_asset p then Some p else None | Inl _ \<Rightarrow> None))"

lemma fetchAndUpdate_get:
  assumes "redis_ok env" and "\<forall>p\<in>set (fetched fetch feeds). codec_ok env p"
  shows "cacheGet env a (snd (fetchAndUpdate env fetch chainID now feeds w)) =
    (case latestPrice fetch feeds a of Some p \<Rightarrow> Inr p | None \<Rightarrow> cacheGet env a w)"
  using assms(2)
proof (induction feeds arbitrary: w)
  case (Cons feed feeds)
  define w1 where "w1 = snd (updateFeed env fetch chainID now feed w)"
  have "snd (fetchAndUpdate env fetch chainID now (feed # feeds) w) = snd (fetchAndUpdate env fetch chainID now feeds w1)"
    by (simp add: w1_def split: prod.split)
  moreover have "cacheGet env a w1 = (case fetch feed of Inr p \<Rightarrow> if a = pd_asset p then Inr p else cacheGet env a w
      | Inl _ \<Rightarrow> cacheGet env a w)"
    unfolding w1_def using Cons.prems by (intro updateFeed_get [OF assms(1)]) auto
  ultimately show ?case using Cons by (auto split: option.split sum.splits)
qed simp

section \<open>Deviation\<close>

lemma f64_small: "f64_of_rat 1 = Finite 1" "f64_of_rat (- 1) = Finite (- 1)" "f64_of_rat 100 = Finite 100"
    "f64_of_rat (- 100) = Finite (- 100)"
proof -
  have "bitlen 100 = (7::int)" by code_simp
  then show "f64_of_rat 1 = Finite 1" "f64_of_rat (- 1) = Finite (- 1)" "f64_of_rat 100 = Finite 100"
      "f64_of_rat (- 100) = Finite (- 100)"
    using f64_of_int [of 1] f64_of_int [of "- 1"] f64_of_int [of 100] f64_of_int [of "- 100"] by simp_all
qed

lemma f64_abs_nonneg: "x \<noteq> NaN \<Longrightarrow> f64_nonneg (f64_abs x)"
  by (cases x) simp_all

lemma f64_of_rat_not_NaN: "f64_of_rat x \<noteq> NaN"
  by (simp add: f64_of_rat_def Let_def)

lemma f64_mul_100_not_NaN: "x \<noteq> NaN \<Longrightarrow> f64_mul x (Finite 100) \<noteq> NaN"
  by (cases x) (simp_all add: f64_of_rat_not_NaN)

lemma deviation_ratio:
  assumes "p \<noteq> 0" and "of_int q - of_int p = (of_int d :: rat)" and "bitlen \<bar>d\<bar> \<le> int (max (int_prec p) (int_prec q))"
    and "(of_int d / of_int p :: rat) = of_int k" and "\<bar>k\<bar> = 1"
  shows "calculateDeviation p q = Finite 100"
proof -
  let ?P = "max (int_prec p) (int_prec q)"
  have "bitlen \<bar>k\<bar> \<le> int ?P" using assms(5) by (simp add: int_prec_def)
  then have "bigfloat_round ?P (of_int d / of_int p) = of_int k"
    using bigfloat_round_of_int [of k ?P] assms(4) by simp
  moreover have "bigfloat_round ?P (of_int q - of_int p) = of_int d"
    using bigfloat_round_of_int [OF assms(3)] assms(2) by simp
  moreover have "k = 1 \<or> k = - 1" using assms(5) by auto
  ultimately show ?thesis using assms(1) by (auto simp: calculateDeviation_def Let_def f64_small)
qed

section \<open>Properties\<close>



text \<open>The answer is an \<open>int256\<close> but is read without its sign: a negative answer is accepted as an
  astronomic price, where the check for it means to refuse it.\<close>

theorem decode_negative:
  assumes "roundId < 2 ^ 80" and "startedAt < 2 ^ 256" and "updatedAt < 2 ^ 256" and "answeredInRound < 2 ^ 80"
    and "- (2 ^ 255) \<le> answer" and "answer < 0"
  shows "decodeLatestRoundData (abiRoundData roundId answer startedAt updatedAt answeredInRound)
      = Inr (int roundId, 2 ^ 256 + answer, word_of_nat updatedAt)
    \<and> 2 ^ 255 \<le> 2 ^ 256 + answer"
proof -
  have "answer mod 2 ^ 256 = (answer + 2 ^ 256) mod 2 ^ 256" by simp
  also have "\<dots> = answer + 2 ^ 256" using assms(5,6) by (intro mod_pos_pos_trivial) simp_all
  finally have "answer mod 2 ^ 256 = 2 ^ 256 + answer" by simp
  then show ?thesis using decode_abiRoundData [OF assms(1-4), of answer] assms(5,6) by simp
qed

theorem decode_negative_witness:
  "\<exists>price. decodeLatestRoundData (abiRoundData 1 (- 5) 0 7 1) = Inr (1, price, 7) \<and> 2 ^ 255 \<le> price"
  using decode_negative [of 1 0 7 1 "- 5"] by simp

text \<open>The deviation is never negative and never NaN; it is 0 for an unchanged price and 100 for a
  price that doubled or fell to zero, whatever the size of the price.\<close>

theorem deviation_correct:
  "f64_nonneg (calculateDeviation p q) \<and> calculateDeviation p p = Finite 0
   \<and> (p \<noteq> 0 \<longrightarrow> calculateDeviation p (2 * p) = Finite 100 \<and> calculateDeviation p 0 = Finite 100)"
proof (intro conjI impI)
  show "f64_nonneg (calculateDeviation p q)"
    by (simp add: calculateDeviation_def Let_def f64_abs_nonneg f64_mul_100_not_NaN f64_of_rat_not_NaN)
  show "calculateDeviation p p = Finite 0" by (simp add: calculateDeviation_def Let_def)
  show "calculateDeviation p (2 * p) = Finite 100" if "p \<noteq> 0"
    by (rule deviation_ratio [of _ _ p 1]) (use that int_prec_bitlen [of p "2 * p"] in simp_all)
  show "calculateDeviation p 0 = Finite 100" if "p \<noteq> 0"
    by (rule deviation_ratio [of _ _ "- p" "- 1"]) (use that int_prec_bitlen [of p 0] in simp_all)
qed

theorem deviation_correct_witness: "calculateDeviation 200000000000 400000000000 = Finite 100"
  using deviation_correct [of 200000000000] by simp


text \<open>A world to apply it in: Redis is a map, the database a list; the codec knows one price.\<close>

definition demoPrice :: priceData where
  "demoPrice = \<lparr>pd_asset = 5, pd_priceUSD = 200000000000, pd_decimals = 8, pd_source = ''chainlink'', pd_roundID = 100,
     pd_updatedAt = 2000\<rparr>"

definition demoFeed :: "address \<Rightarrow> priceFeedConfig" where
  "demoFeed a = \<lparr>fd_asset = a, fd_symbol = ''ETH'', fd_feed = 9, fd_decimals = 8, fd_heartbeatSec = 3600,
     fd_deviationPct = Finite 1\<rparr>"

definition demoEnv :: "((string \<Rightarrow> string option) \<times> (i64 \<times> priceData) list) oracleEnv" where
  "demoEnv = \<lparr>marshalPrice = (\<lambda>p. Inr ''{}''), unmarshalPrice = (\<lambda>s. Inr demoPrice), hexOf = (\<lambda>a. show_nat (unat a)),
     redisGet = (\<lambda>k w. case fst w k of None \<Rightarrow> Inl ''redis: nil'' | Some v \<Rightarrow> Inr v),
     redisSet = (\<lambda>k v ttl w. (None, ((fst w)(k \<mapsto> v), snd w))),
     publishPrice = (\<lambda>p w. (Some ''kafka down'', w)),
     savePrice = (\<lambda>c p w. (None, (fst w, snd w @ [(c, p)])))\<rparr>"

lemma demoEnv_ok: "redis_ok demoEnv"
proof -
  have "inj (\<lambda>a :: address. show_nat (unat a))"
    by (rule injI) (metis option.inject read_show_nat word_unat_eq_iff)
  then show ?thesis by (simp add: redis_ok_def demoEnv_def)
qed


text \<open>A database that keeps what it accepted; \<open>saved\<close> reads it.\<close>

definition store_ok :: "'w oracleEnv \<Rightarrow> ('w \<Rightarrow> (i64 \<times> priceData) list) \<Rightarrow> bool" where
  "store_ok env saved \<longleftrightarrow>
     (\<forall>c p w. saved (snd (savePrice env c p w)) = saved w @ (case fst (savePrice env c p w) of None \<Rightarrow> [(c, p)] | Some _ \<Rightarrow> []))
     \<and> (\<forall>p w. saved (snd (publishPrice env p w)) = saved w)
     \<and> (\<forall>k v ttl w. saved (snd (redisSet env k v ttl w)) = saved w)"

lemma updateFeed_saved:
  assumes "store_ok env saved"
  shows "set (saved (snd (updateFeed env fetch chainID now feed w)))
    \<subseteq> set (saved w) \<union> {chainID} \<times> set (fetched fetch [feed])"
proof (cases "fetch feed")
  case (Inr p)
  define w1 where "w1 = snd (publishPrice env p (snd (cacheSet env p (cacheTTL feed) w)))"
  have u: "snd (updateFeed env fetch chainID now feed w) = snd (savePrice env chainID p w1)"
    by (simp add: updateFeed_def Inr w1_def Let_def split: prod.split)
  have "saved w1 = saved w" using assms by (auto simp: w1_def store_ok_def cacheSet_def split: sum.splits)
  then have "saved (snd (savePrice env chainID p w1)) = saved w @ (case fst (savePrice env chainID p w1) of None \<Rightarrow> [(chainID, p)] | Some _ \<Rightarrow> [])"
    using assms by (simp add: store_ok_def)
  then show ?thesis unfolding u using Inr by (auto split: option.splits)
qed (simp add: updateFeed_def)

lemma fetchAndUpdate_saved:
  assumes "store_ok env saved"
  shows "set (saved (snd (fetchAndUpdate env fetch chainID now feeds w)))
    \<subseteq> set (saved w) \<union> {chainID} \<times> set (fetched fetch feeds)"
proof (induction feeds arbitrary: w)
  case (Cons feed feeds)
  define w1 where "w1 = snd (updateFeed env fetch chainID now feed w)"
  have "snd (fetchAndUpdate env fetch chainID now (feed # feeds) w) = snd (fetchAndUpdate env fetch chainID now feeds w1)"
    by (simp add: w1_def split: prod.split)
  moreover have "set (saved w1) \<subseteq> set (saved w) \<union> {chainID} \<times> set (fetched fetch [feed])"
    unfolding w1_def by (rule updateFeed_saved [OF assms])
  ultimately show ?case using Cons [of w1] by auto
qed simp

text \<open>With Chainlink feeds, every price \<open>FetchAndUpdate\<close> adds to the database is positive, belongs to
  the asset of a configured feed and carries that feed's decimals.\<close>

theorem oracle_saves_safe:
  assumes "store_ok env saved"
    and "(c, p) \<in> set (saved (snd (fetchAndUpdate env (fetchPrice keccak addrHex callContract) chainID now feeds w)))"
    and "(c, p) \<notin> set (saved w)"
  shows "c = chainID \<and> 0 < pd_priceUSD p \<and> (\<exists>feed\<in>set feeds. pd_asset p = fd_asset feed \<and> pd_decimals p = fd_decimals feed)"
proof -
  have "c = chainID \<and> p \<in> set (fetched (fetchPrice keccak addrHex callContract) feeds)"
    using fetchAndUpdate_saved [OF assms(1)] assms(2,3) by blast
  then show ?thesis using chainlink.fetched_ok by blast
qed

theorem oracle_saves_safe_witness:
  "\<exists>p. snd (snd (fetchAndUpdate demoEnv (fetchPrice (\<lambda>_. []) (\<lambda>_. []) (\<lambda>_ _. Inr (abiRoundData 100 200000000000 1000 2000 100)))
     1 0 [demoFeed 5] (\<lambda>_. None, []))) = [(1, p)] \<and> 0 < pd_priceUSD p"
proof -
  let ?f = "fetchPrice (\<lambda>_. []) (\<lambda>_. []) (\<lambda>_ _. Inr (abiRoundData 100 200000000000 1000 2000 100))"
  let ?w = "snd (fetchAndUpdate demoEnv ?f 1 0 [demoFeed 5] (\<lambda>_. None, []))"
  have "store_ok demoEnv snd" by (simp add: store_ok_def demoEnv_def)
  moreover have "decodeLatestRoundData (abiRoundData 100 200000000000 1000 2000 100) = Inr (100, 200000000000, 2000)"
    using decode_abiRoundData [of 100 1000 2000 100 200000000000] by simp
  then have "\<exists>p. ?f (demoFeed 5) = Inr p" by (simp add: fetchPrice_def)
  then obtain p where p: "?f (demoFeed 5) = Inr p" by blast
  have s: "snd ?w = [(1, p)]"
    by (simp add: updateFeed_def p Let_def cacheSet_def demoEnv_def split: prod.split)
  ultimately show ?thesis
    using oracle_saves_safe [of demoEnv snd 1 p "\<lambda>_. []" "\<lambda>_. []" "\<lambda>_ _. Inr (abiRoundData 100 200000000000 1000 2000 100)"
        1 0 "[demoFeed 5]" "(\<lambda>_. None, [])"] by auto
qed
section \<open>The polling loop\<close>

text \<open>\<open>RunLoop\<close>: one round at once, then one for each tick until the context is done (\<open>None\<close>). A round has the
  answers to its fetches and its time.\<close>

fun oracleLoop :: "'w oracleEnv \<Rightarrow> i64 \<Rightarrow> priceFeedConfig list
    \<Rightarrow> ((priceFeedConfig \<Rightarrow> err + priceData) \<times> int) option list \<Rightarrow> 'w \<Rightarrow> 'w" where
  "oracleLoop env chainID feeds [] w = w"
| "oracleLoop env chainID feeds (None # ws) w = w"
| "oracleLoop env chainID feeds (Some (fetch, now) # ws) w =
     oracleLoop env chainID feeds ws (snd (fetchAndUpdate env fetch chainID now feeds w))"

definition runLoop :: "'w oracleEnv \<Rightarrow> i64 \<Rightarrow> priceFeedConfig list \<Rightarrow> (priceFeedConfig \<Rightarrow> err + priceData) \<times> int
    \<Rightarrow> ((priceFeedConfig \<Rightarrow> err + priceData) \<times> int) option list \<Rightarrow> 'w \<Rightarrow> 'w" where
  "runLoop env chainID feeds first ws w =
     oracleLoop env chainID feeds ws (snd (fetchAndUpdate env (fst first) chainID (snd first) feeds w))"

lemma oracleLoop_saved:
  assumes "store_ok env saved" and "\<forall>r. Some r \<in> set ws \<longrightarrow> {chainID} \<times> set (fetched (fst r) feeds) \<subseteq> good"
    and "set (saved w) \<subseteq> before \<union> good"
  shows "set (saved (oracleLoop env chainID feeds ws w)) \<subseteq> before \<union> good"
  using assms(2,3)
proof (induction ws arbitrary: w)
  case (Cons r ws)
  show ?case
  proof (cases r)
    case (Some round)
    then have "{chainID} \<times> set (fetched (fst round) feeds) \<subseteq> good" using Cons.prems(1) by (meson list.set_intros(1))
    then have "set (saved (snd (fetchAndUpdate env (fst round) chainID (snd round) feeds w))) \<subseteq> before \<union> good"
      using fetchAndUpdate_saved [OF assms(1), of "fst round" chainID "snd round" feeds w] Cons.prems(2) by blast
    with Cons Some show ?thesis by (cases round) simp
  qed (use Cons in simp)
qed simp

text \<open>C25: With Chainlink feeds, every price the polling loop ever adds to the database, over any number of rounds
  and whatever the contracts answer, is positive, belongs to the asset of a configured feed and carries
  that feed's decimals.\<close>

theorem oracle_loop_saves_safe:
  assumes "store_ok env saved"
    and "(c, p) \<in> set (saved (runLoop env chainID feeds (fetchPrice keccak addrHex (fst first), snd first)
           (map (map_option (\<lambda>(call, now). (fetchPrice keccak addrHex call, now))) rounds) w))"
    and "(c, p) \<notin> set (saved w)"
  shows "c = chainID \<and> 0 < pd_priceUSD p \<and> (\<exists>feed\<in>set feeds. pd_asset p = fd_asset feed \<and> pd_decimals p = fd_decimals feed)"
proof -
  define good :: "(i64 \<times> priceData) set" where "good = {(c, p). c = chainID \<and> 0 < pd_priceUSD p
    \<and> (\<exists>feed\<in>set feeds. pd_asset p = fd_asset feed \<and> pd_decimals p = fd_decimals feed)}"
  have fetched: "{chainID} \<times> set (fetched (fetchPrice keccak addrHex call) feeds) \<subseteq> good" for call
    using chainlink.fetched_ok by (auto simp: good_def)
  have first: "set (saved (snd (fetchAndUpdate env (fetchPrice keccak addrHex (fst first)) chainID (snd first) feeds w))) \<subseteq> set (saved w) \<union> good"
    using fetchAndUpdate_saved [OF assms(1)] fetched by blast
  have rest: "{chainID} \<times> set (fetched (fst r) feeds) \<subseteq> good"
    if r: "Some r \<in> set (map (map_option (\<lambda>(call, now). (fetchPrice keccak addrHex call, now))) rounds)" for r
  proof -
    obtain x where "Some r = map_option (\<lambda>(call, now). (fetchPrice keccak addrHex call, now)) x" using r by auto
    then obtain call now where "r = (fetchPrice keccak addrHex call, now)" by (cases x) auto
    then show ?thesis using fetched by simp
  qed
  have "set (saved (runLoop env chainID feeds (fetchPrice keccak addrHex (fst first), snd first)
       (map (map_option (\<lambda>(call, now). (fetchPrice keccak addrHex call, now))) rounds) w)) \<subseteq> set (saved w) \<union> good"
    unfolding runLoop_def fst_conv snd_conv by (rule oracleLoop_saved [OF assms(1) _ first]) (use rest in blast)
  with assms(2) have "(c, p) \<in> set (saved w) \<union> good" by blast
  with assms(3) show ?thesis by (simp add: good_def)
qed

theorem oracle_loop_saves_safe_witness:
  "\<exists>p. snd (runLoop demoEnv 1 [demoFeed 5] (fetchPrice (\<lambda>_. []) (\<lambda>_. []) (\<lambda>_ _. Inr (abiRoundData 100 200000000000 1000 2000 100)), 0)
     (map (map_option (\<lambda>(call, now). (fetchPrice (\<lambda>_. []) (\<lambda>_. []) call, now))) [Some (\<lambda>_ _. Inl ''timeout'', 60), None]) (\<lambda>_. None, []))
     = [(1, p)] \<and> 0 < pd_priceUSD p"
proof -
  let ?call = "\<lambda>_ _. Inr (abiRoundData 100 200000000000 1000 2000 100)"
  let ?rounds = "[Some (\<lambda>_ _. Inl ''timeout'', 60), None]"
  let ?w = "runLoop demoEnv 1 [demoFeed 5] (fetchPrice (\<lambda>_. []) (\<lambda>_. []) ?call, 0)
     (map (map_option (\<lambda>(call, now). (fetchPrice (\<lambda>_. []) (\<lambda>_. []) call, now))) ?rounds) (\<lambda>_. None, [])"
  have store: "store_ok demoEnv snd" by (simp add: store_ok_def demoEnv_def)
  have "decodeLatestRoundData (abiRoundData 100 200000000000 1000 2000 100) = Inr (100, 200000000000, 2000)"
    using decode_abiRoundData [of 100 1000 2000 100 200000000000] by simp
  then have "\<exists>p. fetchPrice (\<lambda>_. []) (\<lambda>_. []) ?call (demoFeed 5) = Inr p" by (simp add: fetchPrice_def)
  then obtain p where p: "fetchPrice (\<lambda>_. []) (\<lambda>_. []) ?call (demoFeed 5) = Inr p" by blast
  moreover have "fetchPrice (\<lambda>_. []) (\<lambda>_. []) (\<lambda>_ _. Inl ''timeout'') (demoFeed 5) = Inl ''call latestRoundData on : timeout''"
    by (simp add: fetchPrice_def)
  ultimately have s: "snd ?w = [(1, p)]"
    by (simp add: runLoop_def updateFeed_def Let_def cacheSet_def demoEnv_def split: prod.split)
  have "0 < pd_priceUSD p"
    using oracle_loop_saves_safe [of demoEnv snd 1 p 1 "[demoFeed 5]" "\<lambda>_. []" "\<lambda>_. []" "(?call, 0)" ?rounds "(\<lambda>_. None, [])"]
      store s by simp
  with s show ?thesis by blast
qed

end
