(* ===== verification/Liquidator.thy ===== *)
theory Liquidator
  imports LiquidationService
begin

text \<open>
  \<open>cmd/liquidator\<close>: the liquidation service as the program starts it, with its placeholder node and signer,
  and \<open>Service.Run\<close>; and what consecutive scans do.
\<close>

section \<open>The placeholders\<close>

definition stubSuggestGasPrice :: "err + int" where
  "stubSuggestGasPrice = Inr (20 * 10 ^ 9)"

definition stubPendingNonceAt :: "address \<Rightarrow> err + u64" where
  "stubPendingNonceAt addr = Inr 0"

definition stubSendTransaction :: "'stx \<Rightarrow> err option" where
  "stubSendTransaction tx = None"

definition stubSignTx :: "ethTx \<Rightarrow> int \<Rightarrow> err + ethTx" where
  "stubSignTx tx chain = Inr tx"

text \<open>The hash of a transaction is go-ethereum's.\<close>

definition stubChainEnv :: "(ethTx \<Rightarrow> hash) \<Rightarrow> i64 \<Rightarrow> ethTx chainEnv" where
  "stubChainEnv hashOf now = \<lparr>suggestGasPrice = stubSuggestGasPrice, pendingNonceAt = stubPendingNonceAt,
     sendTransaction = stubSendTransaction, signTx = stubSignTx, signerAddress = 0,
     stxHash = hashOf, stxTx = (\<lambda>tx. tx), wallTime = now\<rparr>"

text \<open>The executor's configuration, from the identifiers of the configured chainIDs; without one the start
  panics. The fields that are not set are zero.\<close>

definition liquidatorConfig :: "i64 list \<Rightarrow> execConfig option" where
  "liquidatorConfig chainIDs = (case chainIDs of
     [] \<Rightarrow> None
   | c # _ \<Rightarrow> Some \<lparr>cfgChainID = sint c, cfgLendingPool = 0, cfgMinProfitWei = Some (10 ^ 15),
       cfgMaxGasPrice = Some (100 * 10 ^ 9), cfgGasLimit = 500000, cfgMaxRetries = 3, cfgRetryBaseDelay = 0\<rparr>)"

definition liquidatorStart :: "i64 list \<Rightarrow> liqService option" where
  "liquidatorStart chainIDs =
     map_option (\<lambda>c. newLiqService newRateComputer newScanner (newExecutor c)) (liquidatorConfig chainIDs)"

text \<open>\<open>Run\<close> for the ticks so far: the time of each, with the orders in which its scan walks the map of
  positions twice.\<close>

fun runService :: "ethLib \<Rightarrow> (nat \<Rightarrow> bool) \<Rightarrow> (nat \<Rightarrow> 'stx chainEnv) \<Rightarrow> (i64 \<times> address list \<times> address list) list
    \<Rightarrow> liqService \<Rightarrow> (liqService \<times> ethTx list) option" where
  "runService eth cancelled env [] s = Some (s, [])"
| "runService eth cancelled env ((now, order, order') # ticks) s = do {
     (s1, txs) \<leftarrow> scan eth cancelled env order order' now s;
     (s2, txs') \<leftarrow> runService eth cancelled env ticks s1;
     Some (s2, txs @ txs')
   }"

section \<open>Consecutive scans\<close>

lemma stub_willing: "willing (stubChainEnv hashOf now)" "signer_ok (stubChainEnv hashOf now)"
  by (simp_all add: willing_def signer_ok_def stubChainEnv_def stubSuggestGasPrice_def stubPendingNonceAt_def stubSendTransaction_def stubSignTx_def)

text \<open>A scan changes nothing in a position but its cached health factor.\<close>

lemma scan_keeps_position:
  assumes "engine_ok s" and "set order = fmdom' (positions (svcScanner s))"
    and "scan eth cancelled env order order' now s = Some (s', txs)" and "fmlookup (positions (svcScanner s)) a = Some p"
  shows "\<exists>q. fmlookup (positions (svcScanner s')) a = Some q \<and> same_data p q"
    and "svcRate s' = svcRate s"
proof -
  let ?l = "currentLiquidityIndex (svcRate s)" and ?b = "currentBorrowIndex (svcRate s)"
  have sc: "scanner_ok (svcScanner s)" using assms(1) by (simp add: engine_ok_def)
  obtain t where t: "refreshAll ?l ?b now order (svcScanner s) = Some t" "posView t = specRefresh ?l ?b now (posView (svcScanner s))"
    using refreshAll_refines [OF sc assms(2)] by blast
  have s': "svcRate s' = svcRate s" "svcScanner s' = t"
    using assms(3) t(1) by (auto simp: scan_def Let_def bind_eq_Some_conv split: if_splits)
  show "svcRate s' = svcRate s" by (rule s')
  have "\<exists>p'. fmlookup (positions (svcScanner s)) a = Some p' \<and> (debts p' = debts p \<and> collaterals p' = collaterals p \<and> userAddress p' = userAddress p)"
    using assms(4) by blast
  then show "\<exists>q. fmlookup (positions (svcScanner s')) a = Some q \<and> same_data p q"
    using refreshed_lookup [OF sc t(2), of a "\<lambda>x y z w. x = debts p \<and> y = collaterals p \<and> z = userAddress p"]
    by (auto simp: s' same_data_def)
qed

lemma refreshed_domain:
  "posView sc' = specRefresh l b now (posView sc) \<Longrightarrow> fmdom' (positions sc') = fmdom' (positions sc)"
proof -
  assume "posView sc' = specRefresh l b now (posView sc)"
  then have "fmlookup (posView sc') a = None \<longleftrightarrow> fmlookup (posView sc) a = None" for a by (simp add: specRefresh_def)
  then have "fmlookup (positions sc') a = None \<longleftrightarrow> fmlookup (positions sc) a = None" for a by (simp add: lookup_posView)
  then show ?thesis by (auto simp: fmlookup_dom'_iff) (metis option.exhaust)+
qed

lemma scan_domain:
  assumes "engine_ok s" and "set order = fmdom' (positions (svcScanner s))"
    and "scan eth cancelled env order order' now s = Some (s', txs)"
  shows "fmdom' (positions (svcScanner s')) = fmdom' (positions (svcScanner s))"
proof -
  have sc: "scanner_ok (svcScanner s)" using assms(1) by (simp add: engine_ok_def)
  obtain t where t: "refreshAll (currentLiquidityIndex (svcRate s)) (currentBorrowIndex (svcRate s)) now order (svcScanner s) = Some t"
      "posView t = specRefresh (currentLiquidityIndex (svcRate s)) (currentBorrowIndex (svcRate s)) now (posView (svcScanner s))"
    using refreshAll_refines [OF sc assms(2)] by blast
  have "svcScanner s' = t" using assms(3) t(1) by (auto simp: scan_def Let_def bind_eq_Some_conv split: if_splits)
  then show ?thesis using refreshed_domain [OF t(2)] by simp
qed

text \<open>The liquidator's two properties rest on what a scan sends for one position.\<close>

lemma scan_sends:
  assumes "eth_ok eth" and "\<forall>i. signer_ok (env i) \<and> willing (env i) \<and> \<not> cancelled i" and "scan_ready order s"
    and "fmlookup (positions (svcScanner s)) a = Some p" and "a \<in> set order'" and "below_water s now p" and "job p = Some j"
  shows "\<exists>s' txs. scan eth cancelled env order order' now s = Some (s', txs) \<and> cfg (svcExecutor s') = cfg (svcExecutor s)
    \<and> (\<exists>tx\<in>set txs. job_tx_ok eth (cfg (svcExecutor s)) j tx)"
proof -
  have "\<forall>i. signer_ok (env i)" "\<forall>i. \<not> cancelled i \<and> willing (env i)" using assms(2) by simp_all
  then show ?thesis
    using scan_outcome [OF assms(1) _ assms(3), of env cancelled order' now] assms(4-7) by blast
qed

section \<open>Properties\<close>

text \<open>C31: Every scan liquidates again: nothing remembers that a transaction for a position is on its way, so as
  long as the position is below water with the data of the scanner, two scans one after the other, five
  seconds apart as the program runs them, both send a transaction that repays half of its first debt.\<close>

theorem scan_repeats_liquidation:
  assumes "eth_ok eth" and "\<forall>i. signer_ok (env i) \<and> willing (env i) \<and> \<not> cancelled i" and "engine_ok s"
    and "fmlookup (positions (svcScanner s)) a = Some p" and "debts p = d # ds" and "collaterals p = c # cs"
    and "\<forall>t\<in>{now, now'}. below_water s t p"
    and "set order = fmdom' (positions (svcScanner s))" and "set order' = set order"
  shows "\<exists>s' txs s'' txs'. runService eth cancelled env [(now, order, order'), (now', order, order')] s = Some (s'', txs @ txs')
    \<and> scan eth cancelled env order order' now s = Some (s', txs)
    \<and> (\<exists>tx\<in>set txs. liquidation_tx_ok eth (cfg (svcExecutor s)) (c_assetAddress c) (d_assetAddress d) (userAddress p) (d_borrowBalance d div 2) tx)
    \<and> (\<exists>tx\<in>set txs'. liquidation_tx_ok eth (cfg (svcExecutor s)) (c_assetAddress c) (d_assetAddress d) (userAddress p) (d_borrowBalance d div 2) tx)"
proof -
  define j where "j = (c_assetAddress c, d_assetAddress d, userAddress p, d_borrowBalance d div 2)"
  have j: "job p = Some j" using assms(5,6) by (simp add: job_def j_def)
  have a: "a \<in> set order'" using assms(4,8,9) by (simp add: fmdom'I)
  note ready = engine_ready [OF assms(3,8)]
  have w: "below_water s now p" "below_water s now' p" using assms(7) by simp_all
  from scan_sends [OF assms(1,2) ready assms(4) a w(1) j] obtain s' txs where
    s1: "scan eth cancelled env order order' now s = Some (s', txs)" "cfg (svcExecutor s') = cfg (svcExecutor s)"
      "\<exists>tx\<in>set txs. job_tx_ok eth (cfg (svcExecutor s)) j tx" by blast
  have ok: "engine_ok s'"
    using engineStep.e_scan [OF assms(8) _ s1(1), of "{env}" ] engineStep_ok [OF _ assms(1,3)] by blast
  note keep = scan_keeps_position [OF assms(3,8) s1(1) assms(4)]
  obtain q where q: "fmlookup (positions (svcScanner s')) a = Some q" "same_data p q" using keep(1) by blast
  have "set order = fmdom' (positions (svcScanner s'))"
    using scan_domain [OF assms(3,8) s1(1)] assms(8) by simp
  note ready' = engine_ready [OF ok this]
  have "below_water s' now' q"
    using w(2) q(2) keep(2) by (simp add: below_water_def same_data_def healthFactor_entries [of q p])
  from scan_sends [OF assms(1,2) ready' q(1) a this] j q(2) obtain s'' txs' where
    s2: "scan eth cancelled env order order' now' s' = Some (s'', txs')" "\<exists>tx\<in>set txs'. job_tx_ok eth (cfg (svcExecutor s')) j tx"
    by auto
  show ?thesis using s1 s2 by (auto simp: job_tx_ok_def j_def)
qed

lemma example_below_water_later:
  "case fmlookup (positions exampleScanner) 2 of None \<Rightarrow> False | Some p \<Rightarrow> below_water exampleService 2000 p \<and> below_water exampleService 2005 p"
  by code_simp

theorem scan_repeats_liquidation_witness:
  "\<exists>s'' txs txs'. runService exampleEth (\<lambda>_. False) (\<lambda>_. exampleEnv) [(2000, [2, 1], [1, 2]), (2005, [2, 1], [1, 2])] exampleService
     = Some (s'', txs @ txs') \<and> txs \<noteq> [] \<and> txs' \<noteq> []"
proof -
  obtain p where p: "fmlookup (positions exampleScanner) 2 = Some p"
    using example_entries(1) by (cases "fmlookup (positions exampleScanner) 2") simp_all
  with example_entries obtain d ds c cs where q: "debts p = d # ds" "collaterals p = c # cs"
    by (auto simp: neq_Nil_conv)
  have w: "\<forall>i::nat. signer_ok exampleEnv \<and> willing exampleEnv \<and> \<not> False" by (simp add: exampleEnv_willing)
  have p': "fmlookup (positions (svcScanner exampleService)) 2 = Some p" using p by (simp add: exampleService_def)
  have b: "\<forall>t\<in>{2000, 2005}. below_water exampleService t p" using example_below_water_later p by simp
  have o: "set [2, 1] = fmdom' (positions (svcScanner exampleService))" "set [1, 2] = set [2, 1 :: address]"
    using exampleService_ready by (auto simp: scan_ready_def)
  from scan_repeats_liquidation [OF exampleEth_ok w exampleService_ok p' q b o] show ?thesis
    by (elim exE conjE bexE) (intro exI conjI, assumption, auto)
qed

text \<open>The liquidator that \<open>cmd/liquidator\<close> starts never sends anything: nothing gives its scanner a position,
  so every scan finds no candidate, whatever the node says and however long it runs.\<close>

theorem liquidator_idle:
  assumes "liquidatorStart chainIDs = Some s" and "\<forall>(now, order, order')\<in>set ticks. set order = fmdom' (positions (svcScanner s)) \<and> set order' = set order"
  shows "runService eth cancelled env ticks s = Some (s, [])"
proof -
  have "positions (svcScanner s) = fmempty" using assms(1) by (auto simp: liquidatorStart_def newLiqService_def newScanner_def)
  with assms(2) show ?thesis by (induction ticks) (auto simp: scan_def)
qed

theorem liquidator_idle_witness:
  "\<exists>s. liquidatorStart [1] = Some s \<and> runService exampleEth (\<lambda>_. False) (\<lambda>_. stubChainEnv (\<lambda>_. 0) 0) [(5, [], []), (10, [], [])] s = Some (s, [])"
proof -
  obtain s where s: "liquidatorStart [1] = Some s" and e: "positions (svcScanner s) = fmempty"
    by (simp add: liquidatorStart_def newLiqService_def liquidatorConfig_def newScanner_def)
  from liquidator_idle [OF s, of "[(5, [], []), (10, [], [])]"] e s show ?thesis by simp
qed

end
