(* ===== verification/Risk.thy ===== *)
theory Risk
  imports GoText
begin

text \<open>
  \<open>internal/risk\<close>: the rules, and the engine that evaluates them against what the protocol does.

  The rule store, the event store and the alert sink are interfaces; \<open>riskEnv\<close> holds what the engine
  calls of them, over a state \<open>'w\<close> of the world, which also has the clock. The engine's own state is its
  list of rules. What it logs is left out.
\<close>

section \<open>Data\<close>

type_synonym severity = string
type_synonym ruleType = string

definition RuleLargeTransaction :: ruleType where "RuleLargeTransaction = ''large_transaction''"
definition RuleHighUtilization :: ruleType where "RuleHighUtilization = ''high_utilization''"
definition RuleFlashLoan :: ruleType where "RuleFlashLoan = ''flash_loan''"

text \<open>The engine has no check for the rules of the other two types.\<close>

definition RulePriceDeviation :: ruleType where [simp]: "RulePriceDeviation = ''price_deviation''"
definition RuleProtocolHealth :: ruleType where [simp]: "RuleProtocolHealth = ''protocol_health''"

definition SeverityInfo :: severity where [simp]: "SeverityInfo = ''info''"
definition SeverityWarning :: severity where [simp]: "SeverityWarning = ''warning''"
definition SeverityCritical :: severity where [simp]: "SeverityCritical = ''critical''"

record rule =
  r_id :: i64
  r_type :: ruleType
  r_name :: string
  r_description :: string
  r_enabled :: bool
  r_severity :: severity
  r_params :: "(string, string) fmap"

record riskEvent =
  re_id :: i64
  re_ruleID :: i64
  re_ruleType :: ruleType
  re_severity :: severity
  re_chainID :: i64
  re_marketID :: i64
  re_description :: string
  re_relatedTx :: string
  re_data :: "(string, string) fmap"
  re_createdAt :: int

record 'w riskEnv =
  listEnabledRules :: "'w \<Rightarrow> err + rule list"
  saveRiskEvent :: "riskEvent \<Rightarrow> 'w \<Rightarrow> err option \<times> 'w"
  alertSink :: "(riskEvent \<Rightarrow> 'w \<Rightarrow> 'w) option"
  riskNow :: "'w \<Rightarrow> int"

section \<open>The engine\<close>

text \<open>\<open>NewEngine\<close>: no rules until they are loaded; \<open>Rules\<close> copies them, in their order.\<close>

definition newEngine :: "rule list" where
  "newEngine = []"

definition engineRules :: "rule list \<Rightarrow> rule list" where
  "engineRules rules = map (\<lambda>i. rules ! i) [0..<length rules]"

lemma engineRules_copy: "engineRules rules = rules"
  by (simp add: engineRules_def map_nth)

definition reloadRules :: "'w riskEnv \<Rightarrow> 'w \<Rightarrow> rule list \<Rightarrow> err option \<times> rule list" where
  "reloadRules env w rules =
     (case listEnabledRules env w of Inl e \<Rightarrow> (Some (''load rules: '' @ e), rules) | Inr rules' \<Rightarrow> (None, rules'))"

text \<open>An event that cannot be saved still goes to the sink.\<close>

definition emitEvent :: "'w riskEnv \<Rightarrow> riskEvent \<Rightarrow> 'w \<Rightarrow> 'w" where
  "emitEvent env ev w =
     (let w1 = snd (saveRiskEvent env ev w) in case alertSink env of None \<Rightarrow> w1 | Some handleAlert \<Rightarrow> handleAlert ev w1)"

text \<open>A rule's threshold; a missing or unreadable one makes the engine skip the rule.\<close>

definition floatParam :: "string \<Rightarrow> rule \<Rightarrow> float64 option" where
  "floatParam key rule =
     (case fmlookup (r_params rule) key of
        None \<Rightarrow> None
      | Some s \<Rightarrow> (case parseFloat s of Inl _ \<Rightarrow> None | Inr x \<Rightarrow> Some x))"

definition intParam :: "string \<Rightarrow> rule \<Rightarrow> int option" where
  "intParam key rule =
     (case fmlookup (r_params rule) key of
        None \<Rightarrow> None
      | Some s \<Rightarrow> (case parseInt s of (v, None) \<Rightarrow> Some v | (_, Some _) \<Rightarrow> None))"

subsection \<open>CheckLargeTransaction\<close>

definition largePct :: "int \<Rightarrow> int \<Rightarrow> float64" where
  "largePct amount poolTVL = f64_mul (f64_of_rat (bigfloat_quo_ints amount poolTVL)) (Finite 100)"

definition largeFires :: "int \<Rightarrow> int \<Rightarrow> rule \<Rightarrow> bool" where
  "largeFires amount poolTVL rule \<longleftrightarrow>
     r_type rule = RuleLargeTransaction \<and> r_enabled rule
     \<and> (case floatParam ''threshold_pct'' rule of
          None \<Rightarrow> False
        | Some thresholdPct \<Rightarrow> poolTVL \<noteq> 0 \<and> f64_le thresholdPct (largePct amount poolTVL))"

definition largeEvent :: "i64 \<Rightarrow> i64 \<Rightarrow> string \<Rightarrow> int \<Rightarrow> int \<Rightarrow> rule \<Rightarrow> int \<Rightarrow> riskEvent" where
  "largeEvent chainID marketID txHash amount poolTVL rule now =
     (let pct = fmt_f2 (largePct amount poolTVL) in
      \<lparr>re_id = 0, re_ruleID = r_id rule, re_ruleType = RuleLargeTransaction, re_severity = r_severity rule,
       re_chainID = chainID, re_marketID = marketID,
       re_description = ''Large transaction detected: '' @ pct @ ''% of pool TVL'', re_relatedTx = txHash,
       re_data = fmap_of_list [(''amount'', show_int amount), (''tvl'', show_int poolTVL), (''pct'', pct)],
       re_createdAt = now\<rparr>)"

fun checkLargeTransaction :: "'w riskEnv \<Rightarrow> rule list \<Rightarrow> i64 \<Rightarrow> i64 \<Rightarrow> string \<Rightarrow> int \<Rightarrow> int \<Rightarrow> 'w \<Rightarrow> 'w" where
  "checkLargeTransaction env [] chainID marketID txHash amount poolTVL w = w"
| "checkLargeTransaction env (rule # rules) chainID marketID txHash amount poolTVL w =
     checkLargeTransaction env rules chainID marketID txHash amount poolTVL
       (if largeFires amount poolTVL rule
        then emitEvent env (largeEvent chainID marketID txHash amount poolTVL rule (riskNow env w)) w else w)"

subsection \<open>CheckUtilization\<close>

definition utilizationFires :: "float64 \<Rightarrow> rule \<Rightarrow> bool" where
  "utilizationFires utilizationPct rule \<longleftrightarrow>
     r_type rule = RuleHighUtilization \<and> r_enabled rule
     \<and> (case floatParam ''threshold_pct'' rule of None \<Rightarrow> False | Some threshold \<Rightarrow> f64_le threshold utilizationPct)"

definition utilizationEvent :: "i64 \<Rightarrow> i64 \<Rightarrow> float64 \<Rightarrow> rule \<Rightarrow> int \<Rightarrow> riskEvent" where
  "utilizationEvent chainID marketID utilizationPct rule now =
     (let threshold = (case floatParam ''threshold_pct'' rule of None \<Rightarrow> Finite 0 | Some t \<Rightarrow> t) in
      \<lparr>re_id = 0, re_ruleID = r_id rule, re_ruleType = RuleHighUtilization, re_severity = r_severity rule,
       re_chainID = chainID, re_marketID = marketID,
       re_description = ''High utilization: '' @ fmt_f2 utilizationPct @ ''% (threshold: '' @ fmt_f2 threshold @ ''%)'',
       re_relatedTx = '''', re_data = fmap_of_list [(''utilization'', fmt_f2 utilizationPct)], re_createdAt = now\<rparr>)"

fun checkUtilization :: "'w riskEnv \<Rightarrow> rule list \<Rightarrow> i64 \<Rightarrow> i64 \<Rightarrow> float64 \<Rightarrow> 'w \<Rightarrow> 'w" where
  "checkUtilization env [] chainID marketID utilizationPct w = w"
| "checkUtilization env (rule # rules) chainID marketID utilizationPct w =
     checkUtilization env rules chainID marketID utilizationPct
       (if utilizationFires utilizationPct rule
        then emitEvent env (utilizationEvent chainID marketID utilizationPct rule (riskNow env w)) w else w)"

subsection \<open>CheckFlashLoan\<close>

text \<open>The counts are a map; for each rule Go iterates over it in an order of its own.\<close>

definition flashEvent :: "i64 \<Rightarrow> u64 \<Rightarrow> rule \<Rightarrow> string \<Rightarrow> int \<Rightarrow> int \<Rightarrow> riskEvent" where
  "flashEvent chainID blockNumber rule user count now =
     \<lparr>re_id = 0, re_ruleID = r_id rule, re_ruleType = RuleFlashLoan, re_severity = r_severity rule,
      re_chainID = chainID, re_marketID = 0,
      re_description = ''Possible flash loan: user '' @ user @ '' had '' @ show_int count @ '' operations in block ''
        @ show_nat (unat blockNumber),
      re_relatedTx = '''',
      re_data = fmap_of_list [(''user'', user), (''block'', show_nat (unat blockNumber)), (''ops'', show_int count)],
      re_createdAt = now\<rparr>"

fun flashUsers :: "'w riskEnv \<Rightarrow> i64 \<Rightarrow> u64 \<Rightarrow> rule \<Rightarrow> int \<Rightarrow> (string \<times> int) list \<Rightarrow> 'w \<Rightarrow> 'w" where
  "flashUsers env chainID blockNumber rule minOps [] w = w"
| "flashUsers env chainID blockNumber rule minOps ((user, count) # counts) w =
     flashUsers env chainID blockNumber rule minOps counts
       (if minOps \<le> count then emitEvent env (flashEvent chainID blockNumber rule user count (riskNow env w)) w else w)"

fun checkFlashLoan :: "'w riskEnv \<Rightarrow> rule list \<Rightarrow> i64 \<Rightarrow> u64 \<Rightarrow> (rule \<Rightarrow> (string \<times> int) list) \<Rightarrow> 'w \<Rightarrow> 'w" where
  "checkFlashLoan env [] chainID blockNumber userTxCounts w = w"
| "checkFlashLoan env (rule # rules) chainID blockNumber userTxCounts w =
     checkFlashLoan env rules chainID blockNumber userTxCounts
       (if r_type rule = RuleFlashLoan \<and> r_enabled rule
        then (case intParam ''min_ops_per_block'' rule of
                None \<Rightarrow> w
              | Some minOps \<Rightarrow> flashUsers env chainID blockNumber rule minOps (userTxCounts rule) w)
        else w)"

section \<open>What the engine leaves to its sink\<close>

text \<open>An invariant of the world that the event store and the sink keep is kept by every check.\<close>

locale risk_sink =
  fixes env :: "'w riskEnv" and inv :: "'w \<Rightarrow> bool"
  assumes save_keeps: "inv w \<Longrightarrow> inv (snd (saveRiskEvent env ev w))"
    and sink_keeps: "alertSink env = Some h \<Longrightarrow> inv w \<Longrightarrow> inv (h ev w)"
begin

lemma emit_keeps: "inv w \<Longrightarrow> inv (emitEvent env ev w)"
  by (simp add: emitEvent_def Let_def save_keeps sink_keeps split: option.split)

lemma large_keeps: "inv w \<Longrightarrow> inv (checkLargeTransaction env rules c m tx amount tvl w)"
  by (induction rules arbitrary: w) (simp_all add: emit_keeps)

lemma utilization_keeps: "inv w \<Longrightarrow> inv (checkUtilization env rules c m pct w)"
  by (induction rules arbitrary: w) (simp_all add: emit_keeps)

lemma flashUsers_keeps: "inv w \<Longrightarrow> inv (flashUsers env c b rule k counts w)"
  by (induction counts arbitrary: w) (auto simp: emit_keeps)

lemma flash_keeps: "inv w \<Longrightarrow> inv (checkFlashLoan env rules c b counts w)"
  by (induction rules arbitrary: w) (simp_all add: flashUsers_keeps split: option.split)

end

section \<open>Which events are emitted\<close>

text \<open>Emitting one event after the other, each stamped with the time it is made.\<close>

definition emitAll :: "'w riskEnv \<Rightarrow> (int \<Rightarrow> riskEvent) list \<Rightarrow> 'w \<Rightarrow> 'w" where
  "emitAll env evs w = foldl (\<lambda>w ev. emitEvent env (ev (riskNow env w)) w) w evs"

lemma emitAll_simps [simp]:
  "emitAll env [] w = w" "emitAll env (ev # evs) w = emitAll env evs (emitEvent env (ev (riskNow env w)) w)"
  "emitAll env (evs @ evs') w = emitAll env evs' (emitAll env evs w)"
  by (simp_all add: emitAll_def)

lemma large_emits:
  "checkLargeTransaction env rules c m tx amount tvl w =
     emitAll env (map (largeEvent c m tx amount tvl) (filter (largeFires amount tvl) rules)) w"
  by (induction rules arbitrary: w) simp_all

lemma utilization_emits:
  "checkUtilization env rules c m pct w =
     emitAll env (map (utilizationEvent c m pct) (filter (utilizationFires pct) rules)) w"
  by (induction rules arbitrary: w) simp_all

lemma flashUsers_emits:
  "flashUsers env c b rule k counts w =
     emitAll env (map (\<lambda>(user, n). flashEvent c b rule user n) (filter (\<lambda>(user, n). k \<le> n) counts)) w"
  by (induction counts arbitrary: w) auto

section \<open>A transaction of a twentieth of the pool\<close>

text \<open>The greatest number of 64 bits below 1/20: every precision the engine can use keeps it, and as a
  \<open>float64\<close> it is the nearest to 1/20, whose hundredfold is 5.\<close>

definition twentieth :: rat where
  "twentieth = of_int 14757395258967641292 * pow2 (- 68)"

lemma pow2_neg: "pow2 (- numeral k) = 1 / 2 ^ numeral k"
  by (simp add: pow2_def)

lemma twentieth_bounds: "0 < twentieth" "twentieth \<le> 1 / 20" "pow2 (- 1022) \<le> twentieth"
proof -
  show "0 < twentieth" "twentieth \<le> 1 / 20" by (simp_all add: twentieth_def pow2_neg)
  have "pow2 (- 1022) \<le> pow2 (- 68)" by (rule pow2_mono) simp
  also have "\<dots> \<le> twentieth" by (simp add: twentieth_def)
  finally show "pow2 (- 1022) \<le> twentieth" .
qed

lemma f64_twentieth: "f64_of_rat twentieth = Finite (of_int 7205759403792794 * pow2 (- 57))"
  by (rule f64_of_rat_at [of "- 5", simplified]) (simp_all add: twentieth_def pow2_neg)

lemma f64_five: "f64_of_rat (of_int 7205759403792794 * pow2 (- 57) * 100) = Finite 5"
proof -
  have "f64_of_rat (of_int 7205759403792794 * pow2 (- 57) * 100) = Finite (of_int 5629499534213120 * pow2 (2 - 52))"
    by (rule f64_of_rat_at) (simp_all add: pow2_neg pow2_def)
  then show ?thesis by (simp add: pow2_neg)
qed

lemma largePct_twentieth:
  assumes "0 < tvl" and "tvl \<le> 20 * amount"
  shows "f64_le (Finite 5) (largePct amount tvl)"
proof -
  define c where "c = of_int 7205759403792794 * pow2 (- 57)"
  define P where "P = max (int_prec amount) (int_prec tvl)"
  have P: "64 \<le> P" by (simp add: P_def int_prec_def)
  have "(of_int tvl :: rat) \<le> of_int (20 * amount)" using assms(2) by (simp only: of_int_le_iff)
  then have "1 / 20 \<le> (of_int amount / of_int tvl :: rat)" using assms(1) by (simp add: le_divide_eq)
  then have x: "twentieth \<le> of_int amount / of_int tvl" using twentieth_bounds(2) by linarith
  have "(14757395258967641292 :: int) < 2 ^ 64" by simp
  also have "\<dots> \<le> 2 ^ P" using P by (rule power_increasing) simp
  finally have "bigfloat_round P twentieth = twentieth"
    unfolding twentieth_def by (intro bigfloat_round_exact) simp_all
  then have r: "twentieth \<le> bigfloat_round P (of_int amount / of_int tvl)"
    using bigfloat_round_mono [OF twentieth_bounds(1) x, of P] P by simp
  define y where "y = f64_of_rat (bigfloat_round P (of_int amount / of_int tvl))"
  have y: "f64_le (Finite c) y" using f64_of_rat_mono [OF twentieth_bounds(3) r] by (simp add: y_def f64_twentieth c_def)
  have "largePct amount tvl = f64_mul y (Finite 100)"
    by (simp add: largePct_def bigfloat_quo_ints_def y_def P_def)
  moreover have "f64_le (Finite 5) (f64_mul y (Finite 100))"
  proof (cases y)
    case (Finite b)
    have "pow2 (- 1022) \<le> pow2 (- 57)" by (rule pow2_mono) simp
    also have "\<dots> \<le> c * 100" by (simp add: c_def)
    finally have "f64_le (f64_of_rat (c * 100)) (f64_of_rat (b * 100))"
      using y Finite by (intro f64_of_rat_mono) simp_all
    then show ?thesis using f64_five by (simp add: Finite c_def)
  qed (use y in simp_all)
  ultimately show ?thesis by simp
qed

lemma flash_emits:
  "checkFlashLoan env rules c b counts w =
     emitAll env (concat (map (\<lambda>rule. case intParam ''min_ops_per_block'' rule of None \<Rightarrow> []
         | Some k \<Rightarrow> map (\<lambda>(user, n). flashEvent c b rule user n) (filter (\<lambda>(user, n). k \<le> n) (counts rule)))
       (filter (\<lambda>rule. r_type rule = RuleFlashLoan \<and> r_enabled rule) rules))) w"
  by (induction rules arbitrary: w) (simp_all add: flashUsers_emits split: option.split)

section \<open>Properties\<close>


end
