(* ===== verification/Worker.thy ===== *)
theory Worker
  imports Risk Notification
begin

text \<open>
  \<open>cmd/worker/main.go\<close>: the process that runs the risk engine and the notification service, the bridge
  between them, and the stores it is wired to.

  The world of the worker is the notification store's counter and an environment \<open>'e\<close> the code does not
  change; the readings of the clock are any function of it. \<open>main\<close> starts the engine and waits: nothing
  in the repository calls the engine's checks, so the steps below are the calls it is made for.
\<close>

section \<open>The bridge\<close>

definition alertNotification :: "riskEvent \<Rightarrow> notification" where
  "alertNotification ev =
     \<lparr>n_id = 0, n_userAddress = '''', n_type = TypeRiskAlert, n_channel = ChannelWebhook,
      n_title = ''Risk Alert: '' @ re_ruleType ev, n_content = re_description ev, n_data = re_data ev,
      n_status = StatusUnset, n_createdAt = 0, n_sentAt = None\<rparr>"

definition handleAlert :: "'w notifEnv \<Rightarrow> riskEvent \<Rightarrow> sentTimes \<times> 'w \<Rightarrow> sentTimes \<times> 'w" where
  "handleAlert env ev s = (let (r, n, sent', w') = notify env (alertNotification ev) (fst s) (snd s) in (sent', w'))"

section \<open>The stores and the wiring\<close>

definition stubSave :: "notification \<Rightarrow> i64 \<times> 'e \<Rightarrow> err option \<times> notification \<times> (i64 \<times> 'e)" where
  "stubSave n w = (let nextID = fst w + 1 in (None, n\<lparr>n_id := nextID\<rparr>, (nextID, snd w)))"

definition stubUpdateStatus :: "i64 \<Rightarrow> notifStatus \<Rightarrow> 'w \<Rightarrow> err option \<times> 'w" where
  "stubUpdateStatus i status w = (None, w)"

definition stubSend :: "notification \<Rightarrow> 'w \<Rightarrow> err option \<times> 'w" where
  "stubSend n w = (None, w)"

definition stubChannel :: channel where
  [simp]: "stubChannel = ChannelWebhook"

definition workerCooldown :: int where
  "workerCooldown = 5 * 60 * 10 ^ 9"

definition workerNotifEnv :: "(i64 \<times> 'e \<Rightarrow> nat \<Rightarrow> int) \<Rightarrow> (i64 \<times> 'e) notifEnv" where
  "workerNotifEnv clock = \<lparr>saveNotification = stubSave, updateStatus = stubUpdateStatus,
     senders = indexSenders [(stubChannel, stubSend)], cooldown = workerCooldown, clockAt = clock\<rparr>"

definition stubRules :: "rule list" where
  "stubRules =
     [\<lparr>r_id = 1, r_type = RuleLargeTransaction, r_name = ''Large Tx'', r_description = '''', r_enabled = True,
       r_severity = ''warning'', r_params = fmap_of_list [(''threshold_pct'', ''5'')]\<rparr>,
      \<lparr>r_id = 2, r_type = RuleHighUtilization, r_name = ''High Util'', r_description = '''', r_enabled = True,
       r_severity = ''critical'', r_params = fmap_of_list [(''threshold_pct'', ''95'')]\<rparr>,
      \<lparr>r_id = 3, r_type = RuleFlashLoan, r_name = ''Flash Loan'', r_description = '''', r_enabled = True,
       r_severity = ''critical'', r_params = fmap_of_list [(''min_ops_per_block'', ''3'')]\<rparr>]"

definition stubSaveEvent :: "riskEvent \<Rightarrow> 'w \<Rightarrow> err option \<times> 'w" where
  "stubSaveEvent ev w = (None, w)"

definition workerRiskEnv :: "(i64 \<times> 'e \<Rightarrow> nat \<Rightarrow> int) \<Rightarrow> (sentTimes \<times> i64 \<times> 'e) riskEnv" where
  "workerRiskEnv clock = \<lparr>listEnabledRules = (\<lambda>w. Inr stubRules), saveRiskEvent = stubSaveEvent,
     alertSink = Some (handleAlert (workerNotifEnv clock)), riskNow = (\<lambda>s. clock (snd s) 0)\<rparr>"

text \<open>What \<open>main\<close> does with the rules: it loads them at the start, and again at each tick (with the world of that
  moment) until the context is done (\<open>None\<close>). A failed reload is only logged.\<close>

fun reloadLoop :: "'w riskEnv \<Rightarrow> 'w option list \<Rightarrow> rule list \<Rightarrow> rule list" where
  "reloadLoop env [] rules = rules"
| "reloadLoop env (None # ws) rules = rules"
| "reloadLoop env (Some w # ws) rules = reloadLoop env ws (snd (reloadRules env w rules))"

definition workerMain :: "'w riskEnv \<Rightarrow> 'w \<Rightarrow> 'w option list \<Rightarrow> rule list" where
  "workerMain env w ws = reloadLoop env ws (snd (reloadRules env w []))"

text \<open>The rules in force are those of the last read that succeeded.\<close>

lemma reloadLoop_last:
  "reloadLoop env (map Some ws) rules = last (rules # List.map_filter (\<lambda>w. case listEnabledRules env w of Inl _ \<Rightarrow> None | Inr rs \<Rightarrow> Some rs) ws)"
  by (induction ws arbitrary: rules) (auto simp: map_filter_simps reloadRules_def split: sum.split)

section \<open>The interfaces hold\<close>

interpretation worker: notification_store "workerNotifEnv clock" for clock :: "i64 \<times> 'e \<Rightarrow> nat \<Rightarrow> int"
  by unfold_locales (auto simp: workerNotifEnv_def stubSave_def Let_def)

text \<open>All alerts have one key, so the service knows at most that one.\<close>

definition alertKey :: string where
  "alertKey = ''risk_alert:''"

definition only_alerts :: "sentTimes \<times> 'w \<Rightarrow> bool" where
  "only_alerts s \<longleftrightarrow> fmdom (fst s) |\<subseteq>| {|alertKey|}"

lemma alert_key: "throttleKey (alertNotification ev) = alertKey"
  by (simp add: throttleKey_def alertNotification_def alertKey_def)

interpretation bridge: risk_sink "workerRiskEnv clock" only_alerts for clock :: "i64 \<times> 'e \<Rightarrow> nat \<Rightarrow> int"
proof
  fix s :: "sentTimes \<times> i64 \<times> 'e" and ev h
  assume s: "only_alerts s"
  then show "only_alerts (snd (saveRiskEvent (workerRiskEnv clock) ev s))"
    by (simp add: workerRiskEnv_def stubSaveEvent_def)
  assume "alertSink (workerRiskEnv clock) = Some h"
  then have h: "h = handleAlert (workerNotifEnv clock)" by (simp add: workerRiskEnv_def)
  obtain r n sent' w' where e: "notify (workerNotifEnv clock) (alertNotification ev) (fst s) (snd s) = (r, n, sent', w')"
    by (metis prod_cases4)
  show "only_alerts (h ev s)"
    using worker.notify_cases(1) [OF e] s
    by (auto simp: h handleAlert_def e only_alerts_def alert_key fsubset_finsert split: if_splits)
qed

section \<open>One alert\<close>

text \<open>The stub store and the stub webhook never fail, so an alert that is not throttled is sent.\<close>

lemma handleAlert_worker:
  "handleAlert (workerNotifEnv clock) ev (sent, w) =
     (if isThrottled workerCooldown sent (clock w 0) (alertNotification ev) then (sent, w)
      else (fmupd alertKey (clock w 3) sent, (fst w + 1, snd w)))"
  by (simp add: handleAlert_def notify_def dispatch_def workerNotifEnv_def stubSave_def stubSend_def stubUpdateStatus_def
      indexSenders_def recordSent_def alertNotification_def throttleKey_def alertKey_def Let_def)

lemma emit_worker:
  "emitEvent (workerRiskEnv clock) ev s = handleAlert (workerNotifEnv clock) ev s"
  by (simp add: emitEvent_def workerRiskEnv_def stubSaveEvent_def)

lemma worker_throttled:
  "isThrottled workerCooldown sent now (alertNotification ev) \<longleftrightarrow>
     (\<exists>t. fmlookup sent alertKey = Some t \<and> now < t + workerCooldown)"
  by (auto simp: isThrottled_def alert_key split: option.split)

lemma emitAll_worker_silent:
  assumes "fmlookup sent alertKey = Some t" and "clock w 0 < t + workerCooldown"
  shows "emitAll (workerRiskEnv clock) evs (sent, w) = (sent, w)"
  using assms by (induction evs) (simp_all add: emit_worker handleAlert_worker worker_throttled)

lemma emitAll_worker:
  assumes "\<forall>t. fmlookup sent alertKey = Some t \<longrightarrow> t + workerCooldown \<le> clock w 0"
    and "clock (fst w + 1, snd w) 0 < clock w 3 + workerCooldown" and "evs \<noteq> []"
  shows "emitAll (workerRiskEnv clock) evs (sent, w) = (fmupd alertKey (clock w 3) sent, (fst w + 1, snd w))"
proof -
  obtain ev evs' where evs: "evs = ev # evs'" using assms(3) by (cases evs) auto
  have "\<not> isThrottled workerCooldown sent (clock w 0) (alertNotification (ev (riskNow (workerRiskEnv clock) (sent, w))))"
    using assms(1) by (fastforce simp: worker_throttled)
  then have "emitAll (workerRiskEnv clock) evs (sent, w) =
      emitAll (workerRiskEnv clock) evs' (fmupd alertKey (clock w 3) sent, (fst w + 1, snd w))"
    by (simp add: evs emit_worker handleAlert_worker)
  then show ?thesis using emitAll_worker_silent [of _ "clock w 3" clock "(fst w + 1, snd w)" evs'] assms(2) by simp
qed

section \<open>The worker's rules\<close>

lemma parse_thresholds: "parseFloat ''5'' = Inr (Finite 5)" "parseFloat ''95'' = Inr (Finite 95)"
proof -
  have r: "readFloat ''5'' = Some 5" "readFloat ''95'' = Some 95" by code_simp+
  have n: "toLower (drop_sign ''5'') \<noteq> ''inf''" "toLower (drop_sign ''5'') \<noteq> ''infinity''" "toLower ''5'' \<noteq> ''nan''"
      "toLower (drop_sign ''95'') \<noteq> ''inf''" "toLower (drop_sign ''95'') \<noteq> ''infinity''" "toLower ''95'' \<noteq> ''nan''"
    by code_simp+
  have "bitlen 5 = (3 :: int)" "bitlen 95 = (7 :: int)" by code_simp+
  then have "f64_of_rat 5 = Finite 5" "f64_of_rat 95 = Finite 95" using f64_of_int [of 5] f64_of_int [of 95] by simp_all
  with r n show "parseFloat ''5'' = Inr (Finite 5)" "parseFloat ''95'' = Inr (Finite 95)"
    by (simp_all add: parseFloat_def Let_def)
qed

lemma rule_types [simp]:
  "RuleLargeTransaction \<noteq> RuleHighUtilization" "RuleLargeTransaction \<noteq> RuleFlashLoan" "RuleHighUtilization \<noteq> RuleFlashLoan"
  "RuleHighUtilization \<noteq> RuleLargeTransaction" "RuleFlashLoan \<noteq> RuleLargeTransaction" "RuleFlashLoan \<noteq> RuleHighUtilization"
  by (simp_all add: RuleLargeTransaction_def RuleHighUtilization_def RuleFlashLoan_def)

lemma stubRules_large:
  "filter (largeFires amount tvl) stubRules =
     (if tvl \<noteq> 0 \<and> f64_le (Finite 5) (largePct amount tvl) then [stubRules ! 0] else [])"
  by (simp add: stubRules_def largeFires_def floatParam_def parse_thresholds)

lemma parse_min_ops: "parseInt ''3'' = (3, None)"
  by code_simp

lemma stubRules_flash:
  "checkFlashLoan env stubRules c b counts s =
     emitAll env (map (\<lambda>(user, n). flashEvent c b (stubRules ! 2) user n) (filter (\<lambda>(user, n). 3 \<le> n) (counts (stubRules ! 2)))) s"
  by (simp add: flash_emits) (simp add: stubRules_def intParam_def parse_min_ops)

section \<open>Properties\<close>

text \<open>C21: With the rules the worker loads, a transaction of five percent or more of a pool always raises the
  alarm, rounding included: unless a risk alert was sent within the last five minutes, exactly one
  notification is stored and sent to the webhook, and its time is recorded.\<close>

theorem worker_alerts_large:
  assumes "0 < tvl" and "tvl \<le> 20 * amount"
    and "\<forall>t. fmlookup sent alertKey = Some t \<longrightarrow> t + workerCooldown \<le> clock w 0"
    and "clock (fst w + 1, snd w) 0 < clock w 3 + workerCooldown"
  shows "checkLargeTransaction (workerRiskEnv clock) stubRules c m tx amount tvl (sent, w)
    = (fmupd alertKey (clock w 3) sent, (fst w + 1, snd w))"
  using emitAll_worker [OF assms(3,4), of "[largeEvent c m tx amount tvl (stubRules ! 0)]"]
    largePct_twentieth [OF assms(1,2)] assms(1)
  by (simp add: large_emits stubRules_large del: emitAll_simps)

theorem worker_alerts_large_witness:
  "checkLargeTransaction (workerRiskEnv (\<lambda>w k. 7)) stubRules 1 2 ''0x1'' 50 1000 (fmempty, (0, ()))
     = (fmupd alertKey 7 fmempty, (1, ()))"
  using worker_alerts_large [of 1000 50 fmempty "\<lambda>w k. 7" "(0, ())" 1 2 "''0x1''"] by (simp add: workerCooldown_def)

text \<open>After any risk alert was sent, every other one of the next five minutes is dropped: all alerts
  share one throttle key, so whatever rule fires, of whatever severity, nothing is stored and nothing
  is sent.\<close>

theorem alerts_mask_each_other:
  assumes "fmlookup sent alertKey = Some t" and "clock w 0 < t + workerCooldown"
  shows "checkLargeTransaction (workerRiskEnv clock) rules c m tx amount tvl (sent, w) = (sent, w)
    \<and> checkUtilization (workerRiskEnv clock) rules c m pct (sent, w) = (sent, w)
    \<and> checkFlashLoan (workerRiskEnv clock) rules c b counts (sent, w) = (sent, w)"
  using emitAll_worker_silent [of sent t clock w] assms by (simp add: large_emits utilization_emits flash_emits)

theorem alerts_mask_each_other_witness:
  "checkUtilization (workerRiskEnv (\<lambda>w k. 60)) stubRules 1 2 (Finite 100) (fmupd alertKey 0 fmempty, (1, ()))
     = (fmupd alertKey 0 fmempty, (1, ()))"
  using alerts_mask_each_other [of "fmupd alertKey 0 fmempty" 0 "\<lambda>w k. 60" "(1, ())" stubRules 1 2 "[]" 0 0 "Finite 100"]
  by (simp add: workerCooldown_def)

text \<open>When a block has several users with three or more operations, one notification goes out, for the
  first of them in the map's order; without such a user nothing happens.\<close>

theorem worker_flash_once:
  assumes "\<forall>t. fmlookup sent alertKey = Some t \<longrightarrow> t + workerCooldown \<le> clock w 0"
    and "clock (fst w + 1, snd w) 0 < clock w 3 + workerCooldown"
  shows "checkFlashLoan (workerRiskEnv clock) stubRules c b counts (sent, w)
    = (if \<exists>(user, n)\<in>set (counts (stubRules ! 2)). 3 \<le> n then (fmupd alertKey (clock w 3) sent, (fst w + 1, snd w)) else (sent, w))"
proof -
  have "filter (\<lambda>(user, n). 3 \<le> n) (counts (stubRules ! 2)) = [] \<longleftrightarrow> \<not> (\<exists>(user, n)\<in>set (counts (stubRules ! 2)). 3 \<le> n)"
    by (auto simp: filter_empty_conv)
  then show ?thesis using emitAll_worker [OF assms] by (auto simp: stubRules_flash)
qed

theorem worker_flash_once_witness:
  "checkFlashLoan (workerRiskEnv (\<lambda>w k. 7)) stubRules 1 100 (\<lambda>rule. [(''a'', 4), (''b'', 1), (''c'', 9)]) (fmempty, (0, ()))
     = (fmupd alertKey 7 fmempty, (1, ()))"
  using worker_flash_once [of fmempty "\<lambda>w k. 7" "(0, ())" 1 100 "\<lambda>rule. [(''a'', 4), (''b'', 1), (''c'', 9)]"]
  by (simp add: workerCooldown_def)

text \<open>The life of the worker: reloading, the three checks, and anything the environment does in between.\<close>

inductive workerStep :: "(i64 \<times> 'e \<Rightarrow> nat \<Rightarrow> int) \<Rightarrow> rule list \<times> sentTimes \<times> i64 \<times> 'e \<Rightarrow> rule list \<times> sentTimes \<times> i64 \<times> 'e \<Rightarrow> bool"
  for clock where
  reload: "workerStep clock (rules, s) (snd (reloadRules (workerRiskEnv clock) s rules), s)"
| large: "workerStep clock (rules, s) (rules, checkLargeTransaction (workerRiskEnv clock) rules c m tx amount tvl s)"
| utilization: "workerStep clock (rules, s) (rules, checkUtilization (workerRiskEnv clock) rules c m pct s)"
| flash: "workerStep clock (rules, s) (rules, checkFlashLoan (workerRiskEnv clock) rules c b counts s)"
| outside: "workerStep clock (rules, sent, i, e) (rules, sent, i, e')"

inductive workerReach :: "(i64 \<times> 'e \<Rightarrow> nat \<Rightarrow> int) \<Rightarrow> rule list \<times> sentTimes \<times> i64 \<times> 'e \<Rightarrow> bool" for clock where
  start: "workerReach clock ([], fmempty, 0, e)"
| more: "workerReach clock s \<Longrightarrow> workerStep clock s s' \<Longrightarrow> workerReach clock s'"

lemma reload_worker: "snd (reloadRules (workerRiskEnv clock) s rules) = stubRules"
  by (simp add: reloadRules_def workerRiskEnv_def)

lemma workerMain_rules: "workerMain (workerRiskEnv clock) s ws = stubRules"
proof -
  have "reloadLoop (workerRiskEnv clock) ws stubRules = stubRules"
    by (induction "workerRiskEnv clock" ws stubRules rule: reloadLoop.induct) (simp_all add: reload_worker)
  then show ?thesis by (simp add: workerMain_def reload_worker)
qed

lemma workerStep_keeps:
  "workerStep clock s s' \<Longrightarrow> fst s \<in> {[], stubRules} \<Longrightarrow> only_alerts (snd s) \<Longrightarrow> fst s' \<in> {[], stubRules} \<and> only_alerts (snd s')"
  by (induction rule: workerStep.induct)
     (simp_all add: bridge.large_keeps bridge.utilization_keeps bridge.flash_keeps reload_worker, simp add: only_alerts_def)

lemma workerReach_keeps: "workerReach clock s \<Longrightarrow> fst s \<in> {[], stubRules} \<and> only_alerts (snd s)"
proof (induction rule: workerReach.induct)
  case (more s s')
  then show ?case using workerStep_keeps by blast
qed (simp add: only_alerts_def)

text \<open>At any time the engine has either no rule or exactly the worker's three, and the notification
  service remembers at most one time, that of the last risk alert.\<close>

theorem worker_invariant:
  assumes "workerReach clock (rules, sent, w)"
  shows "(rules = [] \<or> rules = stubRules) \<and> fmdom sent |\<subseteq>| {|alertKey|}"
  using workerReach_keeps [OF assms] by (simp add: only_alerts_def)

theorem worker_invariant_witness:
  "workerReach (\<lambda>w k. 0) (stubRules, fmempty, 0, ()) \<and> fmdom (fmempty :: sentTimes) |\<subseteq>| {|alertKey|}"
proof -
  have "workerReach (\<lambda>w k. 0) ([], fmempty, 0, ())" by (rule workerReach.start)
  from workerReach.more [OF this workerStep.reload] have r: "workerReach (\<lambda>w k. 0) (stubRules, fmempty, 0, ())"
    by (simp add: reloadRules_def workerRiskEnv_def)
  with worker_invariant [OF r] show ?thesis by blast
qed

end
