(* ===== verification/Market.thy ===== *)
theory Market
  imports Auth
begin

text \<open>
  \<open>internal/market\<close>: the market service that reads through a cache, the APY calculation, and the HTTP
  handlers; and the stubs \<open>cmd/api\<close> runs it with.

  The cache, the database and the JSON codec are the interface \<open>marketEnv\<close>, over a state \<open>'w\<close> of the
  world. Every call of them may take time, so each returns the world it leaves.
\<close>

section \<open>Data\<close>

record marketInfo =
  mi_id :: i64
  mi_chainID :: i64
  mi_assetAddress :: string
  mi_assetSymbol :: string
  mi_assetDecimals :: i64
  mi_poolAddress :: string
  mi_collateralFactor :: string
  mi_liquidationThreshold :: string
  mi_borrowCap :: string
  mi_supplyCap :: string
  mi_status :: string

record marketStateInfo = marketInfo +
  ms_totalSupply :: string
  ms_totalBorrow :: string
  ms_supplyRate :: string
  ms_borrowRate :: string
  ms_utilizationRate :: string
  ms_liquidityIndex :: string
  ms_borrowIndex :: string
  ms_tvlUSD :: string

record marketSnapshot =
  sn_marketID :: i64
  sn_totalSupply :: string
  sn_totalBorrow :: string
  sn_supplyRate :: string
  sn_borrowRate :: string
  sn_utilizationRate :: string
  sn_tvlUSD :: string
  sn_snapshotTime :: int

record 'w marketEnv =
  marketCacheGet :: "string \<Rightarrow> 'w \<Rightarrow> (err + string) \<times> 'w"
  marketCacheSet :: "string \<Rightarrow> string \<Rightarrow> int \<Rightarrow> 'w \<Rightarrow> err option \<times> 'w"
  listMarketsDB :: "i64 \<Rightarrow> 'w \<Rightarrow> (err + marketInfo list) \<times> 'w"
  getMarketStateDB :: "i64 \<Rightarrow> 'w \<Rightarrow> (err + marketStateInfo) \<times> 'w"
  getSnapshotsDB :: "i64 \<Rightarrow> string \<Rightarrow> string \<Rightarrow> 'w \<Rightarrow> (err + marketSnapshot list) \<times> 'w"
  marshalMarkets :: "marketInfo list \<Rightarrow> err + string"
  unmarshalMarkets :: "string \<Rightarrow> err + marketInfo list"
  marshalState :: "marketStateInfo \<Rightarrow> err + string"
  unmarshalState :: "string \<Rightarrow> err + marketStateInfo"

section \<open>The repository\<close>

text \<open>It passes each question on to the database.\<close>

definition repoListMarkets :: "'w marketEnv \<Rightarrow> i64 \<Rightarrow> 'w \<Rightarrow> (err + marketInfo list) \<times> 'w" where
  [simp]: "repoListMarkets env chainID = listMarketsDB env chainID"

definition repoMarketDetail :: "'w marketEnv \<Rightarrow> i64 \<Rightarrow> 'w \<Rightarrow> (err + marketStateInfo) \<times> 'w" where
  [simp]: "repoMarketDetail env marketID = getMarketStateDB env marketID"

definition repoHistory :: "'w marketEnv \<Rightarrow> i64 \<Rightarrow> string \<Rightarrow> string \<Rightarrow> 'w \<Rightarrow> (err + marketSnapshot list) \<times> 'w" where
  [simp]: "repoHistory env marketID period interval = getSnapshotsDB env marketID period interval"

section \<open>The service\<close>

text \<open>What both cached operations do: a cached value that can be decoded is served; otherwise the
  database is asked and its answer cached, as far as it can be encoded.\<close>

definition cachedValue :: "(string \<Rightarrow> err + 'a) \<Rightarrow> err + string \<Rightarrow> 'a option" where
  "cachedValue unmarshal got =
     (case got of Inl e \<Rightarrow> None | Inr val \<Rightarrow> (case unmarshal val of Inl e \<Rightarrow> None | Inr x \<Rightarrow> Some x))"

definition readThrough :: "'w marketEnv \<Rightarrow> (string \<Rightarrow> err + 'a) \<Rightarrow> ('a \<Rightarrow> err + string) \<Rightarrow> string \<Rightarrow> int
    \<Rightarrow> ('w \<Rightarrow> (err + 'a) \<times> 'w) \<Rightarrow> 'w \<Rightarrow> (err + 'a) \<times> 'w" where
  "readThrough env unmarshal marshal cacheKey ttl fetch w =
     (let (got, w1) = marketCacheGet env cacheKey w in
      case cachedValue unmarshal got of
        Some x \<Rightarrow> (Inr x, w1)
      | None \<Rightarrow>
          (case fetch w1 of
             (Inl e, w2) \<Rightarrow> (Inl e, w2)
           | (Inr x, w2) \<Rightarrow>
               (case marshal x of
                  Inl e \<Rightarrow> (Inr x, w2)
                | Inr data \<Rightarrow> (Inr x, snd (marketCacheSet env cacheKey data ttl w2)))))"

definition listKey :: "i64 \<Rightarrow> string" where
  "listKey chainID = ''markets:list:'' @ show_int (sint chainID)"

definition detailKey :: "i64 \<Rightarrow> string" where
  "detailKey marketID = ''markets:detail:'' @ show_int (sint marketID)"

definition listTTL :: int where
  "listTTL = 30 * 10 ^ 9"

definition detailTTL :: int where
  "detailTTL = 10 * 10 ^ 9"

definition listMarkets :: "'w marketEnv \<Rightarrow> i64 \<Rightarrow> 'w \<Rightarrow> (err + marketInfo list) \<times> 'w" where
  "listMarkets env chainID =
     readThrough env (unmarshalMarkets env) (marshalMarkets env) (listKey chainID) listTTL (repoListMarkets env chainID)"

definition getMarketDetail :: "'w marketEnv \<Rightarrow> i64 \<Rightarrow> 'w \<Rightarrow> (err + marketStateInfo) \<times> 'w" where
  "getMarketDetail env marketID =
     readThrough env (unmarshalState env) (marshalState env) (detailKey marketID) detailTTL (repoMarketDetail env marketID)"

definition getMarketHistory :: "'w marketEnv \<Rightarrow> i64 \<Rightarrow> string \<Rightarrow> string \<Rightarrow> 'w \<Rightarrow> (err + marketSnapshot list) \<times> 'w" where
  "getMarketHistory env marketID period interval = repoHistory env marketID period interval"

text \<open>\<open>CalculateAPY\<close>: the rate keeps its own precision, \<open>1e27\<close> is the \<open>float64\<close> next to it, and the quotient has
  the larger precision, which is the rate's.\<close>

definition rayUnit :: rat where
  "rayUnit = 1000000000000000013287555072"

definition secondsPerYear :: rat where
  "secondsPerYear = 36525 / 100 * 24 * 3600"

definition calculateAPY :: "int option \<Rightarrow> float64" where
  "calculateAPY rateRay =
     (case rateRay of
        None \<Rightarrow> Finite 0
      | Some rate \<Rightarrow>
          if rate = 0 then Finite 0
          else let ratePerSec = f64_of_rat (bigfloat_round (int_prec rate) (of_int rate / rayUnit))
               in f64_mul (f64_mul ratePerSec (Finite secondsPerYear)) (Finite 100))"

section \<open>The handlers\<close>

definition listMarketsHandler :: "'w marketEnv \<Rightarrow> query \<Rightarrow> 'w \<Rightarrow> (httpError + marketInfo list) \<times> 'w" where
  "listMarketsHandler env q w =
     (let cid = defaultQuery q ''chain_id'' '''';
          (chainID, bad) = (if cid \<noteq> '''' then parseInt cid else (0, None))
      in if bad \<noteq> None then (Inl (400, ''invalid chain_id''), w)
         else (case listMarkets env (word_of_int chainID) w of
                 (Inl e, w') \<Rightarrow> (Inl (500, ''failed to list markets''), w')
               | (Inr markets, w') \<Rightarrow> (Inr markets, w')))"

definition marketDetailHandler :: "'w marketEnv \<Rightarrow> string \<Rightarrow> 'w \<Rightarrow> (httpError + marketStateInfo) \<times> 'w" where
  "marketDetailHandler env param w =
     (case parseInt param of
        (_, Some e) \<Rightarrow> (Inl (400, ''invalid market_id''), w)
      | (marketID, None) \<Rightarrow>
          (case getMarketDetail env (word_of_int marketID) w of
             (Inl e, w') \<Rightarrow> (Inl (404, ''market not found''), w')
           | (Inr st, w') \<Rightarrow> (Inr st, w')))"

definition marketHistoryHandler :: "'w marketEnv \<Rightarrow> string \<Rightarrow> query \<Rightarrow> 'w \<Rightarrow> (httpError + marketSnapshot list) \<times> 'w" where
  "marketHistoryHandler env param q w =
     (case parseInt param of
        (_, Some e) \<Rightarrow> (Inl (400, ''invalid market_id''), w)
      | (marketID, None) \<Rightarrow>
          (case getMarketHistory env (word_of_int marketID) (defaultQuery q ''period'' ''7d'') (defaultQuery q ''interval'' ''1h'') w of
             (Inl e, w') \<Rightarrow> (Inl (500, ''failed to get history''), w')
           | (Inr snapshots, w') \<Rightarrow> (Inr snapshots, w')))"

section \<open>What \<open>cmd/api\<close> runs it with\<close>

text \<open>A cache that always misses and a database without markets.\<close>

definition stubCacheGet :: "string \<Rightarrow> 'w \<Rightarrow> (err + string) \<times> 'w" where
  "stubCacheGet key w = (Inl ''miss'', w)"

definition stubCacheSet :: "string \<Rightarrow> string \<Rightarrow> int \<Rightarrow> 'w \<Rightarrow> err option \<times> 'w" where
  "stubCacheSet key val ttl w = (None, w)"

definition stubListMarkets :: "i64 \<Rightarrow> 'w \<Rightarrow> (err + marketInfo list) \<times> 'w" where
  "stubListMarkets chainID w = (Inr [], w)"

definition stubMarketState :: "i64 \<Rightarrow> 'w \<Rightarrow> (err + marketStateInfo) \<times> 'w" where
  "stubMarketState marketID w = (Inl ''not found'', w)"

definition stubSnapshots :: "i64 \<Rightarrow> string \<Rightarrow> string \<Rightarrow> 'w \<Rightarrow> (err + marketSnapshot list) \<times> 'w" where
  "stubSnapshots marketID period interval w = (Inr [], w)"

definition stubMarketEnv :: "'w marketEnv \<Rightarrow> 'w marketEnv" where
  "stubMarketEnv codec = codec\<lparr>marketCacheGet := stubCacheGet, marketCacheSet := stubCacheSet,
     listMarketsDB := stubListMarkets, getMarketStateDB := stubMarketState, getSnapshotsDB := stubSnapshots\<rparr>"

section \<open>The cache as the service sees it\<close>

text \<open>What may be in the cache, with the times it expires at. While a call runs, and between calls, time
  passes and entries vanish.\<close>

type_synonym cacheView = "string \<Rightarrow> (string \<times> int) option"

definition later :: "('w \<Rightarrow> cacheView) \<Rightarrow> ('w \<Rightarrow> int) \<Rightarrow> 'w \<Rightarrow> 'w \<Rightarrow> bool" where
  "later contents now w w' \<longleftrightarrow> now w \<le> now w' \<and> contents w' \<subseteq>\<^sub>m contents w"

lemma later_trans: "later contents now a b \<Longrightarrow> later contents now b c \<Longrightarrow> later contents now a c"
  using map_le_trans by (fastforce simp: later_def)

lemma later_entry: "later contents now w w' \<Longrightarrow> contents w' k = Some x \<Longrightarrow> contents w k = Some x"
  by (auto simp: later_def map_le_def) (metis domI)

definition takes_time :: "('w \<Rightarrow> cacheView) \<Rightarrow> ('w \<Rightarrow> int) \<Rightarrow> ('w \<Rightarrow> 'a \<times> 'w) \<Rightarrow> bool" where
  "takes_time contents now f \<longleftrightarrow> (\<forall>w. later contents now w (snd (f w)))"

lemma takes_timeD: "takes_time contents now f \<Longrightarrow> f w = (r, w') \<Longrightarrow> later contents now w w'"
  by (auto simp: takes_time_def dest: spec [of _ w])

locale market_cache =
  fixes env :: "'w marketEnv" and contents :: "'w \<Rightarrow> cacheView" and now :: "'w \<Rightarrow> int"
  assumes get_later: "takes_time contents now (marketCacheGet env k)"
    and get_sound: "marketCacheGet env k w = (Inr v, w') \<Longrightarrow> \<exists>e. contents w k = Some (v, e) \<and> now w' < e"
    and set_law: "marketCacheSet env k v ttl w = (q, w') \<Longrightarrow> now w \<le> now w'
      \<and> (\<forall>k' x. contents w' k' = Some x \<longrightarrow> contents w k' = Some x \<or> k' = k \<and> x = (v, now w' + ttl))"
    and list_later: "takes_time contents now (listMarketsDB env c)"
    and state_later: "takes_time contents now (getMarketStateDB env m)"

text \<open>A call of a cached operation that got its answer from the database, with the answer.\<close>

definition fromDB :: "'w marketEnv \<Rightarrow> (string \<Rightarrow> err + 'a) \<Rightarrow> string \<Rightarrow> ('w \<Rightarrow> (err + 'a) \<times> 'w) \<Rightarrow> 'w \<Rightarrow> 'a \<Rightarrow> bool" where
  "fromDB env unmarshal key fetch w x \<longleftrightarrow>
     cachedValue unmarshal (fst (marketCacheGet env key w)) = None
     \<and> fst (fetch (snd (marketCacheGet env key w))) = Inr x"

text \<open>Every cached value of a key is the encoding of a logged answer, and expires the right time after it.\<close>

definition logged :: "cacheView \<Rightarrow> ('a \<Rightarrow> err + string) \<Rightarrow> string \<Rightarrow> int \<Rightarrow> ('a \<times> int) set \<Rightarrow> bool" where
  "logged view marshal key ttl L \<longleftrightarrow>
     (\<forall>v e. view key = Some (v, e) \<longrightarrow> (\<exists>x t. (x, t) \<in> L \<and> marshal x = Inr v \<and> e = t + ttl))"

lemma logged_mono: "logged view marshal key ttl L \<Longrightarrow> L \<subseteq> L' \<Longrightarrow> logged view marshal key ttl L'"
  unfolding logged_def by (meson subsetD)

lemma logged_later: "logged (contents w) marshal key ttl L \<Longrightarrow> later contents now w w' \<Longrightarrow> logged (contents w') marshal key ttl L"
  by (auto simp: logged_def dest: later_entry)

context market_cache
begin

text \<open>One call, for its own key and for any other.\<close>

lemma readThrough_cases:
  assumes "takes_time contents now fetch" and "readThrough env un ma key ttl fetch w = (r, w')"
  obtains (hit) x v e where "r = Inr x" "later contents now w w'" "un v = Inr x" "contents w key = Some (v, e)" "now w' < e"
  | (failed) e where "r = Inl e" "later contents now w w'"
  | (fresh) x where "r = Inr x" "fromDB env un key fetch w x" "now w \<le> now w'"
      "\<forall>k' y. contents w' k' = Some y \<longrightarrow> contents w k' = Some y \<or> k' = key \<and> (\<exists>v. ma x = Inr v \<and> y = (v, now w' + ttl))"
proof -
  obtain got w1 where g: "marketCacheGet env key w = (got, w1)" by fastforce
  note l1 = takes_timeD [OF get_later g]
  show ?thesis
  proof (cases "cachedValue un got")
    case (Some x)
    then obtain v where v: "got = Inr v" "un v = Inr x" by (auto simp: cachedValue_def split: sum.splits)
    have "r = Inr x" "w' = w1" using assms(2) Some g by (simp_all add: readThrough_def)
    then show ?thesis using hit l1 v get_sound g by blast
  next
    case None
    obtain r2 w2 where f: "fetch w1 = (r2, w2)" by fastforce
    have l2: "later contents now w w2" using later_trans [OF l1 takes_timeD [OF assms(1) f]] .
    show ?thesis
    proof (cases r2)
      case (Inl e)
      then have "r = Inl e" "w' = w2" using assms(2) None g f by (simp_all add: readThrough_def)
      then show ?thesis using failed l2 by blast
    next
      case (Inr x)
      have d: "fromDB env un key fetch w x" using g f None Inr by (simp add: fromDB_def)
      show ?thesis
      proof (cases "ma x")
        case (Inl e)
        then have e: "r = Inr x" "w' = w2" using assms(2) None g f Inr by (simp_all add: readThrough_def)
        show ?thesis using fresh [OF e(1) d] l2 e(2) by (auto simp: later_def map_le_def) (metis domI)
      next
        case c: (Inr v)
        obtain q w3 where s: "marketCacheSet env key v ttl w2 = (q, w3)" by fastforce
        have e: "r = Inr x" "w' = w3" using assms(2) None g f Inr c s by (simp_all add: readThrough_def)
        show ?thesis using fresh [OF e(1) d] set_law [OF s] l2 e(2) c
          by (auto simp: later_def dest: later_entry [OF l2])
      qed
    qed
  qed
qed

end

text \<open>The answers of the database that a call adds to the log, with the time at its end.\<close>

definition answers :: "'w marketEnv \<Rightarrow> ('w \<Rightarrow> int) \<Rightarrow> (string \<Rightarrow> err + 'a) \<Rightarrow> string \<Rightarrow> ('w \<Rightarrow> (err + 'a) \<times> 'w) \<Rightarrow> 'w \<Rightarrow> 'w \<Rightarrow> ('a \<times> int) set" where
  "answers env now unmarshal key fetch w w' = {(x, t). fromDB env unmarshal key fetch w x \<and> t = now w'}"

context market_cache
begin

lemmas here = logged_later [where contents = contents and now = now]

lemma logged_own:
  assumes "takes_time contents now fetch" and "readThrough env un ma key ttl fetch w = (r, w')"
    and "logged (contents w) ma key ttl L"
  shows "logged (contents w') ma key ttl (L \<union> answers env now un key fetch w w')"
proof (rule readThrough_cases [OF assms(1,2)], goal_cases hit failed fresh)
  case (fresh x)
  then have "(x, now w') \<in> answers env now un key fetch w w'" by (simp add: answers_def)
  then show ?thesis using fresh(4) assms(3) unfolding logged_def by fastforce
qed (use logged_mono [OF here [OF assms(3)]] in blast)+

lemma logged_other:
  assumes "takes_time contents now fetch" and "readThrough env un ma key ttl fetch w = (r, w')"
    and "logged (contents w) ma' key' ttl' L" and "key' \<noteq> key"
  shows "logged (contents w') ma' key' ttl' L"
proof (rule readThrough_cases [OF assms(1,2)], goal_cases hit failed fresh)
  case (fresh x)
  then show ?thesis using assms(3,4) unfolding logged_def by blast
qed (use here [OF assms(3)] in blast)+

lemma served_logged:
  assumes "takes_time contents now fetch" and "readThrough env un ma key ttl fetch w = (Inr x, w')"
    and "logged (contents w) ma key ttl L" and "\<And>y v. ma y = Inr v \<Longrightarrow> un v = Inr y"
  shows "fromDB env un key fetch w x \<or> (\<exists>t. (x, t) \<in> L \<and> now w' < t + ttl)"
proof (rule readThrough_cases [OF assms(1,2)], goal_cases hit failed fresh)
  case (hit y v e)
  then obtain z t where "(z, t) \<in> L" "ma z = Inr v" "e = t + ttl" using assms(3) by (auto simp: logged_def)
  then show ?thesis using hit assms(4) by force
qed simp_all

end

lemma keys_apart: "listKey c = listKey c' \<longleftrightarrow> c = c'" "detailKey m = detailKey m' \<longleftrightarrow> m = m'" "listKey c \<noteq> detailKey m"
  "detailKey m \<noteq> listKey c"
  by (simp_all add: listKey_def detailKey_def flip: word_eq_iff_signed)

section \<open>The life of the service\<close>

text \<open>Calls in any order, time passing, entries vanishing; with the log of what the database answered.\<close>

type_synonym listLog = "i64 \<Rightarrow> (marketInfo list \<times> int) set"
type_synonym stateLog = "i64 \<Rightarrow> (marketStateInfo \<times> int) set"

inductive marketRun :: "'w marketEnv \<Rightarrow> ('w \<Rightarrow> cacheView) \<Rightarrow> ('w \<Rightarrow> int) \<Rightarrow> 'w \<Rightarrow> listLog \<Rightarrow> stateLog \<Rightarrow> bool"
  for env contents now where
  start: "contents w = Map.empty \<Longrightarrow> marketRun env contents now w (\<lambda>_. {}) (\<lambda>_. {})"
| list_call: "marketRun env contents now w L D \<Longrightarrow> listMarkets env c w = (r, w')
    \<Longrightarrow> L' = L(c := L c \<union> answers env now (unmarshalMarkets env) (listKey c) (listMarketsDB env c) w w')
    \<Longrightarrow> marketRun env contents now w' L' D"
| detail_call: "marketRun env contents now w L D \<Longrightarrow> getMarketDetail env m w = (r, w')
    \<Longrightarrow> D' = D(m := D m \<union> answers env now (unmarshalState env) (detailKey m) (getMarketStateDB env m) w w')
    \<Longrightarrow> marketRun env contents now w' L D'"
| outside: "marketRun env contents now w L D \<Longrightarrow> later contents now w w' \<Longrightarrow> marketRun env contents now w' L D"

context market_cache
begin

lemma run_logged:
  assumes "marketRun env contents now w L D"
  shows "logged (contents w) (marshalMarkets env) (listKey c) listTTL (L c)
    \<and> logged (contents w) (marshalState env) (detailKey m) detailTTL (D m)"
  using assms
proof (induction arbitrary: c m rule: marketRun.induct)
  case (start w)
  then show ?case by (simp add: logged_def)
next
  case (list_call w L D c1 r w' L')
  note call = list_call(2) [unfolded listMarkets_def repoListMarkets_def]
  have "logged (contents w') (marshalMarkets env) (listKey c) listTTL (L' c)"
  proof (cases "c = c1")
    case True
    then show ?thesis using logged_own [OF list_later call conjunct1 [OF list_call(4)]] by (simp add: list_call(3))
  next
    case False
    then have "listKey c \<noteq> listKey c1" by (simp add: keys_apart)
    then show ?thesis using logged_other [OF list_later call conjunct1 [OF list_call(4)]] False by (simp add: list_call(3))
  qed
  moreover have "logged (contents w') (marshalState env) (detailKey m) detailTTL (D m)"
    by (rule logged_other [OF list_later call conjunct2 [OF list_call(4)]]) (simp add: keys_apart)
  ultimately show ?case ..
next
  case (detail_call w L D m1 r w' D')
  note call = detail_call(2) [unfolded getMarketDetail_def repoMarketDetail_def]
  have "logged (contents w') (marshalState env) (detailKey m) detailTTL (D' m)"
  proof (cases "m = m1")
    case True
    then show ?thesis using logged_own [OF state_later call conjunct2 [OF detail_call(4)]] by (simp add: detail_call(3))
  next
    case False
    then have "detailKey m \<noteq> detailKey m1" by (simp add: keys_apart)
    then show ?thesis using logged_other [OF state_later call conjunct2 [OF detail_call(4)]] False by (simp add: detail_call(3))
  qed
  moreover have "logged (contents w') (marshalMarkets env) (listKey c) listTTL (L c)"
    by (rule logged_other [OF state_later call conjunct1 [OF detail_call(4)]]) (simp add: keys_apart)
  ultimately show ?case by simp
next
  case (outside w L D w')
  then show ?case by (auto intro: here)
qed

end

context market_cache
begin

lemma list_served:
  assumes "marketRun env contents now w L D" and "\<And>ms v. marshalMarkets env ms = Inr v \<Longrightarrow> unmarshalMarkets env v = Inr ms"
    and "listMarkets env c w = (Inr ms, w')"
  shows "fromDB env (unmarshalMarkets env) (listKey c) (listMarketsDB env c) w ms \<or> (\<exists>t. (ms, t) \<in> L c \<and> now w' < t + listTTL)"
  by (rule served_logged [OF list_later assms(3) [unfolded listMarkets_def repoListMarkets_def] conjunct1 [OF run_logged [OF assms(1)]] assms(2)])

lemma detail_served:
  assumes "marketRun env contents now w L D" and "\<And>s v. marshalState env s = Inr v \<Longrightarrow> unmarshalState env v = Inr s"
    and "getMarketDetail env m w = (Inr s, w')"
  shows "fromDB env (unmarshalState env) (detailKey m) (getMarketStateDB env m) w s \<or> (\<exists>t. (s, t) \<in> D m \<and> now w' < t + detailTTL)"
  by (rule served_logged [OF state_later assms(3) [unfolded getMarketDetail_def repoMarketDetail_def] conjunct2 [OF run_logged [OF assms(1)]] assms(2)])

end

section \<open>The interface holds\<close>

text \<open>What \<open>cmd/api\<close> runs with: nothing is ever cached.\<close>

interpretation stub: market_cache "stubMarketEnv codec" "\<lambda>w. Map.empty" now for codec :: "'w marketEnv" and now
  by unfold_locales
    (auto simp: stubMarketEnv_def stubCacheGet_def stubCacheSet_def stubListMarkets_def stubMarketState_def takes_time_def later_def)

text \<open>A cache that keeps values until they expire, in a world of the cache and the time.\<close>

type_synonym ttlWorld = "cacheView \<times> int"

definition ttlGet :: "string \<Rightarrow> ttlWorld \<Rightarrow> (err + string) \<times> ttlWorld" where
  "ttlGet key w = (case fst w key of
     None \<Rightarrow> (Inl ''miss'', w)
   | Some (v, e) \<Rightarrow> if snd w < e then (Inr v, w) else (Inl ''miss'', w))"

definition ttlSet :: "string \<Rightarrow> string \<Rightarrow> int \<Rightarrow> ttlWorld \<Rightarrow> err option \<times> ttlWorld" where
  "ttlSet key val ttl w = (None, ((fst w)(key \<mapsto> (val, snd w + ttl)), snd w))"

definition withTTLCache :: "ttlWorld marketEnv \<Rightarrow> ttlWorld marketEnv" where
  "withTTLCache env = env\<lparr>marketCacheGet := ttlGet, marketCacheSet := ttlSet\<rparr>"

lemma ttl_market_cache:
  assumes "\<And>c. takes_time fst snd (listMarketsDB env c)" and "\<And>m. takes_time fst snd (getMarketStateDB env m)"
  shows "market_cache (withTTLCache env) fst snd"
proof
  show "takes_time fst snd (marketCacheGet (withTTLCache env) k)" for k
    by (auto simp: withTTLCache_def ttlGet_def takes_time_def later_def split: option.split)
  show "marketCacheGet (withTTLCache env) k w = (Inr v, w') \<Longrightarrow> \<exists>e. fst w k = Some (v, e) \<and> snd w' < e" for k w v w'
    by (auto simp: withTTLCache_def ttlGet_def split: option.splits if_splits)
  show "marketCacheSet (withTTLCache env) k v ttl w = (q, w') \<Longrightarrow> snd w \<le> snd w'
      \<and> (\<forall>k' x. fst w' k' = Some x \<longrightarrow> fst w k' = Some x \<or> k' = k \<and> x = (v, snd w' + ttl))" for k v ttl w q w'
    by (auto simp: withTTLCache_def ttlSet_def split: if_splits)
qed (use assms in \<open>simp_all add: withTTLCache_def\<close>)

section \<open>Properties\<close>

text \<open>C22: What \<open>ListMarkets\<close> returns is never older than half a minute, and never another chain's: it is what
  the database answers during the call, or answered for the same chain in an earlier call that ended less
  than thirty seconds before, whatever the calls for other chains and for single markets did meanwhile.\<close>

theorem market_list_fresh:
  assumes "market_cache env contents now" and "marketRun env contents now w L D"
    and "\<And>ms v. marshalMarkets env ms = Inr v \<Longrightarrow> unmarshalMarkets env v = Inr ms"
    and "listMarkets env c w = (Inr ms, w')"
  shows "fst (listMarketsDB env c (snd (marketCacheGet env (listKey c) w))) = Inr ms
    \<or> (\<exists>t. (ms, t) \<in> L c \<and> now w' < t + 30 * 10 ^ 9)"
  using market_cache.list_served [OF assms] by (auto simp: fromDB_def listTTL_def)

text \<open>The database has no market at first and one later on; only the empty list can be encoded.\<close>

definition demoMarket :: marketInfo where
  "demoMarket = \<lparr>mi_id = 1, mi_chainID = 1, mi_assetAddress = [], mi_assetSymbol = ''ETH'', mi_assetDecimals = 18, mi_poolAddress = [],
     mi_collateralFactor = [], mi_liquidationThreshold = [], mi_borrowCap = [], mi_supplyCap = [], mi_status = []\<rparr>"

definition demoMarketEnv :: "ttlWorld marketEnv" where
  "demoMarketEnv = withTTLCache \<lparr>marketCacheGet = ttlGet, marketCacheSet = ttlSet,
     listMarketsDB = (\<lambda>c w. (Inr (if snd w = 0 then [] else [demoMarket]), w)), getMarketStateDB = (\<lambda>m w. (Inl ''not found'', w)),
     getSnapshotsDB = (\<lambda>m p i w. (Inr [], w)),
     marshalMarkets = (\<lambda>ms. if ms = [] then Inr ''null'' else Inl ''unsupported''), unmarshalMarkets = (\<lambda>v. if v = ''null'' then Inr [] else Inl ''syntax''),
     marshalState = (\<lambda>s. Inl ''unsupported''), unmarshalState = (\<lambda>v. Inl ''syntax'')\<rparr>"

lemma demoMarketEnv_cache: "market_cache demoMarketEnv fst snd"
  unfolding demoMarketEnv_def by (rule ttl_market_cache) (simp_all add: takes_time_def later_def)

definition demoCached :: ttlWorld where
  "demoCached = ([listKey 1 \<mapsto> (''null'', 30 * 10 ^ 9)], 20 * 10 ^ 9)"

lemma demoMarket_run: "\<exists>L. marketRun demoMarketEnv fst snd demoCached L (\<lambda>_. {})"
proof -
  have "listMarkets demoMarketEnv 1 (Map.empty, 0) = (Inr [], ([listKey 1 \<mapsto> (''null'', 30 * 10 ^ 9)], 0))"
    by (simp add: listMarkets_def readThrough_def demoMarketEnv_def withTTLCache_def ttlGet_def ttlSet_def cachedValue_def listTTL_def)
  moreover have "marketRun demoMarketEnv fst snd (Map.empty, 0) (\<lambda>_. {}) (\<lambda>_. {})" by (rule marketRun.start) simp
  ultimately obtain L where "marketRun demoMarketEnv fst snd ([listKey 1 \<mapsto> (''null'', 30 * 10 ^ 9)], 0) L (\<lambda>_. {})"
    using marketRun.list_call [OF _ _ refl] by metis
  from marketRun.outside [OF this, of demoCached] show ?thesis by (auto simp: later_def demoCached_def)
qed

theorem market_list_fresh_witness:
  "\<exists>L t. marketRun demoMarketEnv fst snd demoCached L (\<lambda>_. {}) \<and> fst (listMarkets demoMarketEnv 1 demoCached) = Inr []
     \<and> fst (listMarketsDB demoMarketEnv 1 demoCached) = Inr [demoMarket] \<and> ([], t) \<in> L 1 \<and> 20 * 10 ^ 9 < t + 30 * 10 ^ 9"
proof -
  obtain L where r: "marketRun demoMarketEnv fst snd demoCached L (\<lambda>_. {})" using demoMarket_run by blast
  have l: "listMarkets demoMarketEnv 1 demoCached = (Inr [], demoCached)"
    by (simp add: listMarkets_def readThrough_def demoMarketEnv_def withTTLCache_def ttlGet_def cachedValue_def demoCached_def)
  have d: "listMarketsDB demoMarketEnv 1 w = (Inr (if snd w = 0 then [] else [demoMarket]), w)" for w
    by (simp add: demoMarketEnv_def withTTLCache_def)
  have g: "snd (marketCacheGet demoMarketEnv k w) = w" for k w
    by (simp add: demoMarketEnv_def withTTLCache_def ttlGet_def split: option.split)
  have c: "\<And>ms v. marshalMarkets demoMarketEnv ms = Inr v \<Longrightarrow> unmarshalMarkets demoMarketEnv v = Inr ms"
    by (auto simp: demoMarketEnv_def withTTLCache_def split: if_splits)
  from market_list_fresh [OF demoMarketEnv_cache r c l] obtain t where "([], t) \<in> L 1" "20 * 10 ^ 9 < t + 30 * 10 ^ 9"
    by (auto simp: d g demoCached_def)
  then show ?thesis using r l d by (auto simp: demoCached_def)
qed

text \<open>The rate that \<open>CalculateAPY\<close> is given counts as a simple rate per second: no interest on interest, and a year
  of a quarter of a day more than the rate computer's.\<close>

lemma calculateAPY_nonneg: "f64_nonneg (calculateAPY (Some r))" if "0 \<le> r"
proof -
  have "0 \<le> (of_int r :: rat) / rayUnit" using that by (simp add: rayUnit_def)
  then show ?thesis
    by (auto simp: calculateAPY_def Let_def secondsPerYear_def intro!: f64_mul_pos_nonneg f64_of_rat_nonneg bigfloat_round_nonneg)
qed

end
