(* ===== verification/Account.thy ===== *)
theory Account
  imports Auth Executor
begin

text \<open>
  \<open>internal/account\<close>: the account service and its HTTP handlers, with the log-in.

  The database is the interface \<open>accountDB\<close>. A handler gets what gin decoded of the request: the JSON body
  or the error of decoding it, the query, and the context the token check left; it answers a status with
  an error text (\<open>Inl\<close>) or 200 with data. A missing context value makes the type assertion panic (\<open>None\<close>).
\<close>

section \<open>Data\<close>

record positionSummary =
  ps_marketID :: i64
  ps_chainID :: i64
  ps_assetSymbol :: string
  ps_assetAddress :: string
  ps_supplyBalance :: string
  ps_borrowBalance :: string
  ps_supplyValueUSD :: string
  ps_borrowValueUSD :: string

record accountOverview =
  ao_address :: string
  ao_totalSupplyUSD :: string
  ao_totalBorrowUSD :: string
  ao_netWorthUSD :: string
  ao_healthFactor :: string
  ao_positions :: "positionSummary list"

record txHistoryEntry =
  th_chainID :: i64
  th_txHash :: string
  th_eventType :: string
  th_assetSymbol :: string
  th_amount :: string
  th_timestamp :: i64

record txBuildRequest =
  bq_chainID :: i64
  bq_action :: string
  bq_asset :: string
  bq_amount :: string

record txBuildResponse =
  br_to :: string
  br_data :: string
  br_value :: string
  br_gasLimit :: string

record accountDB =
  getPositionsDB :: "string \<Rightarrow> i64 \<Rightarrow> err + positionSummary list"
  getTxHistoryDB :: "string \<Rightarrow> i64 \<Rightarrow> int \<Rightarrow> int \<Rightarrow> err + txHistoryEntry list"

section \<open>The service\<close>

text \<open>\<open>SetString(s, 10)\<close>: what is not a decimal integer leaves the total alone.\<close>

definition addDecimal :: "int \<Rightarrow> string \<Rightarrow> int" where
  "addDecimal tot s = (case read_int s of None \<Rightarrow> tot | Some v \<Rightarrow> tot + v)"

fun sumPositions :: "positionSummary list \<Rightarrow> int \<Rightarrow> int \<Rightarrow> int \<times> int" where
  "sumPositions [] totalSupply totalBorrow = (totalSupply, totalBorrow)"
| "sumPositions (p # ps) totalSupply totalBorrow =
     sumPositions ps (addDecimal totalSupply (ps_supplyValueUSD p)) (addDecimal totalBorrow (ps_borrowValueUSD p))"

definition infinitySign :: string where
  "infinitySign = map char_of [226, 136, 158 :: nat]"

definition healthText :: "int \<Rightarrow> int \<Rightarrow> string" where
  "healthText totalSupply totalBorrow =
     (if 0 < totalBorrow then fmt_fixed 4 (bigfloat_quo_ints totalSupply totalBorrow) else infinitySign)"

definition getOverview :: "accountDB \<Rightarrow> string \<Rightarrow> i64 \<Rightarrow> err + accountOverview" where
  "getOverview db userAddress chainID =
     (case getPositionsDB db userAddress chainID of
        Inl e \<Rightarrow> Inl (''get positions: '' @ e)
      | Inr positions \<Rightarrow>
          (let (totalSupply, totalBorrow) = sumPositions positions 0 0
           in Inr \<lparr>ao_address = userAddress, ao_totalSupplyUSD = show_int totalSupply,
                ao_totalBorrowUSD = show_int totalBorrow, ao_netWorthUSD = show_int (totalSupply - totalBorrow),
                ao_healthFactor = healthText totalSupply totalBorrow, ao_positions = positions\<rparr>))"

definition getAccountHistory :: "accountDB \<Rightarrow> string \<Rightarrow> i64 \<Rightarrow> int \<Rightarrow> int \<Rightarrow> err + txHistoryEntry list" where
  "getAccountHistory db userAddress chainID limit offset =
     (let limit' = (if limit \<le> 0 \<or> 100 < limit then 20 else limit);
          offset' = (if offset < 0 then 0 else offset)
      in getTxHistoryDB db userAddress chainID limit' offset')"

definition actionSig :: "string \<Rightarrow> string option" where
  "actionSig action =
     (if action = ''deposit'' then Some ''deposit(address,uint256,address,uint16)''
      else if action = ''withdraw'' then Some ''withdraw(address,uint256,address)''
      else if action = ''borrow'' then Some ''borrow(address,uint256,uint256,uint16,address)''
      else if action = ''repay'' then Some ''repay(address,uint256,uint256,address)''
      else None)"

text \<open>The slice for the amount starts at 68 minus its length: it panics for more than 68 bytes and
  reaches into the asset's slot and the selector for more than 32.\<close>

definition buildTransaction :: "authLib \<Rightarrow> ethLib \<Rightarrow> txBuildRequest \<Rightarrow> address \<Rightarrow> (err + txBuildResponse) option" where
  "buildTransaction lib eth req poolAddress =
     (let asset = parseHexAddress lib (bq_asset req) in
      case read_int (bq_amount req) of
        None \<Rightarrow> Some (Inl (''invalid amount: '' @ bq_amount req))
      | Some amount \<Rightarrow>
          (case actionSig (bq_action req) of
             None \<Rightarrow> Some (Inl (''unknown action: '' @ bq_action req))
           | Some funcSig \<Rightarrow> do {
               let selector = take 4 (keccak256 eth (bytesOf funcSig));
               data1 \<leftarrow> copy_slice (replicate (4 + 64) 0) 0 4 selector;
               data2 \<leftarrow> copy_slice data1 (4 + 12) (4 + 32) (addressBytes eth asset);
               let amountBytes = be_bytes (nat \<bar>amount\<bar>);
               data3 \<leftarrow> copy_slice data2 (36 + (32 - int (length amountBytes))) 68 amountBytes;
               Some (Inr \<lparr>br_to = checksumHex lib poolAddress, br_data = ''0x'' @ fmt_hex data3, br_value = ''0'',
                 br_gasLimit = ''300000''\<rparr>)
             }))"

section \<open>The handlers\<close>

text \<open>The handlers drop the errors of \<open>ParseInt\<close> and \<open>Atoi\<close> and use the value that comes with them.\<close>

definition queryInt :: "query \<Rightarrow> string \<Rightarrow> string \<Rightarrow> int" where
  "queryInt q key def = fst (parseInt (defaultQuery q key def))"

record loginRequest =
  lq_message :: string
  lq_signature :: string

record loginResponse =
  lr_token :: string
  lr_address :: string

definition login :: "authLib \<Rightarrow> authConfig \<Rightarrow> int \<Rightarrow> err + loginRequest \<Rightarrow> httpError + loginResponse" where
  "login lib conf now body =
     (case body of
        Inl e \<Rightarrow> Inl (400, ''invalid request body'')
      | Inr req \<Rightarrow>
          (case verifyEIP4361Signature lib (lq_message req) (lq_signature req) of
             Inl e \<Rightarrow> Inl (401, ''invalid signature'')
           | Inr recovered \<Rightarrow>
               (case extractAddressFromSIWEMessage lib (lq_message req) of
                  Inl e \<Rightarrow> Inl (400, ''invalid SIWE message'')
                | Inr claimedAddr \<Rightarrow>
                    if \<not> isHexAddress lib claimedAddr \<or> parseHexAddress lib claimedAddr \<noteq> recovered
                    then Inl (401, ''address mismatch'')
                    else (case generateJWT lib conf now (checksumHex lib recovered) of
                            Inl e \<Rightarrow> Inl (500, ''failed to generate token'')
                          | Inr token \<Rightarrow> Inr \<lparr>lr_token = token, lr_address = checksumHex lib recovered\<rparr>))))"

definition positionsHandler :: "accountDB \<Rightarrow> requestContext \<Rightarrow> query \<Rightarrow> (httpError + accountOverview) option" where
  "positionsHandler db ctx q =
     (case ctx ''wallet_address'' of
        None \<Rightarrow> None
      | Some address \<Rightarrow>
          (case getOverview db address (word_of_int (queryInt q ''chain_id'' ''0'')) of
             Inl e \<Rightarrow> Some (Inl (500, ''failed to get positions''))
           | Inr overview \<Rightarrow> Some (Inr overview)))"

definition historyHandler :: "accountDB \<Rightarrow> requestContext \<Rightarrow> query \<Rightarrow> (httpError + txHistoryEntry list) option" where
  "historyHandler db ctx q =
     (case ctx ''wallet_address'' of
        None \<Rightarrow> None
      | Some address \<Rightarrow>
          (case getAccountHistory db address (word_of_int (queryInt q ''chain_id'' ''0''))
              (queryInt q ''limit'' ''20'') (queryInt q ''offset'' ''0'') of
             Inl e \<Rightarrow> Some (Inl (500, ''failed to get history''))
           | Inr entries \<Rightarrow> Some (Inr entries)))"

definition buildTxHandler :: "authLib \<Rightarrow> ethLib \<Rightarrow> address \<Rightarrow> err + txBuildRequest \<Rightarrow> (httpError + txBuildResponse) option" where
  "buildTxHandler lib eth poolAddress body =
     (case body of
        Inl e \<Rightarrow> Some (Inl (400, ''invalid request body''))
      | Inr req \<Rightarrow>
          (case buildTransaction lib eth req poolAddress of
             None \<Rightarrow> None
           | Some (Inl e) \<Rightarrow> Some (Inl (400, e))
           | Some (Inr resp) \<Rightarrow> Some (Inr resp)))"

section \<open>Totals\<close>

definition decimalOr0 :: "string \<Rightarrow> int" where
  "decimalOr0 s = (case read_int s of None \<Rightarrow> 0 | Some v \<Rightarrow> v)"

lemma sumPositions_sum:
  "sumPositions ps s b =
     (s + (\<Sum>p\<leftarrow>ps. decimalOr0 (ps_supplyValueUSD p)), b + (\<Sum>p\<leftarrow>ps. decimalOr0 (ps_borrowValueUSD p)))"
  by (induction ps arbitrary: s b) (auto simp: addDecimal_def decimalOr0_def split: option.split)

section \<open>Calldata\<close>

lemma transaction_data:
  assumes "eth_ok eth" and "\<bar>amount\<bar> < 2 ^ 256"
  shows "do {
      data1 \<leftarrow> copy_slice (replicate (4 + 64) 0) 0 4 (take 4 (keccak256 eth bs));
      data2 \<leftarrow> copy_slice data1 (4 + 12) (4 + 32) (addressBytes eth a);
      copy_slice data2 (36 + (32 - int (length (be_bytes (nat \<bar>amount\<bar>))))) 68 (be_bytes (nat \<bar>amount\<bar>))
    } = Some (take 4 (keccak256 eth bs) @ (replicate 12 0 @ addressBytes eth a) @ abiWord (nat \<bar>amount\<bar>))"
proof -
  let ?s = "take 4 (keccak256 eth bs)" and ?p = "replicate 12 0 @ addressBytes eth a" and ?b = "be_bytes (nat \<bar>amount\<bar>)"
  have s: "length ?s = 4" "length (addressBytes eth a) = 20" using assms(1) by (simp_all add: eth_ok_def)
  have "nat \<bar>amount\<bar> < 256 ^ 32" using assms(2) by (simp add: nat_less_iff)
  then have b: "length ?b \<le> 32" using be_bytes_length_le by blast
  have "copy_slice ([] @ replicate 68 0) 0 4 ?s = Some (([] @ replicate 0 0 @ ?s) @ replicate 64 0)"
    using s by (intro copy_zeros [of _ 4]) simp_all
  moreover have "copy_slice (?s @ replicate 64 0) 16 36 (addressBytes eth a)
      = Some ((?s @ replicate 12 0 @ addressBytes eth a) @ replicate 32 0)"
    using s by (intro copy_zeros [of _ 20]) simp_all
  moreover have "copy_slice ((?s @ ?p) @ replicate 32 0) (36 + (32 - int (length ?b))) 68 ?b
      = Some (((?s @ ?p) @ replicate (32 - length ?b) 0 @ ?b) @ replicate 0 0)"
    using s b by (intro copy_zeros [of _ "length ?b"]) simp_all
  ultimately show ?thesis by (simp add: abiWord_def)
qed

section \<open>Libraries to apply the properties with\<close>

text \<open>A token that spells its claims out, an address for every signature, any 42 characters for an address.\<close>

definition demoSign :: "claims \<Rightarrow> byte list \<Rightarrow> err + string" where
  "demoSign c key = Inr (show_int (cl_issuedAt c) @ CHR '' '' # show_int (cl_expiresAt c) @ CHR '' ''
     # show_nat (length (cl_issuer c)) @ CHR '' '' # cl_issuer c @ cl_address c)"

definition demoParse :: "string \<Rightarrow> (jwtMethod \<Rightarrow> err + byte list) \<Rightarrow> int \<Rightarrow> err + (claims \<times> bool)" where
  "demoParse tok kf now =
     (let p1 = splitTwo (CHR '' '') tok; p2 = splitTwo (CHR '' '') (p1 ! 1); p3 = splitTwo (CHR '' '') (p2 ! 1);
          iat = the (read_int (p1 ! 0)); ex = the (read_int (p2 ! 0)); n = nat (the (read_int (p3 ! 0)))
      in case kf (SigningMethodHMAC ''HS256'') of
           Inl e \<Rightarrow> Inl e
         | Inr key \<Rightarrow> if now < ex * 10 ^ 9
             then Inr (\<lparr>cl_address = drop n (p3 ! 1), cl_issuer = take n (p3 ! 1), cl_issuedAt = iat, cl_expiresAt = ex\<rparr>, True)
             else Inl ''token is expired'')"

definition demoAuth :: authLib where
  "demoAuth = \<lparr>hexutilDecode = (\<lambda>s. Inr (replicate 65 0)), keccakHash = (\<lambda>bs. 0), ecrecover = (\<lambda>h sig. Inr []),
     unmarshalPubkey = (\<lambda>bs. Inr (1, 2)), pubkeyToAddress = (\<lambda>k. 171), isHexAddress = (\<lambda>s. length s = 2),
     parseHexAddress = (\<lambda>s. 171), checksumHex = (\<lambda>a. ''Ab''), signHS256 = demoSign, parseWithClaims = demoParse\<rparr>"

lemma show_nat_no_space: "CHR '' '' \<notin> set (show_nat n)"
proof (induction n rule: show_nat.induct)
  case (1 n)
  have d: "char_of (48 + k) \<noteq> CHR '' ''" if "k < 10" for k :: nat
  proof
    assume "char_of (48 + k) = CHR '' ''"
    then have "(of_char (char_of (48 + k)) :: nat) = of_char CHR '' ''" by simp
    then show False using that by (simp add: of_char_of)
  qed
  show ?case using 1 d [of "n mod 10"] d [of n] by (cases "n < 10") (auto simp: show_nat.simps [of n])
qed

lemma show_int_no_space: "CHR '' '' \<notin> set (show_int i)"
  by (simp add: show_int_def show_nat_no_space)

lemma read_show_nat_int: "read_int (show_nat n) = Some (int n)"
  using read_show_int [of "int n"] by (simp add: show_int_def)

lemma demoAuth_jwt: "jwt_ok demoAuth"
  by (auto simp: jwt_ok_def demoAuth_def demoSign_def demoParse_def Let_def splitTwo_sep show_int_no_space show_nat_no_space
      read_show_int read_show_nat_int)

definition demoConf :: authConfig where
  "demoConf = \<lparr>secret = ''s'', issuer = ''defi-lending'', expiration = 86400 * 10 ^ 9\<rparr>"

definition demoLogin :: loginRequest where
  "demoLogin = \<lparr>lq_message = ''x'' @ newline # ''Ab'', lq_signature = ''0x''\<rparr>"

lemma no_spaces:
  "find (\<lambda>p. p \<noteq> [] \<and> take (length p) ''Ab'' = p) goSpaces = None"
  "find (\<lambda>p. p \<noteq> [] \<and> take (length p) ''bA'' = p) (map rev goSpaces) = None"
  by (simp_all add: goSpaces_def upt_rec char_of_def)

lemma demoLogin_address: "extractAddressFromSIWEMessage demoAuth (lq_message demoLogin) = Inr ''Ab''"
proof -
  have "trimSpace ''Ab'' = ''Ab''" using no_spaces by (simp add: trimSpace_def trimLeft.simps strip_prefix_def)
  then show ?thesis
    by (simp add: extractAddressFromSIWEMessage_def demoLogin_def newline_def demoAuth_def char_of_def)
qed

lemma demoLogin_ok:
  "login demoAuth demoConf t (Inr demoLogin) = Inr \<lparr>lr_token = projr (demoSign (newClaims demoConf ''Ab'' t) (bytesOf ''s'')), lr_address = ''Ab''\<rparr>"
proof -
  have "extractAddressFromSIWEMessage demoAuth (lq_message demoLogin) = Inr ''Ab''" by (rule demoLogin_address)
  moreover have "verifyEIP4361Signature demoAuth (lq_message demoLogin) (lq_signature demoLogin) = Inr 171"
    by (simp add: verifyEIP4361Signature_def demoAuth_def)
  ultimately show ?thesis
    by (simp add: login_def generateJWT_def demoAuth_def demoConf_def demoSign_def)
qed

section \<open>Properties\<close>

text \<open>A log-in succeeds exactly when the signature recovers the address that the message claims on its
  second line; the token is for that address in lower case, and the answer names it.\<close>

theorem login_authenticates:
  "login lib conf now (Inr req) = Inr resp \<longleftrightarrow>
     (\<exists>a claimed token. verifyEIP4361Signature lib (lq_message req) (lq_signature req) = Inr a
        \<and> extractAddressFromSIWEMessage lib (lq_message req) = Inr claimed \<and> isHexAddress lib claimed
        \<and> parseHexAddress lib claimed = a \<and> generateJWT lib conf now (checksumHex lib a) = Inr token
        \<and> resp = \<lparr>lr_token = token, lr_address = checksumHex lib a\<rparr>)"
proof (cases "verifyEIP4361Signature lib (lq_message req) (lq_signature req)")
  case (Inr a)
  then show ?thesis
    by (cases "extractAddressFromSIWEMessage lib (lq_message req)"; cases "generateJWT lib conf now (checksumHex lib a)")
      (auto simp: login_def)
qed (simp add: login_def)

text \<open>The token of a log-in opens the account of exactly the address that logged in: until it expires a
  request that carries it gets the overview of the lower case address, afterwards it is turned away.\<close>

theorem login_opens_account:
  assumes "jwt_ok lib" and "login lib conf t (Inr req) = Inr resp"
  shows "case jwtAuthMiddleware lib conf now (''Bearer '' @ lr_token resp) ctx of
      Inr ctx' \<Rightarrow> now < (t + expiration conf) div 10 ^ 9 * 10 ^ 9
        \<and> positionsHandler db ctx' q = Some (case getOverview db (toLower (lr_address resp)) (word_of_int (queryInt q ''chain_id'' ''0'')) of
             Inl e \<Rightarrow> Inl (500, ''failed to get positions'') | Inr ov \<Rightarrow> Inr ov)
    | Inl r \<Rightarrow> (t + expiration conf) div 10 ^ 9 * 10 ^ 9 \<le> now \<and> r = (401, ''invalid token'')"
proof -
  have g: "generateJWT lib conf t (lr_address resp) = Inr (lr_token resp)"
    using assms(2) by (auto simp: login_def split: sum.splits if_splits)
  show ?thesis
  proof (cases "now < (t + expiration conf) div 10 ^ 9 * 10 ^ 9")
    case True
    then show ?thesis using issued_token(1) [OF assms(1) g True, of ctx]
      by (auto simp: positionsHandler_def setWallet_def split: sum.split)
  next
    case False
    then show ?thesis using issued_token(2) [OF assms(1) g False, of ctx] by simp
  qed
qed

theorem login_opens_account_witness:
  "\<exists>token ctx'. login demoAuth demoConf 0 (Inr demoLogin) = Inr \<lparr>lr_token = token, lr_address = ''Ab''\<rparr>
     \<and> jwtAuthMiddleware demoAuth demoConf 5 (''Bearer '' @ token) (\<lambda>_. None) = Inr ctx'
     \<and> positionsHandler \<lparr>getPositionsDB = \<lambda>u c. Inl u, getTxHistoryDB = \<lambda>_ _ _ _. Inr []\<rparr> ctx' (\<lambda>_. None)
       = Some (Inl (500, ''failed to get positions''))"
proof -
  obtain token where l: "login demoAuth demoConf 0 (Inr demoLogin) = Inr \<lparr>lr_token = token, lr_address = ''Ab''\<rparr>"
    using demoLogin_ok by blast
  have "(0 + expiration demoConf) div 10 ^ 9 * 10 ^ 9 = 86400000000000" by (simp add: demoConf_def)
  then show ?thesis
    using login_opens_account [of demoAuth demoConf 0 demoLogin, OF demoAuth_jwt l, where now = 5 and ctx = "\<lambda>_. None" and q = "\<lambda>_. None"
        and db = "\<lparr>getPositionsDB = \<lambda>u c. Inl u, getTxHistoryDB = \<lambda>_ _ _ _. Inr []\<rparr>"] l
    by (auto simp: getOverview_def split: sum.splits)
qed

text \<open>A signed message logs in for ever: nothing in it is checked but the address, neither a nonce nor a
  time, so whoever has seen one log-in can repeat it at any later time.\<close>

theorem login_replay:
  assumes "\<And>c. \<exists>tok. signHS256 lib c (bytesOf (secret conf)) = Inr tok" and "login lib conf t (Inr req) = Inr resp"
  shows "\<exists>resp'. login lib conf t' (Inr req) = Inr resp' \<and> lr_address resp' = lr_address resp"
proof -
  obtain tok where "generateJWT lib conf t' (lr_address resp) = Inr tok"
    using assms(1) by (auto simp: generateJWT_def)
  then show ?thesis using assms(2) by (auto simp: login_def split: sum.splits if_splits)
qed

theorem login_replay_witness:
  "\<exists>resp'. login demoAuth demoConf (10 ^ 20) (Inr demoLogin) = Inr resp' \<and> lr_address resp' = ''Ab''"
proof -
  have "\<And>c. \<exists>tok. signHS256 demoAuth c (bytesOf (secret demoConf)) = Inr tok" by (simp add: demoAuth_def demoSign_def)
  from login_replay [OF this demoLogin_ok [of 0], of "10 ^ 20"] show ?thesis by simp
qed

text \<open>The overview's totals are the sums of the positions' values, the net worth is their difference, and
  the health factor is infinite exactly when nothing is borrowed in total; a value that is not a decimal
  integer, such as one with a fraction, counts as nothing.\<close>

theorem overview_totals:
  "case getPositionsDB db user chain of
     Inl e \<Rightarrow> getOverview db user chain = Inl (''get positions: '' @ e)
   | Inr ps \<Rightarrow> (\<exists>ov. getOverview db user chain = Inr ov \<and> ao_address ov = user \<and> ao_positions ov = ps
       \<and> read_int (ao_totalSupplyUSD ov) = Some (\<Sum>p\<leftarrow>ps. decimalOr0 (ps_supplyValueUSD p))
       \<and> read_int (ao_totalBorrowUSD ov) = Some (\<Sum>p\<leftarrow>ps. decimalOr0 (ps_borrowValueUSD p))
       \<and> read_int (ao_netWorthUSD ov) = Some ((\<Sum>p\<leftarrow>ps. decimalOr0 (ps_supplyValueUSD p)) - (\<Sum>p\<leftarrow>ps. decimalOr0 (ps_borrowValueUSD p)))
       \<and> ((\<Sum>p\<leftarrow>ps. decimalOr0 (ps_borrowValueUSD p)) \<le> 0 \<longleftrightarrow> ao_healthFactor ov = infinitySign))"
proof (cases "getPositionsDB db user chain")
  case (Inr ps)
  let ?b = "\<Sum>p\<leftarrow>ps. decimalOr0 (ps_borrowValueUSD p)"
  have "fmt_fixed 4 x \<noteq> infinitySign" for x
  proof
    assume e: "fmt_fixed 4 x = infinitySign"
    have "CHR ''.'' \<in> set (fmt_fixed 4 x)" by (simp add: fmt_fixed_def Let_def)
    then show False unfolding e by (simp add: infinitySign_def char_of_def) 
  qed
  then show ?thesis using Inr by (auto simp: getOverview_def sumPositions_sum read_show_int healthText_def)
qed (simp add: getOverview_def)

text \<open>C36: The calldata is the action's selector, the asset's address and the amount as 32 byte words, whatever
  the amount's size in that range; but only its absolute value counts, so a negative amount is accepted and
  builds the transaction of the positive one.\<close>

theorem buildTransaction_calldata:
  assumes "eth_ok eth" and "read_int (bq_amount req) = Some amount" and "\<bar>amount\<bar> < 2 ^ 256"
    and "actionSig (bq_action req) = Some funcSig"
  shows "\<exists>resp. buildTransaction lib eth req pool = Some (Inr resp) \<and> br_to resp = checksumHex lib pool
    \<and> br_data resp = ''0x'' @ fmt_hex (take 4 (keccak256 eth (bytesOf funcSig))
         @ (replicate 12 0 @ addressBytes eth (parseHexAddress lib (bq_asset req))) @ abiWord (nat \<bar>amount\<bar>))"
  using transaction_data [OF assms(1,3), of "bytesOf funcSig" "parseHexAddress lib (bq_asset req)"] assms(2,4)
  by (auto simp: buildTransaction_def Let_def bind_eq_Some_conv)

theorem buildTransaction_calldata_witness:
  "\<exists>resp. buildTransaction demoAuth exampleEth \<lparr>bq_chainID = 1, bq_action = ''repay'', bq_asset = ''0xAb'', bq_amount = ''-5''\<rparr> 9
      = Some (Inr resp) \<and> br_to resp = ''Ab''"
proof -
  let ?req = "\<lparr>bq_chainID = 1, bq_action = ''repay'', bq_asset = ''0xAb'', bq_amount = ''-5''\<rparr>"
  have "read_int (bq_amount ?req) = Some (- 5)" by code_simp
  moreover have "actionSig (bq_action ?req) = Some ''repay(address,uint256,uint256,address)''" by (simp add: actionSig_def)
  ultimately show ?thesis
    using buildTransaction_calldata [OF exampleEth_ok, of ?req "- 5" "''repay(address,uint256,uint256,address)''" demoAuth 9]
    by (auto simp: demoAuth_def)
qed

text \<open>Whatever the query says, the database is asked for between one and a hundred entries from a place
  that is not negative; a limit in range is used as it is, any other becomes twenty.\<close>

theorem history_bounds:
  assumes "ctx ''wallet_address'' = Some address"
  shows "\<exists>limit offset. 1 \<le> limit \<and> limit \<le> 100 \<and> 0 \<le> offset
    \<and> (limit = queryInt q ''limit'' ''20'' \<or> limit = 20 \<and> queryInt q ''limit'' ''20'' \<notin> {1..100})
    \<and> historyHandler db ctx q = Some (case getTxHistoryDB db address (word_of_int (queryInt q ''chain_id'' ''0'')) limit offset of
        Inl e \<Rightarrow> Inl (500, ''failed to get history'') | Inr es \<Rightarrow> Inr es)"
proof -
  let ?l = "queryInt q ''limit'' ''20''" and ?o = "queryInt q ''offset'' ''0''"
  let ?l' = "if ?l \<le> 0 \<or> 100 < ?l then 20 else ?l" and ?o' = "if ?o < 0 then 0 else ?o"
  have "historyHandler db ctx q = Some (case getTxHistoryDB db address (word_of_int (queryInt q ''chain_id'' ''0'')) ?l' ?o' of
        Inl e \<Rightarrow> Inl (500, ''failed to get history'') | Inr es \<Rightarrow> Inr es)"
    using assms by (simp add: historyHandler_def getAccountHistory_def Let_def split: sum.split)
  moreover have "1 \<le> ?l' \<and> ?l' \<le> 100 \<and> 0 \<le> ?o' \<and> (?l' = ?l \<or> ?l' = 20 \<and> ?l \<notin> {1..100})" by auto
  ultimately show ?thesis by blast
qed

theorem history_bounds_witness:
  "historyHandler \<lparr>getPositionsDB = \<lambda>u c. Inr [], getTxHistoryDB = \<lambda>u c l k. Inr []\<rparr>
     (\<lambda>_. Some ''0xa'') (\<lambda>_. Some ''1000'') = Some (Inr [])"
  using history_bounds [of "\<lambda>_. Some ''0xa''" "''0xa''" "\<lambda>_. Some ''1000''" "\<lparr>getPositionsDB = \<lambda>u c. Inr [], getTxHistoryDB = \<lambda>u c l k. Inr []\<rparr>"]
  by auto

end
