(* ===== verification/Api.thy ===== *)
theory Api
  imports Market Account
begin

text \<open>
  \<open>internal/api/router.go\<close> with the middlewares of \<open>internal/api/middleware\<close>, and \<open>cmd/api\<close>: how a request
  travels through recovery, CORS, logging, rate limit and routing to a handler.

  gin's path matching is written out for the patterns the code registers; what gin decodes of a JSON
  body and Prometheus' page are the parameter \<open>ginLib\<close>. A handler returns a status with a body, or
  panics (\<open>None\<close>).
\<close>

section \<open>Requests and responses\<close>

record apiRequest =
  rq_method :: string
  rq_path :: "string list"
  rq_authorization :: string
  rq_query :: query
  rq_body :: string
  rq_clientIP :: string
  rq_now :: int

datatype apiBody =
    NoBody
  | ErrorBody string
  | StatusBody string
  | PageBody string
  | MarketsBody "marketInfo list"
  | StateBody marketStateInfo
  | SnapshotsBody "marketSnapshot list"
  | LoginBody loginResponse
  | OverviewBody accountOverview
  | EntriesBody "txHistoryEntry list"
  | TxBody txBuildResponse
  | UpgradedBody

type_synonym reply = "nat \<times> apiBody"

datatype logLevel = LogInfo | LogWarn | LogError

record apiResponse =
  rs_status :: nat
  rs_body :: apiBody
  rs_headers :: "(string \<times> string) list"
  rs_log :: "(logLevel \<times> nat) option"

record ginLib =
  bindLogin :: "string \<Rightarrow> err + loginRequest"
  bindTx :: "string \<Rightarrow> err + txBuildRequest"
  metricsPage :: string

text \<open>Path parameters, the context, and the world.\<close>

type_synonym 'w handler = "(string \<Rightarrow> string option) \<Rightarrow> apiRequest \<Rightarrow> requestContext \<Rightarrow> 'w \<Rightarrow> reply option \<times> 'w"

datatype segment = Lit string | Param string

type_synonym 'w route = "string \<times> segment list \<times> 'w handler"

record accountHandlerConfig =
  ah_db :: accountDB
  ah_auth :: authConfig
  ah_pool :: address

record 'w routerConfig =
  rc_market :: "'w marketEnv option"
  rc_account :: "accountHandlerConfig option"
  rc_ws :: "'w handler option"
  rc_rateLimit :: "'w rateLimitConfig"

section \<open>Handlers as routes\<close>

definition answer :: "('a \<Rightarrow> apiBody) \<Rightarrow> httpError + 'a \<Rightarrow> reply" where
  "answer body r = (case r of Inl (status, e) \<Rightarrow> (status, ErrorBody e) | Inr x \<Rightarrow> (200, body x))"

definition marketRoutes :: "'w marketEnv \<Rightarrow> 'w route list" where
  "marketRoutes env =
     [(''GET'', [Lit ''markets''], \<lambda>params rq ctx w.
         let (r, w') = listMarketsHandler env (rq_query rq) w in (Some (answer MarketsBody r), w')),
      (''GET'', [Lit ''markets'', Param ''market_id''], \<lambda>params rq ctx w.
         let (r, w') = marketDetailHandler env (defaultQuery params ''market_id'' '''') w in (Some (answer StateBody r), w')),
      (''GET'', [Lit ''markets'', Param ''market_id'', Lit ''history''], \<lambda>params rq ctx w.
         let (r, w') = marketHistoryHandler env (defaultQuery params ''market_id'' '''') (rq_query rq) w in (Some (answer SnapshotsBody r), w'))]"

text \<open>The group behind the token check.\<close>

definition authed :: "authLib \<Rightarrow> authConfig \<Rightarrow> 'w handler \<Rightarrow> 'w handler" where
  "authed lib conf h params rq ctx w =
     (case jwtAuthMiddleware lib conf (rq_now rq) (rq_authorization rq) ctx of
        Inl (status, e) \<Rightarrow> (Some (status, ErrorBody e), w)
      | Inr ctx' \<Rightarrow> h params rq ctx' w)"

definition accountRoutes :: "authLib \<Rightarrow> ethLib \<Rightarrow> ginLib \<Rightarrow> accountHandlerConfig \<Rightarrow> 'w route list" where
  "accountRoutes lib eth gin h =
     [(''POST'', [Lit ''auth'', Lit ''login''], \<lambda>params rq ctx w.
         (Some (answer LoginBody (login lib (ah_auth h) (rq_now rq) (bindLogin gin (rq_body rq)))), w)),
      (''GET'', [Lit ''account'', Lit ''positions''], authed lib (ah_auth h) (\<lambda>params rq ctx w.
         (map_option (answer OverviewBody) (positionsHandler (ah_db h) ctx (rq_query rq)), w))),
      (''GET'', [Lit ''account'', Lit ''history''], authed lib (ah_auth h) (\<lambda>params rq ctx w.
         (map_option (answer EntriesBody) (historyHandler (ah_db h) ctx (rq_query rq)), w))),
      (''POST'', [Lit ''account'', Lit ''tx'', Lit ''build''], authed lib (ah_auth h) (\<lambda>params rq ctx w.
         (map_option (answer TxBody) (buildTxHandler lib eth (ah_pool h) (bindTx gin (rq_body rq))), w)))]"

definition wsRoutes :: "'w handler \<Rightarrow> 'w route list" where
  "wsRoutes h = [(''GET'', [Lit ''ws''], h)]"

definition inGroup :: "'w route list \<Rightarrow> 'w route list" where
  "inGroup rs = map (\<lambda>(method, path, h). (method, Lit ''api'' # Lit ''v1'' # path, h)) rs"

definition systemRoutes :: "ginLib \<Rightarrow> 'w route list" where
  "systemRoutes gin =
     [(''GET'', [Lit ''healthz''], \<lambda>params rq ctx w. (Some (200, StatusBody ''ok''), w)),
      (''GET'', [Lit ''readyz''], \<lambda>params rq ctx w. (Some (200, StatusBody ''ready''), w)),
      (''GET'', [Lit ''metrics''], \<lambda>params rq ctx w. (Some (200, PageBody (metricsPage gin)), w))]"

definition routes :: "authLib \<Rightarrow> ethLib \<Rightarrow> ginLib \<Rightarrow> 'w routerConfig \<Rightarrow> 'w route list" where
  "routes lib eth gin rc =
     systemRoutes gin
     @ inGroup (case rc_market rc of None \<Rightarrow> [] | Some env \<Rightarrow> marketRoutes env)
     @ inGroup (case rc_account rc of None \<Rightarrow> [] | Some h \<Rightarrow> accountRoutes lib eth gin h)
     @ inGroup (case rc_ws rc of None \<Rightarrow> [] | Some h \<Rightarrow> wsRoutes h)"

section \<open>Routing\<close>

fun matchPath :: "segment list \<Rightarrow> string list \<Rightarrow> (string \<Rightarrow> string option) option" where
  "matchPath [] [] = Some Map.empty"
| "matchPath (Lit s # pat) (x # xs) = (if s = x then matchPath pat xs else None)"
| "matchPath (Param p # pat) (x # xs) = (if x = '''' then None else map_option (\<lambda>m. m(p \<mapsto> x)) (matchPath pat xs))"
| "matchPath pat path = None"

fun dispatch :: "'w route list \<Rightarrow> apiRequest \<Rightarrow> 'w \<Rightarrow> reply option \<times> 'w" where
  "dispatch [] rq w = (Some (404, PageBody ''404 page not found''), w)"
| "dispatch ((method, pat, h) # rs) rq w =
     (if method = rq_method rq
      then (case matchPath pat (rq_path rq) of Some params \<Rightarrow> h params rq Map.empty w | None \<Rightarrow> dispatch rs rq w)
      else dispatch rs rq w)"

section \<open>The middlewares around it\<close>

definition rateLimited :: "'w rateLimitConfig \<Rightarrow> (apiRequest \<Rightarrow> 'w \<Rightarrow> reply option \<times> 'w) \<Rightarrow> apiRequest \<Rightarrow> 'w \<Rightarrow> reply option \<times> 'w" where
  "rateLimited rl next rq w =
     (case rateLimitMiddleware rl (rq_clientIP rq) (nat (rq_now rq div 10 ^ 9)) w of
        (Some (status, e), w1) \<Rightarrow> (Some (status, ErrorBody e), w1)
      | (None, w1) \<Rightarrow> next rq w1)"

text \<open>The logging runs behind the rest of the request, so a panic skips it.\<close>

definition levelOf :: "nat \<Rightarrow> logLevel" where
  "levelOf status = (if 500 \<le> status then LogError else if 400 \<le> status then LogWarn else LogInfo)"

definition requestLogging :: "(apiRequest \<Rightarrow> 'w \<Rightarrow> reply option \<times> 'w) \<Rightarrow> apiRequest \<Rightarrow> 'w \<Rightarrow> reply option \<times> (logLevel \<times> nat) option \<times> 'w" where
  "requestLogging next rq w =
     (let (r, w') = next rq w in (r, map_option (\<lambda>(status, body). (levelOf status, status)) r, w'))"

definition corsHeaders :: "(string \<times> string) list" where
  "corsHeaders = [(''Access-Control-Allow-Origin'', ''*''), (''Access-Control-Allow-Methods'', ''GET, POST, PUT, DELETE, OPTIONS''),
     (''Access-Control-Allow-Headers'', ''Origin, Content-Type, Authorization''), (''Access-Control-Max-Age'', ''86400'')]"

definition corsMiddleware :: "(apiRequest \<Rightarrow> 'w \<Rightarrow> reply option \<times> (logLevel \<times> nat) option \<times> 'w) \<Rightarrow> apiRequest \<Rightarrow> 'w
    \<Rightarrow> reply option \<times> (logLevel \<times> nat) option \<times> 'w" where
  "corsMiddleware next rq w =
     (if rq_method rq = ''OPTIONS'' then (Some (204, NoBody), None, w) else next rq w)"

definition recovery :: "(apiRequest \<Rightarrow> 'w \<Rightarrow> reply option \<times> (logLevel \<times> nat) option \<times> 'w) \<Rightarrow> apiRequest \<Rightarrow> 'w \<Rightarrow> apiResponse \<times> 'w" where
  "recovery next rq w =
     (let (r, entry, w') = next rq w;
          (status, body) = (case r of None \<Rightarrow> (500, NoBody) | Some reply \<Rightarrow> reply)
      in (\<lparr>rs_status = status, rs_body = body, rs_headers = corsHeaders, rs_log = entry\<rparr>, w'))"

definition serve :: "authLib \<Rightarrow> ethLib \<Rightarrow> ginLib \<Rightarrow> 'w routerConfig \<Rightarrow> apiRequest \<Rightarrow> 'w \<Rightarrow> apiResponse \<times> 'w" where
  "serve lib eth gin rc =
     recovery (corsMiddleware (requestLogging (rateLimited (rc_rateLimit rc) (dispatch (routes lib eth gin rc)))))"

section \<open>\<open>cmd/api\<close>\<close>

definition stubAccountDB :: accountDB where
  "stubAccountDB = \<lparr>getPositionsDB = (\<lambda>user chain. Inr []), getTxHistoryDB = (\<lambda>user chain limit offset. Inr [])\<rparr>"

definition apiAuthConfig :: "string \<Rightarrow> authConfig" where
  "apiAuthConfig jwtSecret =
     \<lparr>secret = (if jwtSecret = '''' then ''dev-secret-change-in-production'' else jwtSecret),
      issuer = ''defi-lending'', expiration = 24 * 3600 * 10 ^ 9\<rparr>"

text \<open>The pools of the configured chains; without one the start panics.\<close>

definition apiMain :: "authLib \<Rightarrow> 'w marketEnv \<Rightarrow> string \<Rightarrow> string list \<Rightarrow> 'w routerConfig option" where
  "apiMain lib codec jwtSecret lendingPools =
     (case lendingPools of
        [] \<Rightarrow> None
      | pool # _ \<Rightarrow> Some \<lparr>rc_market = Some (stubMarketEnv codec),
          rc_account = Some \<lparr>ah_db = stubAccountDB, ah_auth = apiAuthConfig jwtSecret, ah_pool = parseHexAddress lib pool\<rparr>,
          rc_ws = None, rc_rateLimit = \<lparr>requestsPerMinute = 60, rateStore = None\<rparr>\<rparr>)"

section \<open>Every reply is well formed\<close>

definition wf_reply :: "reply \<Rightarrow> bool" where
  "wf_reply r \<longleftrightarrow> (case snd r of
      ErrorBody e \<Rightarrow> fst r \<in> {400, 401, 404, 429, 500}
    | PageBody p \<Rightarrow> fst r \<in> {200, 404}
    | NoBody \<Rightarrow> False
    | UpgradedBody \<Rightarrow> False
    | _ \<Rightarrow> fst r = 200)"

definition wf_result :: "reply option \<times> 'w \<Rightarrow> bool" where
  "wf_result x \<longleftrightarrow> (case fst x of None \<Rightarrow> True | Some r \<Rightarrow> wf_reply r)"

definition wf_handler :: "'w handler \<Rightarrow> bool" where
  "wf_handler h \<longleftrightarrow> (\<forall>params rq ctx w. wf_result (h params rq ctx w))"

lemma wf_simps [simp]:
  "wf_result (None, w)" "wf_result (Some r, w) = wf_reply r"
  "wf_reply (s, ErrorBody e) \<longleftrightarrow> s \<in> {400, 401, 404, 429, 500}" "wf_reply (s, PageBody p) \<longleftrightarrow> s \<in> {200, 404}"
  by (simp_all add: wf_result_def wf_reply_def)

text \<open>The error statuses of the handlers.\<close>

lemma handler_errors:
  "fst (listMarketsHandler env q w) = Inl (s, e) \<Longrightarrow> s \<in> {400, 500}"
  "fst (marketDetailHandler env p w) = Inl (s, e) \<Longrightarrow> s \<in> {400, 404}"
  "fst (marketHistoryHandler env p q w) = Inl (s, e) \<Longrightarrow> s \<in> {400, 500}"
  "login lib conf now body = Inl (s, e) \<Longrightarrow> s \<in> {400, 401, 500}"
  "jwtAuthMiddleware lib conf now hdr ctx = Inl (s, e) \<Longrightarrow> s = 401"
  "positionsHandler db ctx q = Some (Inl (s, e)) \<Longrightarrow> s = 500"
  "historyHandler db ctx q = Some (Inl (s, e)) \<Longrightarrow> s = 500"
  "buildTxHandler lib eth pool bd = Some (Inl (s, e)) \<Longrightarrow> s = 400"
         apply (auto simp: listMarketsHandler_def Let_def split: prod.splits sum.splits if_splits)[1]
        apply (auto simp: marketDetailHandler_def split: prod.splits sum.splits option.splits)[1]
       apply (auto simp: marketHistoryHandler_def split: prod.splits sum.splits option.splits)[1]
      apply (auto simp: login_def split: sum.splits if_splits)[1]
     apply (auto simp: jwtAuthMiddleware_def Let_def split: sum.splits if_splits)[1]
    apply (auto simp: positionsHandler_def split: sum.splits option.splits)[1]
   apply (auto simp: historyHandler_def split: sum.splits option.splits)[1]
  apply (auto simp: buildTxHandler_def split: sum.splits option.splits)[1]
  done

lemma wf_answer:
  assumes "\<And>s e. r = Inl (s, e) \<Longrightarrow> s \<in> {400, 401, 404, 429, 500}" and "\<And>x. wf_reply (200, body x)"
  shows "wf_reply (answer body r)"
  using assms by (cases r) (auto simp: answer_def)

lemma wf_bodies [simp]:
  "wf_reply (200, MarketsBody a)" "wf_reply (200, StateBody b)" "wf_reply (200, SnapshotsBody c)" "wf_reply (200, LoginBody d)"
  "wf_reply (200, OverviewBody f)" "wf_reply (200, EntriesBody g)" "wf_reply (200, TxBody h)" "wf_reply (200, StatusBody i)"
  by (simp_all add: wf_reply_def)

lemma wf_nobody: "\<not> wf_reply (s, NoBody)"
  by (simp add: wf_reply_def)

lemma wf_authed: "wf_handler h \<Longrightarrow> wf_handler (authed lib conf h)"
  by (auto simp: wf_handler_def authed_def split: sum.split dest: handler_errors(5))

lemma wf_marketRoutes: "(m, pat, h) \<in> set (marketRoutes env) \<Longrightarrow> wf_handler h"
  by (auto simp: marketRoutes_def wf_handler_def split: prod.split intro!: wf_answer dest!: arg_cong [of _ _ fst] handler_errors)

lemma wf_optional: "(\<And>r. x = Some r \<Longrightarrow> wf_reply (f r)) \<Longrightarrow> wf_result (map_option f x, w)"
  by (cases x) simp_all

lemma wf_accountRoutes: "(m, pat, h) \<in> set (accountRoutes lib eth gin ac) \<Longrightarrow> wf_handler h"
  by (auto simp: accountRoutes_def wf_handler_def intro!: wf_authed [unfolded wf_handler_def, rule_format] wf_optional wf_answer
      dest!: handler_errors)

lemma dispatch_wf: "\<forall>(m, pat, h)\<in>set rs. wf_handler h \<Longrightarrow> wf_result (dispatch rs rq w)"
  by (induction rs) (auto simp: wf_handler_def split: option.split)

lemma routes_wf: "rc_ws rc = None \<Longrightarrow> \<forall>(m, pat, h)\<in>set (routes lib eth gin rc). wf_handler h"
  by (auto simp: routes_def inGroup_def systemRoutes_def wf_handler_def[of "\<lambda>_ _ _ _. (Some _, _)"] split: option.splits
      dest: wf_marketRoutes wf_accountRoutes) (auto simp: wf_handler_def)

text \<open>What \<open>serve\<close> makes of what the inner part of the chain leaves.\<close>

definition inner :: "authLib \<Rightarrow> ethLib \<Rightarrow> ginLib \<Rightarrow> 'w routerConfig \<Rightarrow> apiRequest \<Rightarrow> 'w \<Rightarrow> reply option \<times> 'w" where
  "inner lib eth gin rc = rateLimited (rc_rateLimit rc) (dispatch (routes lib eth gin rc))"

lemma serve_inner:
  "serve lib eth gin rc rq w =
     (if rq_method rq = ''OPTIONS'' then (\<lparr>rs_status = 204, rs_body = NoBody, rs_headers = corsHeaders, rs_log = None\<rparr>, w)
      else case inner lib eth gin rc rq w of
          (None, w') \<Rightarrow> (\<lparr>rs_status = 500, rs_body = NoBody, rs_headers = corsHeaders, rs_log = None\<rparr>, w')
        | (Some (status, body), w') \<Rightarrow>
            (\<lparr>rs_status = status, rs_body = body, rs_headers = corsHeaders, rs_log = Some (levelOf status, status)\<rparr>, w'))"
  by (auto simp: serve_def recovery_def corsMiddleware_def requestLogging_def inner_def split: prod.split option.split)

lemma rateLimit_status: "fst (rateLimitMiddleware rl ip t w) = Some (s, e) \<Longrightarrow> s = 429"
  by (auto simp: rateLimitMiddleware_def split: option.splits prod.splits sum.splits if_splits)

lemma inner_wf: "rc_ws rc = None \<Longrightarrow> wf_result (inner lib eth gin rc rq w)"
proof -
  assume ws: "rc_ws rc = None"
  obtain r w1 where l: "rateLimitMiddleware (rc_rateLimit rc) (rq_clientIP rq) (nat (rq_now rq div 10 ^ 9)) w = (r, w1)" by fastforce
  show ?thesis
  proof (cases r)
    case None
    then show ?thesis using dispatch_wf [OF routes_wf [OF ws]] l by (simp add: inner_def rateLimited_def)
  next
    case (Some a)
    then have "fst a = 429" using rateLimit_status [of _ _ _ w "fst a" "snd a"] l by (metis fst_conv prod.collapse)
    then show ?thesis using Some l by (cases a) (simp add: inner_def rateLimited_def)
  qed
qed

section \<open>Which handler serves a path\<close>

lemma matchPath_lits: "matchPath (map Lit xs) ys = (if xs = ys then Some Map.empty else None)"
  by (induction xs arbitrary: ys; case_tac ys) auto

lemma route_positions:
  assumes "rc_account rc = Some h" and "rq_method rq = ''GET''" and "rq_path rq = [''api'', ''v1'', ''account'', ''positions'']"
  shows "dispatch (routes lib eth gin rc) rq w =
    authed lib (ah_auth h) (\<lambda>params rq ctx w. (map_option (answer OverviewBody) (positionsHandler (ah_db h) ctx (rq_query rq)), w))
      Map.empty rq Map.empty w"
  using assms by (cases "rc_market rc") (simp_all add: routes_def systemRoutes_def inGroup_def marketRoutes_def accountRoutes_def)

lemma route_login:
  assumes "rc_account rc = Some h" and "rq_method rq = ''POST''" and "rq_path rq = [''api'', ''v1'', ''auth'', ''login'']"
  shows "dispatch (routes lib eth gin rc) rq w =
    (Some (answer LoginBody (login lib (ah_auth h) (rq_now rq) (bindLogin gin (rq_body rq)))), w)"
  using assms by (cases "rc_market rc") (simp_all add: routes_def systemRoutes_def inGroup_def marketRoutes_def accountRoutes_def)

text \<open>A path below \<open>account\<close> without an accepted token gets as far as the token check or to no handler.\<close>

lemma route_account:
  assumes "rq_path rq = ''api'' # ''v1'' # ''account'' # rest"
    and "\<And>h. rc_account rc = Some h \<Longrightarrow> isl (jwtAuthMiddleware lib (ah_auth h) (rq_now rq) (rq_authorization rq) Map.empty)"
  shows "\<exists>s b. dispatch (routes lib eth gin rc) rq w = (Some (s, b), w) \<and> (s = 401 \<or> s = 404)"
proof -
  define msg where "msg h = snd (projl (jwtAuthMiddleware lib (ah_auth h) (rq_now rq) (rq_authorization rq) Map.empty))" for h :: accountHandlerConfig
  have a: "authed lib (ah_auth h) f params rq Map.empty w = (Some (401, ErrorBody (msg h)), w)" if "rc_account rc = Some h" for h f params
    using assms(2) [OF that] handler_errors(5) [of lib "ah_auth h" "rq_now rq" "rq_authorization rq" Map.empty]
    by (auto simp: authed_def isl_def msg_def)
  show ?thesis
    using assms(1)
    by (cases "rc_market rc"; cases "rc_account rc"; cases "rc_ws rc")
       (auto simp: routes_def systemRoutes_def inGroup_def marketRoutes_def accountRoutes_def wsRoutes_def a split: option.split)
qed

section \<open>Properties\<close>


text \<open>A running server to apply the properties to.\<close>

definition demoGin :: ginLib where
  "demoGin = \<lparr>bindLogin = (\<lambda>s. Inr demoLogin), bindTx = (\<lambda>s. Inl ''EOF''), metricsPage = ''# HELP''\<rparr>"

definition demoRouter :: "ttlWorld routerConfig" where
  "demoRouter = the (apiMain demoAuth demoMarketEnv ''s'' [''Ab''])"

lemma demoRouter_main: "apiMain demoAuth demoMarketEnv ''s'' [''Ab''] = Some demoRouter"
  by (simp add: demoRouter_def apiMain_def)

definition demoRequest :: "string \<Rightarrow> string list \<Rightarrow> string \<Rightarrow> int \<Rightarrow> apiRequest" where
  "demoRequest method path auth t = \<lparr>rq_method = method, rq_path = path, rq_authorization = auth, rq_query = (\<lambda>_. None),
     rq_body = ''{}'', rq_clientIP = ''10.0.0.1'', rq_now = t\<rparr>"




text \<open>C10: A session with the server that \<open>cmd/api\<close> starts: once a log-in was answered with a token, every request
  for the positions that carries it within the day is answered, with the overview of the lower case
  address that logged in, and from the expiry on with 401.\<close>

theorem api_session:
  assumes "apiMain lib codec jwtSecret pools = Some rc" and "jwt_ok lib"
    and "rq_method rq = ''POST''" and "rq_path rq = [''api'', ''v1'', ''auth'', ''login'']"
    and "rs_body (fst (serve lib eth gin rc rq w)) = LoginBody lr"
    and "rq_method rq' = ''GET''" and "rq_path rq' = [''api'', ''v1'', ''account'', ''positions'']"
    and "rq_authorization rq' = ''Bearer '' @ lr_token lr"
  shows "if rq_now rq' < (rq_now rq + 24 * 3600 * 10 ^ 9) div 10 ^ 9 * 10 ^ 9
    then rs_status (fst (serve lib eth gin rc rq' w')) = 200
      \<and> (\<exists>ov. rs_body (fst (serve lib eth gin rc rq' w')) = OverviewBody ov \<and> ao_address ov = toLower (lr_address lr))
    else rs_status (fst (serve lib eth gin rc rq' w')) = 401"
proof -
  obtain h where h: "rc_account rc = Some h" and a: "ah_auth h = apiAuthConfig jwtSecret" and db: "ah_db h = stubAccountDB"
      and rl: "rateStore (rc_rateLimit rc) = None"
    using assms(1) by (auto simp: apiMain_def split: list.splits)
  have i: "inner lib eth gin rc q v = dispatch (routes lib eth gin rc) q v" for q v
    by (simp add: inner_def rateLimited_def rateLimitMiddleware_def rl)
  have "login lib (ah_auth h) (rq_now rq) (bindLogin gin (rq_body rq)) = Inr lr"
    using assms(3-5) route_login [OF h assms(3,4), of lib eth gin w]
    by (auto simp: serve_inner i answer_def split: sum.splits)
  then have g: "generateJWT lib (ah_auth h) (rq_now rq) (lr_address lr) = Inr (lr_token lr)"
    by (auto simp: login_def split: sum.splits if_splits)
  have e: "expiration (ah_auth h) = 24 * 3600 * 10 ^ 9" by (simp add: a apiAuthConfig_def)
  note t = issued_token [OF assms(2) g, of "rq_now rq'" Map.empty, unfolded e]
  show ?thesis
  proof (cases "rq_now rq' < (rq_now rq + 24 * 3600 * 10 ^ 9) div 10 ^ 9 * 10 ^ 9")
    case True
    then show ?thesis using t(1) assms(6) route_positions [OF h assms(6,7), of lib eth gin w']
      by (simp add: serve_inner i assms(8) authed_def positionsHandler_def setWallet_def getOverview_def db stubAccountDB_def answer_def Let_def)
  next
    case False
    then show ?thesis using t(2) assms(6) route_positions [OF h assms(6,7), of lib eth gin w']
      by (simp add: serve_inner i assms(8) authed_def)
  qed
qed

theorem api_session_witness:
  "\<exists>token. rs_body (fst (serve demoAuth exampleEth demoGin demoRouter
        (demoRequest ''POST'' [''api'', ''v1'', ''auth'', ''login''] [] 0) demoCached)) = LoginBody \<lparr>lr_token = token, lr_address = ''Ab''\<rparr>
     \<and> rs_status (fst (serve demoAuth exampleEth demoGin demoRouter
        (demoRequest ''GET'' [''api'', ''v1'', ''account'', ''positions''] (''Bearer '' @ token) 5) demoCached)) = 200
     \<and> rs_status (fst (serve demoAuth exampleEth demoGin demoRouter
        (demoRequest ''GET'' [''api'', ''v1'', ''account'', ''positions''] (''Bearer '' @ token) (10 ^ 20)) demoCached)) = 401"
proof -
  let ?post = "demoRequest ''POST'' [''api'', ''v1'', ''auth'', ''login''] [] 0"
  obtain h where h: "rc_account demoRouter = Some h" and a: "ah_auth h = apiAuthConfig ''s''" and rl: "rateStore (rc_rateLimit demoRouter) = None"
    by (simp add: demoRouter_def apiMain_def)
  have "apiAuthConfig ''s'' = demoConf" by (simp add: apiAuthConfig_def demoConf_def)
  then obtain token where l: "login demoAuth (ah_auth h) 0 (Inr demoLogin) = Inr \<lparr>lr_token = token, lr_address = ''Ab''\<rparr>"
    using demoLogin_ok [of 0] a by simp
  have p: "rq_method ?post = ''POST''" "rq_path ?post = [''api'', ''v1'', ''auth'', ''login'']" by (simp_all add: demoRequest_def)
  have b: "rs_body (fst (serve demoAuth exampleEth demoGin demoRouter ?post demoCached)) = LoginBody \<lparr>lr_token = token, lr_address = ''Ab''\<rparr>"
    using route_login [OF h p, of demoAuth exampleEth demoGin demoCached] l
    by (simp add: serve_inner inner_def rateLimited_def rateLimitMiddleware_def rl demoRequest_def demoGin_def answer_def)
  let ?get = "\<lambda>t. demoRequest ''GET'' [''api'', ''v1'', ''account'', ''positions''] (''Bearer '' @ token) t"
  have q: "rq_method (?get t) = ''GET''" "rq_path (?get t) = [''api'', ''v1'', ''account'', ''positions'']"
      "rq_authorization (?get t) = ''Bearer '' @ lr_token \<lparr>lr_token = token, lr_address = ''Ab''\<rparr>" "rq_now (?get t) = t" for t
    by (simp_all add: demoRequest_def)
  note s = api_session [OF demoRouter_main demoAuth_jwt p b q(1-3), of _ demoCached, unfolded q(4)]
  have "(rq_now ?post + 24 * 3600 * 10 ^ 9) div 10 ^ 9 * 10 ^ 9 = 86400000000000" by (simp add: demoRequest_def)
  then show ?thesis using s [of 5] s [of "10 ^ 20"] b by auto
qed

text \<open>The server that \<open>cmd/api\<close> starts limits nobody: it gives the limiter no store, so no request is
  ever answered with 429, however many there are, although its limit says sixty a minute.\<close>

theorem api_never_limits:
  assumes "apiMain lib codec jwtSecret pools = Some rc"
  shows "requestsPerMinute (rc_rateLimit rc) = 60 \<and> rateLimited (rc_rateLimit rc) next rq w = next rq w"
  using assms by (auto simp: apiMain_def rateLimited_def rateLimitMiddleware_def split: list.splits)

theorem api_never_limits_witness:
  "rateLimited (rc_rateLimit demoRouter) (dispatch []) (demoRequest ''GET'' [] [] 0) demoCached
     = dispatch [] (demoRequest ''GET'' [] [] 0) demoCached"
  using api_never_limits [OF demoRouter_main] by simp

end
