(* ===== verification/Programs.thy ===== *)
theory Programs
  imports Indexer Liquidator Worker Api
begin

text \<open>
  The \<open>main\<close> functions: from the configuration to the running program, and for the indexer to its end. A panic
  and a fatal log entry end the process at once, without the deferred calls; \<open>Finished\<close> is the way through
  them.
\<close>

datatype 'a programExit = Panicked | Fatal err | Finished 'a

section \<open>The indexer\<close>

text \<open>What is not the program's: how the configuration is read, the node, the closing of the Kafka writer, the
  order in which the map of the adapters is walked, and the headers and answers the goroutines get while
  they run, with what that does to the world.\<close>

record ('v, 'w, 'q, 'a, 'm) indexerOutside =
  ioViper :: "'v viperLib"
  ioRpc :: "('w, 'q, 'a) rpcLib"
  ioEvm :: evmLib
  ioKafka :: "('m, 'w) kafkaLib"
  ioAdapterOrder :: "(chainId, evmClient) fmap \<Rightarrow> evmClient list"
  ioEventOrder :: "(eventType \<times> string) list"
  ioTurns :: "'w \<Rightarrow> (chainId \<times> nodeTurn \<times> nodeHeader option) list"
  ioDuring :: "'w \<Rightarrow> 'w"

text \<open>\<open>Run\<close> returns when the context is cancelled, with an error that \<open>main\<close> accepts. The deferred calls run in
  reverse order: the writer, then the adapters.\<close>

definition indexerMain :: "('v, 'w, 'q, 'a, 'm) indexerOutside \<Rightarrow> string \<Rightarrow> 'w \<Rightarrow> (evmClient, memStore) indexerService programExit \<times> 'w" where
  "indexerMain out configPath w =
     (case loadConfig (ioViper out) configPath of
        Inl e \<Rightarrow> (Panicked, w)
      | Inr conf \<Rightarrow>
          (case buildAdapters (ioRpc out) (cf_chains conf) fmempty w of
             (Inl e, w1) \<Rightarrow> (Fatal ''failed to create chain client'', w1)
           | (Inr adapters, w1) \<Rightarrow>
               (let writer = newProducer (cf_kafka conf) (kt_chainEvents (kf_topics (cf_kafka conf))) in
                case newService (ioEvm out) (ioEventOrder out) adapters (cf_chains conf) newInMemoryStore of
                  Inl e \<Rightarrow> (Fatal ''failed to create indexer service'', w1)
                | Inr sv \<Rightarrow>
                    (let sv' = runIndexer (ioEvm out) inMemoryStore (ioTurns out w1) sv;
                         w2 = snd (closeProducer (ioKafka out) writer (ioDuring out w1))
                     in (Finished sv', closeAdapters (ioRpc out) (ioAdapterOrder out adapters) w2)))))"

lemma serviceTurn_dom: "fmdom' (is_chains (serviceTurn lib st turn sv)) = fmdom' (is_chains sv)"
proof -
  obtain cid t nho where "turn = (cid, t, nho)" by (metis prod_cases3)
  then show ?thesis by (cases nho) (auto simp: Let_def fmlookup_dom'_iff split: option.split)
qed

lemma runIndexer_dom: "fmdom' (is_chains (runIndexer lib st turns sv)) = fmdom' (is_chains sv)"
  by (induction turns arbitrary: sv) (simp_all add: runIndexer_def serviceTurn_dom)

text \<open>What is assumed of the outside: connections behave, neither the run nor the writer opens or closes one of
  the chain clients', and walking the map meets every adapter.\<close>

definition outside_ok :: "('v, 'w, 'q, 'a, 'm) indexerOutside \<Rightarrow> ('w \<Rightarrow> conn set) \<Rightarrow> bool" where
  "outside_ok out opened \<longleftrightarrow> conn_ok (ioRpc out) opened
     \<and> (\<forall>p w. opened (snd (closeProducer (ioKafka out) p w)) = opened w) \<and> (\<forall>w. opened (ioDuring out w) = opened w)
     \<and> (\<forall>m. set (ioAdapterOrder out m) = fmran' m)"

text \<open>C30: The indexer program from start to end. It panics only when the configuration cannot be read, and ends
  fatally only when a client of a chain cannot be made; making the service never fails then. Otherwise it
  serves exactly the configured chains, and when it is told to stop it leaves no connection open that it
  opened, provided no two chains of the configuration have one identifier.\<close>

theorem indexer_program:
  assumes "outside_ok out opened" and "indexerMain out configPath w = (r, w')"
  shows "case r of
      Panicked \<Rightarrow> isl (loadConfig (ioViper out) configPath) \<and> w' = w
    | Fatal e \<Rightarrow> e = ''failed to create chain client'' \<and> (\<exists>conf. loadConfig (ioViper out) configPath = Inr conf
        \<and> isl (fst (buildAdapters (ioRpc out) (cf_chains conf) fmempty w)))
    | Finished sv \<Rightarrow> (\<exists>conf. loadConfig (ioViper out) configPath = Inr conf
        \<and> fmdom' (is_chains sv) = cc_chainID ` set (cf_chains conf)
        \<and> (distinct (map cc_chainID (cf_chains conf)) \<longrightarrow> opened w' = opened w))"
proof (cases "loadConfig (ioViper out) configPath")
  case (Inl e)
  then show ?thesis using assms(2) by (auto simp: indexerMain_def)
next
  case (Inr conf)
  obtain b w1 where b: "buildAdapters (ioRpc out) (cf_chains conf) fmempty w = (b, w1)" by (metis surj_pair)
  show ?thesis
  proof (cases b)
    case (Inl e)
    then show ?thesis using assms(2) Inr b by (auto simp: indexerMain_def)
  next
    case ad: (Inr adapters)
    obtain sv where sv: "newService (ioEvm out) (ioEventOrder out) adapters (cf_chains conf) newInMemoryStore = Inr sv"
        "fmdom' (is_chains sv) = cc_chainID ` set (cf_chains conf)"
      using newService_total [OF b [unfolded ad], of "ioEvm out" "ioEventOrder out" newInMemoryStore] by blast
    define w2 where "w2 = snd (closeProducer (ioKafka out) (newProducer (cf_kafka conf) (kt_chainEvents (kf_topics (cf_kafka conf)))) (ioDuring out w1))"
    have r: "r = Finished (runIndexer (ioEvm out) inMemoryStore (ioTurns out w1) sv)"
        "w' = closeAdapters (ioRpc out) (ioAdapterOrder out adapters) w2"
      using assms(2) Inr b ad sv(1) by (simp_all add: indexerMain_def Let_def w2_def)
    have "opened w' = opened w" if d: "distinct (map cc_chainID (cf_chains conf))"
    proof -
      have ok: "conn_ok (ioRpc out) opened" and order: "set (ioAdapterOrder out adapters) = fmran' adapters" and w2: "opened w2 = opened w1"
        using assms(1) by (simp_all add: outside_ok_def w2_def)
      have "opened w = opened w \<union> connsOfAll fmempty" "connsOfAll fmempty \<inter> opened w = {}" by (simp_all add: connsOfAll_def fmran'_alt_def)
      then have "opened w1 = opened w \<union> connsOfAll adapters" "connsOfAll adapters \<inter> opened w = {}"
        using buildAdapters_conns [OF ok b [unfolded ad] d] by simp_all
      then show ?thesis using closeAdapters_conns [OF ok] r(2) order w2 by (auto simp: connsOfAll_def)
    qed
    then show ?thesis using Inr sv(2) r(1) by (simp add: runIndexer_dom)
  qed
qed

section \<open>The other programs\<close>

definition liquidatorProgram :: "'v viperLib \<Rightarrow> string \<Rightarrow> liqService programExit" where
  "liquidatorProgram viper configPath =
     (case loadConfig viper configPath of
        Inl e \<Rightarrow> Panicked
      | Inr conf \<Rightarrow> (case liquidatorStart (map cc_chainID (cf_chains conf)) of None \<Rightarrow> Panicked | Some s \<Rightarrow> Finished s))"

text \<open>The liquidator from its configuration to the signal that ends it, with its ticks until then; \<open>Run\<close> returns the
  error of the cancelled context, which \<open>main\<close> accepts.\<close>

definition liquidatorMain :: "'v viperLib \<Rightarrow> ethLib \<Rightarrow> (ethTx \<Rightarrow> hash) \<Rightarrow> (nat \<Rightarrow> bool) \<Rightarrow> i64 \<Rightarrow> string
    \<Rightarrow> (i64 \<times> address list \<times> address list) list \<Rightarrow> (liqService \<times> ethTx list) programExit" where
  "liquidatorMain viper eth hashOf cancelled now configPath ticks =
     (case liquidatorProgram viper configPath of
        Panicked \<Rightarrow> Panicked
      | Fatal e \<Rightarrow> Fatal e
      | Finished s \<Rightarrow>
          (case runService eth cancelled (\<lambda>_. stubChainEnv hashOf now) ticks s of
             None \<Rightarrow> Panicked
           | Some r \<Rightarrow> Finished r))"

text \<open>With a configuration that names a chain it runs to its end, and sends nothing: its scanner stays empty.\<close>

lemma liquidator_program:
  assumes "\<forall>(now, order, order')\<in>set ticks. order = [] \<and> order' = []"
  shows "case liquidatorMain viper eth hashOf cancelled now configPath ticks of
      Panicked \<Rightarrow> (\<forall>conf. loadConfig viper configPath = Inr conf \<longrightarrow> cf_chains conf = [])
    | Fatal e \<Rightarrow> False
    | Finished (s, txs) \<Rightarrow> txs = [] \<and> (\<exists>conf. loadConfig viper configPath = Inr conf
        \<and> liquidatorStart (map cc_chainID (cf_chains conf)) = Some s)"
proof (cases "loadConfig viper configPath")
  case (Inl e)
  then show ?thesis by (simp add: liquidatorMain_def liquidatorProgram_def)
next
  case (Inr conf)
  show ?thesis
  proof (cases "liquidatorStart (map cc_chainID (cf_chains conf))")
    case None
    then show ?thesis using Inr
      by (auto simp: liquidatorMain_def liquidatorProgram_def liquidatorStart_def newLiqService_def liquidatorConfig_def split: list.splits)
  next
    case (Some s)
    then have "positions (svcScanner s) = fmempty" by (auto simp: liquidatorStart_def newLiqService_def newScanner_def)
    then have "\<forall>(now, order, order')\<in>set ticks. set order = fmdom' (positions (svcScanner s)) \<and> set order' = set order"
      using assms by auto
    note run = liquidator_idle [OF Some this]
    show ?thesis using Inr Some by (simp add: liquidatorMain_def liquidatorProgram_def run)
  qed
qed

definition apiProgram :: "'v viperLib \<Rightarrow> authLib \<Rightarrow> 'w marketEnv \<Rightarrow> string \<Rightarrow> string \<Rightarrow> 'w routerConfig programExit" where
  "apiProgram viper lib codec jwtSecret configPath =
     (case loadConfig viper configPath of
        Inl e \<Rightarrow> Panicked
      | Inr conf \<Rightarrow> (case apiMain lib codec jwtSecret (map cc_lendingPool (cf_chains conf)) of
          None \<Rightarrow> Panicked | Some rc \<Rightarrow> Finished rc))"

text \<open>The server around the router of \<open>cmd/api\<close>; times are in nanoseconds.\<close>

record httpServer =
  hs_addr :: string
  hs_readTimeout :: int
  hs_writeTimeout :: int
  hs_idleTimeout :: int

definition apiServer :: "config \<Rightarrow> httpServer" where
  "apiServer conf = \<lparr>hs_addr = sv_host (cf_server conf) @ '':'' @ show_int (sint (sv_port (cf_server conf))),
     hs_readTimeout = 15 * 10 ^ 9, hs_writeTimeout = 15 * 10 ^ 9, hs_idleTimeout = 60 * 10 ^ 9\<rparr>"

text \<open>From the running server to the end of the program. \<open>listened\<close> is what \<open>ListenAndServe\<close> has returned before the
  signal, if it has (no error stands for the one of a closed server, too), \<open>shutdown\<close> what the shutdown returns; the
  last entries of the log are given.\<close>

definition apiEnd :: "err option option \<Rightarrow> err option \<Rightarrow> string list programExit" where
  "apiEnd listened shutdown =
     (case listened of
        Some (Some e) \<Rightarrow> Fatal ''server error''
      | _ \<Rightarrow> Finished ((if shutdown = None then [] else [''server shutdown error'']) @ [''api server stopped'']))"

text \<open>A server that stops without an error leaves the program waiting for the signal; only one that fails ends it.\<close>

lemma apiEnd_fatal: "apiEnd listened shutdown = Fatal e \<longleftrightarrow> (\<exists>e'. listened = Some (Some e')) \<and> e = ''server error''"
  by (auto simp: apiEnd_def split: option.splits)

definition workerProgram :: "'v viperLib \<Rightarrow> string \<Rightarrow> 'w riskEnv \<Rightarrow> 'w \<Rightarrow> 'w option list \<Rightarrow> rule list programExit" where
  "workerProgram viper configPath env w ws =
     (case loadConfig viper configPath of Inl e \<Rightarrow> Panicked | Inr conf \<Rightarrow> Finished (workerMain env w ws))"

text \<open>A configuration without chains is good enough for the worker and the indexer, which then has nothing to do;
  the liquidator and the API panic at the first chain's entry.\<close>

lemma programs_without_chains:
  assumes "loadConfig viper path = Inr conf"
  shows "liquidatorProgram viper path = Panicked \<longleftrightarrow> cf_chains conf = []"
    and "apiProgram viper lib codec jwt path = Panicked \<longleftrightarrow> cf_chains conf = []"
    and "workerProgram viper path (workerRiskEnv ck) s ws = Finished stubRules"
  using assms
  by (auto simp: liquidatorProgram_def apiProgram_def workerProgram_def workerMain_rules liquidatorStart_def newLiqService_def liquidatorConfig_def apiMain_def
      split: list.split)

section \<open>Example\<close>

definition demoConfig :: config where
  "demoConfig = \<lparr>cf_server = \<lparr>sv_host = [], sv_port = 8080\<rparr>,
     cf_database = \<lparr>db_host = [], db_port = 0, db_user = [], db_password = [], db_dbName = [], db_maxOpenConns = 0, db_maxIdleConns = 0,
       db_connMaxLifetime = []\<rparr>,
     cf_redis = \<lparr>rd_addr = [], rd_password = [], rd_db = 0\<rparr>,
     cf_kafka = \<lparr>kf_brokers = [], kf_topics = \<lparr>kt_chainEvents = ''e'', kt_priceUpdates = ''p'', kt_notifications = ''n''\<rparr>\<rparr>,
     cf_chains = [demoChain 1 ''ws'', demoChain 2 ''''], cf_log = \<lparr>lc_level = ''info'', lc_format = ''json''\<rparr>\<rparr>"

definition adapterList :: "(chainId, evmClient) fmap \<Rightarrow> evmClient list" where
  "adapterList m = map (the \<circ> fmlookup m) (sorted_list_of_fset (fmdom m))"

lemma adapterList_set: "set (adapterList m) = fmran' m"
proof -
  have "set (adapterList m) = (the \<circ> fmlookup m) ` fset (fmdom m)" by (simp add: adapterList_def)
  also have "\<dots> = fmran' m" by (force simp: fmlookup_ran'_iff fmlookup_dom_iff image_iff)
  finally show ?thesis .
qed

definition demoOutside :: "(unit, conn set \<times> nat, unit, unit, unit) indexerOutside" where
  "demoOutside = \<lparr>ioViper = \<lparr>readInConfig = (\<lambda>_. Inr ()), unmarshalConfig = (\<lambda>_. Inr demoConfig)\<rparr>, ioRpc = demoRpc, ioEvm = exampleEvm,
     ioKafka = \<lparr>readMessage = (\<lambda>c w. (Inr (), w)), closeWriter = (\<lambda>p w. (None, w)), closeReader = (\<lambda>c w. (None, w))\<rparr>, ioAdapterOrder = adapterList, ioEventOrder = eventDefs,
     ioTurns = (\<lambda>w. []), ioDuring = (\<lambda>w. w)\<rparr>"

theorem indexer_program_witness:
  "\<exists>sv w'. indexerMain demoOutside ''c.yaml'' ({}, 0) = (Finished sv, w') \<and> fmdom' (is_chains sv) = {1, 2} \<and> demoOpened w' = {}"
proof -
  have l: "loadConfig (ioViper demoOutside) ''c.yaml'' = Inr demoConfig" by (simp add: loadConfig_def demoOutside_def)
  obtain r w' where m: "indexerMain demoOutside ''c.yaml'' ({}, 0) = (r, w')" by (metis surj_pair)
  have c: "cc_chainID ` set (cf_chains demoConfig) = {1, 2}" "distinct (map cc_chainID (cf_chains demoConfig))"
    by (auto simp: demoConfig_def demoChain_def)
  have "outside_ok demoOutside demoOpened"
    using demoRpc_ok by (simp add: outside_ok_def demoOutside_def adapterList_set closeProducer_def)
  note p = indexer_program [OF this m]
  have b: "\<not> isl (fst (buildAdapters (ioRpc demoOutside) (cf_chains demoConfig) fmempty ({}, 0)))"
    by (simp add: demoOutside_def demoConfig_def demoChain_def newClient_def demoRpc_def demoDial_def)
  show ?thesis
  proof (cases r)
    case (Finished sv)
    then show ?thesis using p l c m by (auto simp: demoOpened_def)
  qed (use p l b in auto)
qed

end
