(* ===== verification/Spec2Isabelle.thy ===== *)
theory Spec2Isabelle
  imports LiquidationInterleaved HealthAccuracy IndexerFeed Connection NotifyInterleaved Oracle Programs
begin

text \<open>
  A verification development for the DeFi lending backend: an indexer that follows the lending pools of
  several chains, a price oracle, a liquidation engine, a worker with a risk engine and notifications,
  and the HTTP and websocket API.

  \<^bold>\<open>The programs and how their parts interact.\<close>
  \<^item> \<open>cmd/indexer\<close>: a chain client per chain (\<open>internal/chain/evm\<close>), the block listener that turns it into a
    sequence of headers, the reorg detector, the event parser, the consumer with its store, and the
    service that runs a header through all of them and publishes the events.
  \<^item> \<open>cmd/liquidator\<close>: the liquidation service scans the positions of the scanner, which gets the interest
    indices from the rate computer, and has the executor send a transaction for every unhealthy one.
  \<^item> \<open>cmd/worker\<close>: the risk engine checks what happens against its rules and hands risk events to a bridge,
    which turns them into notifications of the notification service.
  \<^item> \<open>cmd/api\<close>: the router with its middlewares, the market service behind a cache, the account service behind
    the token check, and the websocket hub.

  \<^bold>\<open>Theories and sources.\<close>
  \<^item> \<open>Prelude\<close>: names of machine types, Go's division, facts on maps; \<open>GoStrings\<close>, \<open>GoBytes\<close>, \<open>GoFloat\<close>, \<open>GoText\<close>,
    \<open>GoHeap\<close>: what the code uses of Go's library: numerals, slices and big-endian numbers, \<open>big.Float\<close> and
    \<open>float64\<close>, \<open>strconv\<close>, \<open>strings\<close>, \<open>fmt\<close>, \<open>time.ParseDuration\<close>, \<open>container/heap\<close>.
  \<^item> \<open>WadRay\<close>: \<open>internal/common/math/wadray.go\<close>. \<open>RateComputer\<close>: \<open>internal/liquidation/ratecomputer/model.go\<close>.
    \<open>Scanner\<close>: \<open>internal/liquidation/scanner/scanner.go\<close>. \<open>Executor\<close>: \<open>internal/liquidation/executor/executor.go\<close>.
    \<open>LiquidationService\<close>: \<open>internal/liquidation/service.go\<close>. \<open>LiquidationInterleaved\<close>: a scan
    with other goroutines between its parts. \<open>HealthAccuracy\<close>: the health factor and the scan against the exact
    quantities, without rounding. \<open>Liquidator\<close>: \<open>Run\<close> and \<open>cmd/liquidator/main.go\<close>.
  \<^item> \<open>ChainTypes\<close>: \<open>internal/common/types/types.go\<close>. \<open>ReorgDetector\<close>, \<open>EventParser\<close>, \<open>EventConsumer\<close>, \<open>BlockListener\<close>,
    \<open>IndexerService\<close>: \<open>internal/indexer\<close> and the store of \<open>cmd/indexer/main.go\<close>. \<open>Indexer\<close>: \<open>NewService\<close> and \<open>Run\<close>, the
    goroutines of all chains over one store, with the header and the query of a turn. \<open>IndexerFeed\<close>: the listener's subscription feeding the service.
  \<^item> \<open>Oracle\<close>: \<open>internal/oracle\<close>. \<open>Notification\<close>: \<open>internal/notification\<close>; \<open>NotifyInterleaved\<close>: its calls from several goroutines. \<open>Risk\<close>: \<open>internal/risk\<close>. \<open>Worker\<close>: \<open>cmd/worker/main.go\<close>.
  \<^item> \<open>Auth\<close>: \<open>auth.go\<close> and \<open>ratelimit.go\<close> of \<open>internal/api/middleware\<close>. \<open>Market\<close>: \<open>internal/market\<close>. \<open>Account\<close>: \<open>internal/account\<close>.
    \<open>Hub\<close>: \<open>internal/api/websocket\<close>; \<open>HubSystem\<close>: the hub with its goroutines, lookups and sends apart; \<open>Connection\<close>: the upgrade
    of a request and the pumps of a connection, in time. \<open>Api\<close>: \<open>internal/api/router.go\<close>, \<open>cors.go\<close>, \<open>logging.go\<close> and \<open>cmd/api/main.go\<close>.
  \<^item> \<open>Infra\<close>: \<open>internal/common/config\<close> and \<open>logger\<close>, \<open>internal/chain/evm\<close>, \<open>internal/infra\<close> and the adapters of
    \<open>cmd/indexer/main.go\<close>. \<open>Programs\<close>: the four \<open>main\<close> functions, from the configuration on.

  \<^bold>\<open>How the code is read.\<close> A struct is a record, an operation a function on the state that returns the new one. A
  panic is \<open>None\<close>, an error result \<open>Inl\<close> of a sum. Integers of fixed width are words, \<open>*big.Int\<close> is \<open>int\<close>, a
  \<open>big.Float\<close> a rational rounded to its precision. What is not in the repository (go-ethereum, the node, Redis,
  Kafka, the database, gin, the JWT library, the JSON codec) is a record of functions, mostly over a state \<open>'w\<close>
  of the outside world, with what the code relies on as named predicates (\<open>eth_ok\<close>, \<open>signer_ok\<close>, \<open>node_ok\<close>,
  \<open>jwt_ok\<close>, \<open>conn_ok\<close>, \<open>counting\<close>, \<open>reads_ok\<close>) or as the laws of a locale. Go's order of map iteration is a list argument.
  Calls that hold one lock are one step; interleavings are sequences of steps. Where an operation gives the lock
  up in the middle, a first theory takes it as one step, which is what an undisturbed caller sees, and a second one
  takes it apart (\<open>LiquidationInterleaved\<close>, \<open>HubSystem\<close>, \<open>NotifyInterleaved\<close>); the undisturbed step is a run of
  its parts. A turn of the indexer, one header
  of one chain, is a step too: in the middle of it a chain touches its own detector and its own key only.

  \<^bold>\<open>What the lemmas show.\<close>
  \<^item> Arithmetic: rounding, monotonicity and bounds of the wad and ray operations; rates stay non-negative and
    indices never fall, over any sequence of events and calibrations.
  \<^item> The scanner refines a finite map from users to positions, its heap keeps its order, and the reported
    positions are exactly the unhealthy ones. A scan sends only transactions for positions below water, and
    for all of them; the executor's calldata is the ABI encoding, its nonces never repeat. Scans do not
    know what is in flight, so they repeat themselves; among other goroutines a scan sends for a position
    nobody touches meanwhile only if it met it below water, but it does not see that one has recovered since;
    and the program as it is wired has no positions. In exact terms: a position that is liquidated has less
    weighted collateral than debt, or more by at most the rounding, which is bounded, and one that is short by more is liquidated.
  \<^item> The listener skips and repeats nothing while it polls, and its loop ends but for one block number; the
    detector tracks a chain and holds a bounded window; the parser is total and reads back what the
    contracts emit; the sync status follows the feed. Where blocks or events get lost is proved as well.
    Put together: the service has an entry for each configured chain, every interleaving gives a chain what its
    own turns give it, and as long as a chain's logs can be read and published, each of its events is
    published exactly once, in order. Under a subscription nothing is missed either, but a block may be indexed twice:
    one that arrives while the gap is filled, and after a broken subscription all that it had delivered.
  \<^item> Prices that are saved are positive, and the cache gives the last one. Notifications of one kind and user are
    spaced by the cooldown, but for calls that overlap; the engine emits exactly the events of the rules that
    fire; the worker's alert for a large transaction is exact in spite of its floating point arithmetic, and
    alerts mask each other.
  \<^item> The rate limit lets through exactly its number of requests in a minute of the clock; a token opens the
    account it was issued for until it expires; without one nothing below \<open>account\<close> is served; the market list is
    never older than half a minute; every response is well formed. The hub refines a registry of members and
    subscriptions; it can panic exactly when it has removed a client to whom a message is in flight or whose
    read pump still runs, and it is proved that both happen. The constants of a connection fit together: a peer that
    answers its pings within six seconds is not timed out, and one that stops answering is read for less than a minute
    more, whatever commands it sends.
  \<^item> Programs: the indexer serves exactly the configured chains, fails only for a configuration it cannot read or
    a client it cannot make, and leaves no connection open if its chains have different identifiers; the API and the liquidator need a chain to
    start, and the liquidator then runs without sending anything.

  \<^bold>\<open>Locales.\<close> \<open>heap_interface\<close> and its extension (\<open>GoHeap\<close>, interpreted on the scanner's heap), \<open>index_provider\<close>
  (\<open>Scanner\<close>, on the rate computer), the event store (\<open>EventConsumer\<close>, on the in-memory store), the price fetcher of
  the oracle, \<open>notification_store\<close> and \<open>risk_sink\<close> (on the worker's store and bridge), \<open>market_cache\<close> (on the stub
  of \<open>cmd/api\<close>, and on a cache with expiry).

  \<^bold>\<open>Bounds and fuel.\<close> No fuel is used. The loop over block numbers is a \<open>partial_function\<close>, as it need not end for
  the largest block number; every other loop is structural or has a termination proof. Amounts below 2^256
  are assumed where an encoding of 32 bytes is claimed; beyond that the code overwrites other slots or
  panics, and the definitions do the same.

  \<^bold>\<open>Not modelled.\<close> How viper reads the configuration file, listening on sockets and signals (the
  end of \<open>cmd/api\<close> is a function of what they return), what the logs say, and the SQL of the migrations, which no Go code runs. The read models \<open>SyncStatus\<close>,
  \<open>MarketState\<close> and \<open>Position\<close> of \<open>types.go\<close> are records that no operation uses; the types \<open>LiquidationCandidate\<close>,
  \<open>ProtocolHealthSnapshot\<close> and \<open>UserPreference\<close>, which nothing uses either, and constructors that only store their
  arguments are left out. Tokens, signatures and hashes are
  opaque. Go's own data races (the in-memory store of the indexer, the map a broadcast iterates over) have no
  meaning in the language beyond a crash, and no step.
\<close>

end
